(* ===== verification/Abi_Prelude.thy ===== *)
theory Abi_Prelude
  imports Main "HOL-Library.Word" "HOL-Library.Multiset"
begin

text \<open>
  Shared ground of the development: the machine-integer bounds of a 64-bit target,
  Rust's checked and saturating arithmetic on unsigned integers (values are \<open>nat\<close>, the
  width is the bound), the iterator routine \<open>position\<close>, the shape \<open>state \<times> (error + value)\<close>
  of a fallible operation on \<open>&mut self\<close>, and the lemmas on slot vectors (lists updated
  at one index) that the component theories use.
\<close>

named_theorems abi_defs \<open>definitions of operations unfolded together by the component proofs\<close>

section \<open>Machine integers\<close>

type_synonym u8 = "8 word"
type_synonym u16 = "16 word"
type_synonym u32 = "32 word"
type_synonym u64 = "64 word"

definition usize_max :: nat where
  "usize_max = 2 ^ 64 - 1"

definition u64_max :: nat where
  "u64_max = 2 ^ 64 - 1"

definition u32_max :: nat where
  "u32_max = 2 ^ 32 - 1"

lemma usize_max_numeral [code_unfold]: "usize_max = 18446744073709551615"
  by (simp add: usize_max_def)

lemma u64_max_numeral [code_unfold]: "u64_max = 18446744073709551615"
  by (simp add: u64_max_def)

lemma u32_max_numeral [code_unfold]: "u32_max = 4294967295"
  by (simp add: u32_max_def)

lemmas int_max_numerals = usize_max_numeral u64_max_numeral u32_max_numeral

text \<open>\<open>checked_add m a b\<close> is \<open>a.checked_add(b)\<close> for an unsigned type whose maximum is \<open>m\<close>.\<close>

definition checked_add :: "nat \<Rightarrow> nat \<Rightarrow> nat \<Rightarrow> nat option" where
  "checked_add m a b = (if a + b \<le> m then Some (a + b) else None)"

definition checked_sub :: "nat \<Rightarrow> nat \<Rightarrow> nat option" where
  "checked_sub a b = (if b \<le> a then Some (a - b) else None)"

definition checked_mul :: "nat \<Rightarrow> nat \<Rightarrow> nat \<Rightarrow> nat option" where
  "checked_mul m a b = (if a * b \<le> m then Some (a * b) else None)"

definition saturating_add :: "nat \<Rightarrow> nat \<Rightarrow> nat \<Rightarrow> nat" where
  "saturating_add m a b = min m (a + b)"

lemma checked_add_Some_iff: "checked_add m a b = Some c \<longleftrightarrow> a + b \<le> m \<and> c = a + b"
  by (auto simp: checked_add_def)

lemma checked_add_None_iff: "checked_add m a b = None \<longleftrightarrow> m < a + b"
  by (auto simp: checked_add_def)

lemma checked_sub_Some_iff: "checked_sub a b = Some c \<longleftrightarrow> b \<le> a \<and> c = a - b"
  by (auto simp: checked_sub_def)

lemma checked_mul_Some_iff: "checked_mul m a b = Some c \<longleftrightarrow> a * b \<le> m \<and> c = a * b"
  by (auto simp: checked_mul_def)

lemmas checked_iffs = checked_add_Some_iff checked_add_None_iff checked_sub_Some_iff
  checked_mul_Some_iff

lemma unat_of_nat_usize: "n \<le> usize_max \<Longrightarrow> unat (of_nat n :: u64) = n"
  by (simp add: unat_of_nat usize_max_def take_bit_nat_eq_self_iff)

lemma unat_plus_usize: "unat (w :: u64) + n \<le> usize_max \<Longrightarrow> unat (w + of_nat n) = unat w + n"
  using unat_of_nat_usize [of "unat w + n"] by simp

lemma unat_minus_usize: "n \<le> unat (w :: u64) \<Longrightarrow> unat (w - of_nat n) = unat w - n"
proof -
  assume n: "n \<le> unat w"
  have "unat w \<le> usize_max" using unsigned_less [of w, where ?'a = nat] by (simp add: usize_max_def)
  with n show ?thesis using unat_of_nat_usize [of n] by (simp add: unat_sub_if')
qed

section \<open>Results of fallible operations\<close>

type_synonym ('s, 'e, 'a) outcome = "'s \<times> ('e + 'a)"

fun ok_or :: "'e \<Rightarrow> 'a option \<Rightarrow> 'e + 'a" where
  "ok_or e None = Inl e"
| "ok_or e (Some a) = Inr a"

lemma ok_or_Inr_iff [simp]: "ok_or e x = Inr a \<longleftrightarrow> x = Some a"
  by (cases x) auto

lemma ok_or_Inl_iff [simp]: "ok_or e x = Inl e' \<longleftrightarrow> x = None \<and> e' = e"
  by (cases x) auto

text \<open>The \<open>?\<close> operator: continue with the value or return the error.\<close>

fun and_then :: "'e + 'a \<Rightarrow> ('a \<Rightarrow> 'e + 'b) \<Rightarrow> 'e + 'b" where
  "and_then (Inl e) f = Inl e"
| "and_then (Inr a) f = f a"

lemma and_then_Inr_iff [simp]: "and_then r f = Inr b \<longleftrightarrow> (\<exists>a. r = Inr a \<and> f a = Inr b)"
  by (cases r) auto

lemma and_then_Inl_iff [simp]: "and_then r f = Inl e \<longleftrightarrow> r = Inl e \<or> (\<exists>a. r = Inr a \<and> f a = Inl e)"
  by (cases r) auto

section \<open>Iterator routines\<close>

text \<open>\<open>Iterator::position\<close>: the index of the first element satisfying the predicate.\<close>

fun position :: "('a \<Rightarrow> bool) \<Rightarrow> 'a list \<Rightarrow> nat option" where
  "position P [] = None"
| "position P (x # xs) = (if P x then Some 0 else map_option Suc (position P xs))"

lemma position_Some_iff:
  "position P xs = Some i \<longleftrightarrow> i < length xs \<and> P (xs ! i) \<and> (\<forall>j < i. \<not> P (xs ! j))"
proof (induction xs arbitrary: i)
  case Nil
  then show ?case by simp
next
  case (Cons x xs)
  show ?case
  proof (cases i)
    case 0
    then show ?thesis by auto
  next
    case (Suc k)
    have "(\<forall>j < Suc k. \<not> P ((x # xs) ! j)) \<longleftrightarrow> \<not> P x \<and> (\<forall>j < k. \<not> P (xs ! j))"
      by (auto simp: less_Suc_eq_0_disj)
    then show ?thesis using Suc Cons.IH by auto
  qed
qed

lemma position_None_iff: "position P xs = None \<longleftrightarrow> (\<forall>x \<in> set xs. \<not> P x)"
  by (induction xs) auto

lemma position_SomeD:
  assumes "position P xs = Some i"
  shows "i < length xs" and "P (xs ! i)" and "\<And>j. j < i \<Longrightarrow> \<not> P (xs ! j)"
  using assms by (auto simp: position_Some_iff)

text \<open>\<open>Iterator::flatten\<close> over a slice of options.\<close>

fun flatten :: "'a option list \<Rightarrow> 'a list" where
  "flatten [] = []"
| "flatten (None # xs) = flatten xs"
| "flatten (Some x # xs) = x # flatten xs"

lemma flatten_append [simp]: "flatten (xs @ ys) = flatten xs @ flatten ys"
  by (induction xs rule: flatten.induct) simp_all

lemma set_flatten: "x \<in> set (flatten xs) \<longleftrightarrow> Some x \<in> set xs"
  by (induction xs rule: flatten.induct) auto

lemma set_flatten_nth: "x \<in> set (flatten xs) \<longleftrightarrow> (\<exists>i < length xs. xs ! i = Some x)"
  by (simp add: set_flatten) (auto simp: in_set_conv_nth)

lemma flatten_replicate_None [simp]: "flatten (replicate n None) = []"
  by (induction n) simp_all

lemma mset_flatten_split:
  assumes "i < length xs"
  shows "mset (flatten (xs[i := x])) =
    mset (flatten (take i xs)) + mset (flatten [x]) + mset (flatten (drop (Suc i) xs))"
proof -
  have "xs[i := x] = take i xs @ [x] @ drop (Suc i) xs" using assms by (simp add: upd_conv_take_nth_drop)
  then show ?thesis by (simp only: flatten_append mset_append add.assoc)
qed

lemma mset_flatten_nth:
  "i < length xs \<Longrightarrow> mset (flatten xs) =
    mset (flatten (take i xs)) + mset (flatten [xs ! i]) + mset (flatten (drop (Suc i) xs))"
  using mset_flatten_split [of i xs "xs ! i"] by simp

lemma mset_flatten_insert:
  "i < length xs \<Longrightarrow> xs ! i = None \<Longrightarrow> mset (flatten (xs[i := Some y])) = add_mset y (mset (flatten xs))"
  using mset_flatten_split [of i xs "Some y"] mset_flatten_nth [of i xs] by simp

lemma mset_flatten_remove:
  "i < length xs \<Longrightarrow> xs ! i = Some y \<Longrightarrow> mset (flatten xs) = add_mset y (mset (flatten (xs[i := None])))"
  using mset_flatten_split [of i xs None] mset_flatten_nth [of i xs] by simp

lemma mset_flatten_replace:
  "i < length xs \<Longrightarrow> xs ! i = Some y \<Longrightarrow>
   add_mset y (mset (flatten (xs[i := Some z]))) = add_mset z (mset (flatten xs))"
  using mset_flatten_split [of i xs "Some z"] mset_flatten_nth [of i xs] by simp

lemma position_cong: "(\<And>x. x \<in> set xs \<Longrightarrow> P x = Q x) \<Longrightarrow> position P xs = position Q xs"
  by (induction xs) simp_all

section \<open>Slot vectors\<close>

text \<open>\<open>Vec::get\<close>: a bounds-checked read.\<close>

definition vec_get :: "'a list \<Rightarrow> nat \<Rightarrow> 'a option" where
  "vec_get xs i = (if i < length xs then Some (xs ! i) else None)"

lemma vec_get_Some_iff: "vec_get xs i = Some x \<longleftrightarrow> i < length xs \<and> x = xs ! i"
  by (auto simp: vec_get_def)

lemma vec_get_None_iff: "vec_get xs i = None \<longleftrightarrow> length xs \<le> i"
  by (auto simp: vec_get_def)

lemma vec_get_update: "vec_get (xs[i := x]) j = (if i = j \<and> i < length xs then Some x else vec_get xs j)"
  by (auto simp: vec_get_def)

lemmas vec_get_iffs = vec_get_Some_iff vec_get_None_iff

text \<open>
  Tables are vectors of slots. The lemmas say what a one-slot update does to the set of
  elements and to the number of slots satisfying a predicate.
\<close>

lemma set_list_update_cases: "y \<in> set (xs[i := x]) \<Longrightarrow> y = x \<or> y \<in> set xs"
  using set_update_subset_insert by fastforce

lemma length_filter_update:
  assumes "i < length xs"
  shows "length (filter P (xs[i := x])) + of_bool (P (xs ! i))
       = length (filter P xs) + of_bool (P x)"
proof -
  have u: "xs[i := x] = take i xs @ x # drop (Suc i) xs"
    using assms by (simp add: upd_conv_take_nth_drop)
  have v: "xs = take i xs @ xs ! i # drop (Suc i) xs"
    using assms by (simp add: id_take_nth_drop)
  have "length (filter P xs) = length (filter P (take i xs @ xs ! i # drop (Suc i) xs))"
    using v by simp
  then show ?thesis unfolding u by simp
qed

text \<open>
  Slots carry keys (a generation, an address); \<open>key s = None\<close> is a slot without one. A
  well-formed table has its keys below the next one to be issued and no key twice.
\<close>

definition keys_below :: "('a \<Rightarrow> nat option) \<Rightarrow> nat \<Rightarrow> 'a list \<Rightarrow> bool" where
  "keys_below key n xs \<longleftrightarrow> (\<forall>x \<in> set xs. \<forall>k. key x = Some k \<longrightarrow> k < n)"

definition distinct_keys :: "('a \<Rightarrow> 'k option) \<Rightarrow> 'a list \<Rightarrow> bool" where
  "distinct_keys key xs \<longleftrightarrow>
     (\<forall>i < length xs. \<forall>j < length xs. key (xs ! i) \<noteq> None \<and> key (xs ! i) = key (xs ! j) \<longrightarrow> i = j)"

lemma keys_below_nth: "keys_below key n xs \<Longrightarrow> i < length xs \<Longrightarrow> key (xs ! i) = Some k \<Longrightarrow> k < n"
  unfolding keys_below_def by (meson nth_mem)

lemma keys_below_mono: "keys_below key n xs \<Longrightarrow> n \<le> m \<Longrightarrow> keys_below key m xs"
  unfolding keys_below_def by (meson order_less_le_trans)

lemma keys_below_update:
  "keys_below key n xs \<Longrightarrow> (\<And>k. key x = Some k \<Longrightarrow> k < n) \<Longrightarrow> keys_below key n (xs[i := x])"
  unfolding keys_below_def by (auto dest: set_list_update_cases)

lemma keys_below_update_keep:
  "keys_below key n xs \<Longrightarrow> i < length xs \<Longrightarrow> key x = None \<or> key x = key (xs ! i) \<Longrightarrow>
   keys_below key n (xs[i := x])"
  by (rule keys_below_update) (auto intro: keys_below_nth [OF _ _ sym])

lemma keys_below_replicate [simp]: "key x = None \<Longrightarrow> keys_below key n (replicate m x)"
  by (auto simp: keys_below_def)

lemma distinct_keys_replicate [simp]: "key x = None \<Longrightarrow> distinct_keys key (replicate m x)"
  by (auto simp: distinct_keys_def)

lemma distinct_keysI:
  "(\<And>i j k. i < length xs \<Longrightarrow> j < length xs \<Longrightarrow> key (xs ! i) = Some k \<Longrightarrow> key (xs ! j) = Some k \<Longrightarrow> i = j)
   \<Longrightarrow> distinct_keys key xs"
  unfolding distinct_keys_def by (metis option.collapse)

lemma distinct_keysD:
  "distinct_keys key xs \<Longrightarrow> i < length xs \<Longrightarrow> j < length xs \<Longrightarrow> key (xs ! i) = Some k \<Longrightarrow>
   key (xs ! j) = Some k \<Longrightarrow> i = j"
  unfolding distinct_keys_def by (metis option.distinct(1))

lemma distinct_keys_update:
  assumes "distinct_keys key xs"
    and "\<And>j k. j < length xs \<Longrightarrow> j \<noteq> i \<Longrightarrow> key x = Some k \<Longrightarrow> key (xs ! j) \<noteq> Some k"
  shows "distinct_keys key (xs[i := x])"
proof (rule distinct_keysI)
  fix a b k
  assume "a < length (xs[i := x])" "b < length (xs[i := x])"
    "key (xs[i := x] ! a) = Some k" "key (xs[i := x] ! b) = Some k"
  then show "a = b"
    using assms(2) [of a k] assms(2) [of b k] distinct_keysD [OF assms(1), of a b k]
    by (cases "a = i"; cases "b = i") (auto simp: nth_list_update)
qed

lemma distinct_keys_update_keep:
  assumes "distinct_keys key xs" and "i < length xs" and "key x = None \<or> key x = key (xs ! i)"
  shows "distinct_keys key (xs[i := x])"
proof (rule distinct_keys_update [OF assms(1)])
  fix j k assume "j < length xs" "j \<noteq> i" "key x = Some k"
  moreover from this assms(3) have "key (xs ! i) = Some k" by auto
  ultimately show "key (xs ! j) \<noteq> Some k"
    using distinct_keysD [OF assms(1), of j i k] assms(2) by blast
qed

lemma distinct_keys_update_fresh:
  "distinct_keys key xs \<Longrightarrow> keys_below key n xs \<Longrightarrow> key x = Some n \<Longrightarrow> distinct_keys key (xs[i := x])"
  by (rule distinct_keys_update) (auto dest: keys_below_nth)

lemmas slot_key_intros = keys_below_update_keep distinct_keys_update_keep
  distinct_keys_update_fresh

lemma filter_length_le_capacity:
  assumes "distinct ks" and "\<And>k. k \<in> set ks \<Longrightarrow> f k < n" and "inj_on f (set ks)"
  shows "length ks \<le> n"
proof -
  have "length ks = card (f ` set ks)"
    using assms by (simp add: card_image distinct_card)
  also have "\<dots> \<le> card {..<n}"
    using assms(2) by (intro card_mono) auto
  finally show ?thesis by simp
qed

section \<open>Alignment masks\<close>

text \<open>Clearing the low bits of a value that fits its width, with the complement taken at that width.\<close>

lemma clear_low_bits_width:
  fixes v :: nat
  assumes "k \<le> w" and "v < 2 ^ w"
  shows "and v ((2 ^ w - 1) - (2 ^ k - 1)) = v div 2 ^ k * 2 ^ k"
proof -
  have "(2 :: nat) ^ w = 2 ^ (w - k) * 2 ^ k" using assms(1) by (simp flip: power_add)
  then have "(2 ^ w - 1) - (2 ^ k - 1 :: nat) = push_bit k (mask (w - k))"
    by (simp add: push_bit_eq_mult mask_eq_exp_minus_1 diff_mult_distrib)
  moreover have "and v (push_bit k (mask (w - k))) = push_bit k (drop_bit k v)"
  proof (rule bit_eqI)
    fix n
    have "take_bit w v = v" using assms(2) by (simp add: take_bit_nat_eq_self_iff)
    then have "bit v n \<Longrightarrow> n < w" by (metis bit_take_bit_iff)
    then show "bit (and v (push_bit k (mask (w - k)))) n = bit (push_bit k (drop_bit k v)) n"
      using assms(1) by (auto simp: bit_simps)
  qed
  ultimately show ?thesis by (simp add: push_bit_eq_mult drop_bit_eq_div)
qed

end
