(* ===== verification/Fd_Types.thy ===== *)
theory Fd_Types
  imports Abi_Prelude
begin

text \<open>
  The value types of the descriptor crate (\<^verbatim>\<open>crates/fd/src/types.rs\<close>) and the shared
  open-file-description state (\<^verbatim>\<open>crates/fd/src/ofd.rs\<close>). Descriptor numbers, flag sets and
  readiness masks are words of the source's width; identities are numbers, nonzero where
  the constructor rejects zero.
\<close>

unbundle bit_operations_syntax

section \<open>Descriptor numbers and identities\<close>

type_synonym fd_number = u32

definition fd_number_from_i32 :: "int \<Rightarrow> fd_number option" where
  "fd_number_from_i32 raw = (if raw < 0 then None else Some (word_of_int raw))"

definition fd_index :: "fd_number \<Rightarrow> nat" where
  "fd_index fd = unat fd"

text \<open>\<open>FdTableId::new\<close>, \<open>OfdId::new\<close>, \<open>EpollId::new\<close> and \<open>EpollGraphId::new\<close> share one body.\<close>

definition identity_new :: "u64 \<Rightarrow> u64 option" where
  "identity_new raw = (if raw = 0 then None else Some raw)"

lemma fd_index_from_i32:
  assumes "fd_number_from_i32 raw = Some fd" and "raw < 2 ^ 31"
  shows "int (fd_index fd) = raw"
proof -
  have "0 \<le> raw" and "fd = word_of_int raw"
    using assms(1) by (auto simp: fd_number_from_i32_def split: if_splits)
  then show ?thesis
    using assms(2) by (simp add: fd_index_def uint_word_of_int take_bit_eq_mod)
qed

lemma fd_index_of_nat: "i < 2 ^ 32 \<Longrightarrow> fd_index (of_nat i) = i"
  by (simp add: fd_index_def unat_of_nat)

lemma fd_index_less: "fd_index fd < 2 ^ 32"
  using unsigned_less [of fd] by (simp add: fd_index_def)

lemma fd_index_inj [simp]: "fd_index a = fd_index b \<longleftrightarrow> a = b"
  by (simp add: fd_index_def word_unat_eq_iff)

lemma fd_index_le_iff: "fd_index a \<le> fd_index b \<longleftrightarrow> a \<le> b"
  by (simp add: fd_index_def word_le_nat_alt)

section \<open>Descriptor flags\<close>

type_synonym descriptor_flags = u8

definition CLOSE_ON_EXEC :: descriptor_flags where
  "CLOSE_ON_EXEC = 1"

definition flags_contains :: "descriptor_flags \<Rightarrow> descriptor_flags \<Rightarrow> bool" where
  "flags_contains f other \<longleftrightarrow> f AND other = other"

definition flags_set :: "descriptor_flags \<Rightarrow> descriptor_flags \<Rightarrow> bool \<Rightarrow> descriptor_flags" where
  "flags_set f flag enabled = (if enabled then f OR flag else f AND NOT flag)"

lemma flags_contains_set_True [simp]: "flags_contains (flags_set f g True) g"
  unfolding flags_contains_def flags_set_def
  by (rule bit_eqI) (auto simp: bit_simps)

lemma flags_contains_set_False: "g \<noteq> 0 \<Longrightarrow> \<not> flags_contains (flags_set f g False) g"
proof -
  assume "g \<noteq> 0"
  moreover have "(f AND NOT g) AND g = 0"
    by (rule bit_eqI) (auto simp: bit_simps)
  ultimately show ?thesis by (simp add: flags_contains_def flags_set_def)
qed

section \<open>Interest and readiness masks\<close>

type_synonym interest_mask = u32
type_synonym ready_mask = u32

definition INTEREST_ALL :: interest_mask where
  "INTEREST_ALL = 0x0001 OR 0x0002 OR 0x0004 OR 0x0040 OR 0x0080 OR 0x0100 OR 0x0200 OR 0x2000"

definition interest_from_bits :: "u32 \<Rightarrow> interest_mask option" where
  "interest_from_bits bits = (if bits AND NOT INTEREST_ALL = 0 then Some bits else None)"

definition READY_ERROR :: ready_mask where "READY_ERROR = 0x0008"
definition READY_HANGUP :: ready_mask where "READY_HANGUP = 0x0010"
definition READY_INVALID :: ready_mask where "READY_INVALID = 0x0020"

definition READY_UNCONDITIONAL :: ready_mask where
  "READY_UNCONDITIONAL = READY_ERROR OR READY_HANGUP OR READY_INVALID"

definition deliverable :: "ready_mask \<Rightarrow> interest_mask \<Rightarrow> ready_mask" where
  "deliverable ready interest = ready AND (interest OR READY_UNCONDITIONAL)"

record interest_mode =
  im_edge :: bool
  im_one_shot :: bool
  im_exclusive :: bool

lemma deliverable_or: "deliverable (a OR b) i = deliverable a i OR deliverable b i"
  unfolding deliverable_def by (rule bit_eqI) (auto simp: bit_simps)

lemma deliverable_unconditional:
  "deliverable r i AND READY_UNCONDITIONAL = r AND READY_UNCONDITIONAL"
  unfolding deliverable_def by (rule bit_eqI) (auto simp: bit_simps)

section \<open>Open file descriptions\<close>

text \<open>
  The offset is a \<open>u64\<close> (a number up to \<open>u64_max\<close>) or, in the external mode, the marker of
  a cursor that the consumer owns; the marker carries nothing, so it is \<open>unit\<close>.
\<close>

record ('a, 'o) ofd_state =
  ofd_id :: u64
  ofd_status_flags :: u32
  ofd_offset :: 'o
  ofd_async_owner :: 'a

datatype ofd_offset_error =
    OfdOverflow
  | OfdStaleStart (ofd_expected: nat) (ofd_supplied: nat)

definition ofd_new :: "u64 \<Rightarrow> u32 \<Rightarrow> nat \<Rightarrow> 'a \<Rightarrow> ('a, nat) ofd_state" where
  "ofd_new i flags off owner =
     \<lparr>ofd_id = i, ofd_status_flags = flags, ofd_offset = off, ofd_async_owner = owner\<rparr>"

definition ofd_new_external :: "u64 \<Rightarrow> u32 \<Rightarrow> 'a \<Rightarrow> ('a, unit) ofd_state" where
  "ofd_new_external i flags owner =
     \<lparr>ofd_id = i, ofd_status_flags = flags, ofd_offset = (), ofd_async_owner = owner\<rparr>"

definition commit_seek :: "('a, nat) ofd_state \<Rightarrow> nat \<Rightarrow> ('a, nat) ofd_state" where
  "commit_seek s off = s\<lparr>ofd_offset := off\<rparr>"

definition commit_io ::
  "('a, nat) ofd_state \<Rightarrow> nat \<Rightarrow> nat \<Rightarrow> (('a, nat) ofd_state, ofd_offset_error, nat) outcome" where
  "commit_io s start transferred =
     (if ofd_offset s \<noteq> start then (s, Inl (OfdStaleStart (ofd_offset s) start))
      else if u64_max < transferred then (s, Inl OfdOverflow)
      else case checked_add u64_max start transferred of
        None \<Rightarrow> (s, Inl OfdOverflow)
      | Some next \<Rightarrow> (s\<lparr>ofd_offset := next\<rparr>, Inr next))"

definition commit_status_flags :: "('a, 'o) ofd_state \<Rightarrow> u32 \<Rightarrow> ('a, 'o) ofd_state" where
  "commit_status_flags s flags = s\<lparr>ofd_status_flags := flags\<rparr>"

definition async_owner_mut :: "('a, 'o) ofd_state \<Rightarrow> ('a \<Rightarrow> 'a) \<Rightarrow> ('a, 'o) ofd_state" where
  "async_owner_mut s f = s\<lparr>ofd_async_owner := f (ofd_async_owner s)\<rparr>"

lemma commit_io_Inr_iff:
  "commit_io s start n = (s', Inr v) \<longleftrightarrow>
     ofd_offset s = start \<and> start + n \<le> u64_max \<and> v = start + n \<and> s' = s\<lparr>ofd_offset := start + n\<rparr>"
  by (auto simp: commit_io_def checked_iffs split: option.splits)

lemma commit_io_Inl_unchanged: "commit_io s start n = (s', Inl e) \<Longrightarrow> s' = s"
  by (auto simp: commit_io_def split: if_splits option.splits)

end
