(* ===== verification/Generation_Domain.thy ===== *)
theory Generation_Domain
  imports Abi_Prelude
begin

text \<open>
  The contract that every generation-tagged table of the workspace offers: tokens carry a
  generation, a slot accepts a token only while it holds that generation, and a generation
  is handed out at most once. The file descriptor table, the epoll interest table, the epoll
  graph, the pin registry and the \<open>io_uring\<close> request registry each interpret this locale; the
  consequence that a token which has gone stale is rejected after every further sequence of
  operations is proved here once.
\<close>

locale generation_domain =
  fixes inv :: "'s \<Rightarrow> bool"
    and step :: "'s \<Rightarrow> 's \<Rightarrow> bool"
    and holds :: "'s \<Rightarrow> 'k \<Rightarrow> bool"
    and gen :: "'k \<Rightarrow> nat"
    and next_gen :: "'s \<Rightarrow> nat"
  assumes inv_step: "inv s \<Longrightarrow> step s t \<Longrightarrow> inv t"
    and issued: "inv s \<Longrightarrow> holds s k \<Longrightarrow> gen k < next_gen s"
    and next_mono: "inv s \<Longrightarrow> step s t \<Longrightarrow> next_gen s \<le> next_gen t"
    and fresh: "inv s \<Longrightarrow> step s t \<Longrightarrow> holds t k \<Longrightarrow> holds s k \<or> next_gen s \<le> gen k"
begin

lemma inv_steps: "step\<^sup>*\<^sup>* s t \<Longrightarrow> inv s \<Longrightarrow> inv t"
  by (induction rule: rtranclp_induct) (auto intro: inv_step)

lemma next_mono_steps: "step\<^sup>*\<^sup>* s t \<Longrightarrow> inv s \<Longrightarrow> next_gen s \<le> next_gen t"
proof (induction rule: rtranclp_induct)
  case base
  then show ?case by simp
next
  case (step u v)
  have "inv u" using step.hyps(1) step.prems by (rule inv_steps)
  with step show ?case by (meson next_mono order_trans)
qed

lemma stale_forever:
  assumes "step\<^sup>*\<^sup>* s t" and "inv s" and "\<not> holds s k" and "gen k < next_gen s"
  shows "\<not> holds t k"
  using assms(1)
proof (induction rule: rtranclp_induct)
  case base
  show ?case by (rule assms(3))
next
  case (step u v)
  have "inv u" and "next_gen s \<le> next_gen u"
    using step.hyps(1) assms(2) by (blast intro: inv_steps next_mono_steps)+
  then show ?case
    using step.hyps(2) step.IH fresh [of u v k] assms(4) by auto
qed

end

end
