(* ===== verification/Fd_Table.thy ===== *)
theory Fd_Table
  imports Fd_Types Generation_Domain
begin

text \<open>
  The bounded descriptor table (\<^verbatim>\<open>crates/fd/src/table.rs\<close>): reservation, publication in
  one and in two phases, lookup, duplication, close and the transactional close
  operations. The const parameter \<open>N\<close> is the length of the slot vector. The shared
  \<open>Arc<PublicationState>\<close> cells of prepared publications live in an explicit heap: an
  address is an index, \<open>Arc::ptr_eq\<close> is equality of addresses, and the operations that
  read a phase take the heap. \<open>Clone\<close> on descriptions is the parameter \<open>cl\<close>, the allocator's
  answer to a reservation of \<open>n\<close> elements is the parameter \<open>alloc_ok n\<close>.
\<close>

unbundle bit_operations_syntax

section \<open>Data\<close>

record descriptor_token =
  dt_table :: u64
  dt_fd :: fd_number
  dt_generation :: nat

record reservation_token =
  rt_table :: u64
  rt_fd :: fd_number
  rt_generation :: nat

datatype publication_phase = PUBLICATION_PENDING | PUBLICATION_VISIBLE | PUBLICATION_ABORTED

type_synonym pub_heap = "publication_phase list"

definition phase_visible :: "pub_heap \<Rightarrow> nat \<Rightarrow> bool" where
  "phase_visible h a \<longleftrightarrow> vec_get h a = Some PUBLICATION_VISIBLE"

record prepared_publication =
  pp_table :: u64
  pp_fd :: fd_number
  pp_generation :: nat
  pp_state :: nat
  pp_active :: bool

record 'd descriptor_entry =
  de_description :: 'd
  de_flags :: descriptor_flags

datatype 'd slot =
    is_Vacant: Vacant
  | Reserved (sl_generation: nat) (sl_flags: descriptor_flags)
  | Prepared (sl_generation: nat) (sl_entry: "'d descriptor_entry") (sl_state: nat)
  | Occupied (sl_generation: nat) (sl_entry: "'d descriptor_entry")

record 'd fd_table =
  ft_id :: u64
  ft_next_generation :: nat
  ft_slots :: "'d slot list"

datatype fd_table_error =
    BadDescriptor
  | TableFull
  | Busy
  | StaleToken
  | GenerationExhausted
  | InsufficientCloseStorage
  | NoMemory
  | Unbounded

datatype 'd publish_error = PublishError (pe_error: fd_table_error) (pe_description: 'd)

datatype 'd prepare_publication_error =
  PreparePublicationError (ppe_error: fd_table_error) (ppe_reservation: reservation_token)
    (ppe_description: 'd)

datatype cancel_prepared_error =
  CancelPreparedError (cpe_error: fd_table_error) (cpe_publication: prepared_publication)

section \<open>Slots\<close>

fun visible_entry :: "pub_heap \<Rightarrow> 'd slot \<Rightarrow> 'd descriptor_entry option" where
  "visible_entry h (Occupied g e) = Some e"
| "visible_entry h (Prepared g e a) = (if phase_visible h a then Some e else None)"
| "visible_entry h _ = None"

fun visible_entry_mut ::
  "pub_heap \<Rightarrow> 'd slot \<Rightarrow> ('d descriptor_entry \<Rightarrow> 'd descriptor_entry) \<Rightarrow> 'd slot option" where
  "visible_entry_mut h (Occupied g e) f = Some (Occupied g (f e))"
| "visible_entry_mut h (Prepared g e a) f =
     (if phase_visible h a then Some (Prepared g (f e) a) else None)"
| "visible_entry_mut h _ f = None"

fun visible_generation :: "pub_heap \<Rightarrow> 'd slot \<Rightarrow> nat option" where
  "visible_generation h (Occupied g e) = Some g"
| "visible_generation h (Prepared g e a) = (if phase_visible h a then Some g else None)"
| "visible_generation h _ = None"

fun blocks_replacement :: "pub_heap \<Rightarrow> 'd slot \<Rightarrow> bool" where
  "blocks_replacement h (Reserved g f) = True"
| "blocks_replacement h (Prepared g e a) = (\<not> phase_visible h a)"
| "blocks_replacement h _ = False"

fun into_visible_entry :: "pub_heap \<Rightarrow> 'd slot \<Rightarrow> 'd slot + 'd descriptor_entry" where
  "into_visible_entry h (Occupied g e) = Inr e"
| "into_visible_entry h (Prepared g e a) = (if phase_visible h a then Inr e else Inl (Prepared g e a))"
| "into_visible_entry h other = Inl other"

section \<open>Construction and reservation\<close>

definition capacity :: "'d fd_table \<Rightarrow> nat" where
  "capacity t = length (ft_slots t)"

definition fd_try_new :: "(nat \<Rightarrow> bool) \<Rightarrow> nat \<Rightarrow> u64 \<Rightarrow> fd_table_error + 'd fd_table" where
  "fd_try_new alloc_ok n i =
     (if n = usize_max \<or> n > u32_max + 1 then Inl Unbounded
      else if \<not> alloc_ok n then Inl NoMemory
      else Inr \<lparr>ft_id = i, ft_next_generation = 1, ft_slots = replicate n Vacant\<rparr>)"

definition fd_len :: "pub_heap \<Rightarrow> 'd fd_table \<Rightarrow> nat" where
  "fd_len h t = length (filter (\<lambda>s. visible_entry h s \<noteq> None) (ft_slots t))"

definition fd_iter :: "pub_heap \<Rightarrow> 'd fd_table \<Rightarrow> (fd_number \<times> 'd descriptor_entry) list" where
  "fd_iter h t = List.map_filter
     (\<lambda>(fd, s). case visible_entry h s of
        None \<Rightarrow> None
      | Some e \<Rightarrow> if fd \<le> u32_max then Some (of_nat fd, e) else None)
     (enumerate 0 (ft_slots t))"

definition allocate_generation :: "'d fd_table \<Rightarrow> ('d fd_table, fd_table_error, nat) outcome" where
  "allocate_generation t =
     (case checked_add u64_max (ft_next_generation t) 1 of
        None \<Rightarrow> (t, Inl GenerationExhausted)
      | Some n \<Rightarrow> (t\<lparr>ft_next_generation := n\<rparr>, Inr (ft_next_generation t)))"

definition bounded_range :: "'d fd_table \<Rightarrow> nat \<Rightarrow> nat \<Rightarrow> nat list" where
  "bounded_range t minimum limit = [min minimum (capacity t) ..< min limit (capacity t)]"

definition set_slot :: "'d fd_table \<Rightarrow> nat \<Rightarrow> 'd slot \<Rightarrow> 'd fd_table" where
  "set_slot t fd s = t\<lparr>ft_slots := (ft_slots t)[fd := s]\<rparr>"

definition reserve ::
  "'d fd_table \<Rightarrow> nat \<Rightarrow> nat \<Rightarrow> descriptor_flags \<Rightarrow>
   ('d fd_table, fd_table_error, reservation_token) outcome" where
  "reserve t minimum limit flags =
     (case find (\<lambda>fd. is_Vacant (ft_slots t ! fd)) (bounded_range t minimum limit) of
        None \<Rightarrow> (t, Inl TableFull)
      | Some fd \<Rightarrow>
          (case allocate_generation t of
             (t', Inl e) \<Rightarrow> (t', Inl e)
           | (t', Inr g) \<Rightarrow>
               (set_slot t' fd (Reserved g flags),
                Inr \<lparr>rt_table = ft_id t, rt_fd = of_nat fd, rt_generation = g\<rparr>)))"

definition validate_reservation :: "'d fd_table \<Rightarrow> reservation_token \<Rightarrow> fd_table_error + nat" where
  "validate_reservation t r =
     (if rt_table r \<noteq> ft_id t \<or> fd_index (rt_fd r) \<ge> capacity t then Inl StaleToken
      else case ft_slots t ! fd_index (rt_fd r) of
        Reserved g f \<Rightarrow>
          if g = rt_generation r then Inr (fd_index (rt_fd r)) else Inl StaleToken
      | _ \<Rightarrow> Inl StaleToken)"

definition cancel_reservation ::
  "'d fd_table \<Rightarrow> reservation_token \<Rightarrow> ('d fd_table, fd_table_error, unit) outcome" where
  "cancel_reservation t r =
     (case validate_reservation t r of
        Inl e \<Rightarrow> (t, Inl e)
      | Inr fd \<Rightarrow> (set_slot t fd Vacant, Inr ()))"

section \<open>Publication\<close>

definition publish ::
  "'d fd_table \<Rightarrow> reservation_token \<Rightarrow> 'd \<Rightarrow>
   ('d fd_table, 'd publish_error, descriptor_token) outcome" where
  "publish t r d =
     (case validate_reservation t r of
        Inl e \<Rightarrow> (t, Inl (PublishError e d))
      | Inr fd \<Rightarrow>
          (case ft_slots t ! fd of
             Reserved g flags \<Rightarrow>
               (set_slot t fd (Occupied (rt_generation r) \<lparr>de_description = d, de_flags = flags\<rparr>),
                Inr \<lparr>dt_table = ft_id t, dt_fd = rt_fd r, dt_generation = rt_generation r\<rparr>)
           | _ \<Rightarrow> (t, Inl (PublishError StaleToken d))))"

definition prepare_publication ::
  "pub_heap \<times> 'd fd_table \<Rightarrow> reservation_token \<Rightarrow> 'd \<Rightarrow>
   (pub_heap \<times> 'd fd_table, 'd prepare_publication_error, prepared_publication) outcome" where
  "prepare_publication ht r d =
     (case ht of (h, t) \<Rightarrow>
      case validate_reservation t r of
        Inl e \<Rightarrow> ((h, t), Inl (PreparePublicationError e r d))
      | Inr fd \<Rightarrow>
          (case ft_slots t ! fd of
             Reserved g flags \<Rightarrow>
               ((h @ [PUBLICATION_PENDING],
                 set_slot t fd (Prepared (rt_generation r)
                   \<lparr>de_description = d, de_flags = flags\<rparr> (length h))),
                Inr \<lparr>pp_table = ft_id t, pp_fd = rt_fd r, pp_generation = rt_generation r,
                     pp_state = length h, pp_active = True\<rparr>)
           | _ \<Rightarrow> ((h, t), Inl (PreparePublicationError StaleToken r d))))"

definition publication_commit :: "pub_heap \<Rightarrow> prepared_publication \<Rightarrow> pub_heap \<times> descriptor_token" where
  "publication_commit h p =
     (h[pp_state p := PUBLICATION_VISIBLE],
      \<lparr>dt_table = pp_table p, dt_fd = pp_fd p, dt_generation = pp_generation p\<rparr>)"

definition publication_drop :: "pub_heap \<Rightarrow> prepared_publication \<Rightarrow> pub_heap" where
  "publication_drop h p = (if pp_active p then h[pp_state p := PUBLICATION_ABORTED] else h)"

definition cancel_prepared ::
  "pub_heap \<times> 'd fd_table \<Rightarrow> prepared_publication \<Rightarrow>
   (pub_heap \<times> 'd fd_table, cancel_prepared_error, 'd descriptor_entry) outcome" where
  "cancel_prepared ht p =
     (case ht of (h, t) \<Rightarrow>
      if pp_table p \<noteq> ft_id t \<or> fd_index (pp_fd p) \<ge> capacity t
      then ((h, t), Inl (CancelPreparedError StaleToken p))
      else
        let fd = fd_index (pp_fd p) in
        case ft_slots t ! fd of
          Prepared g e a \<Rightarrow>
            if g = pp_generation p \<and> a = pp_state p \<and> vec_get h a = Some PUBLICATION_PENDING
            then ((h[pp_state p := PUBLICATION_ABORTED], set_slot t fd Vacant), Inr e)
            else ((h, t), Inl (CancelPreparedError StaleToken p))
        | _ \<Rightarrow> ((h, t), Inl (CancelPreparedError StaleToken p)))"

section \<open>Lookup\<close>

definition fd_lookup :: "pub_heap \<Rightarrow> 'd fd_table \<Rightarrow> nat \<Rightarrow> 'd descriptor_entry option" where
  "fd_lookup h t i = Option.bind (vec_get (ft_slots t) i) (visible_entry h)"

definition fd_get :: "pub_heap \<Rightarrow> 'd fd_table \<Rightarrow> fd_number \<Rightarrow> fd_table_error + 'd descriptor_entry" where
  "fd_get h t fd = ok_or BadDescriptor (fd_lookup h t (fd_index fd))"

definition fd_get_mut ::
  "pub_heap \<Rightarrow> 'd fd_table \<Rightarrow> fd_number \<Rightarrow> ('d descriptor_entry \<Rightarrow> 'd descriptor_entry) \<Rightarrow>
   ('d fd_table, fd_table_error, unit) outcome" where
  "fd_get_mut h t fd f =
     (case Option.bind (vec_get (ft_slots t) (fd_index fd)) (\<lambda>s. visible_entry_mut h s f) of
        None \<Rightarrow> (t, Inl BadDescriptor)
      | Some s \<Rightarrow> (set_slot t (fd_index fd) s, Inr ()))"

definition fd_token :: "pub_heap \<Rightarrow> 'd fd_table \<Rightarrow> fd_number \<Rightarrow> fd_table_error + descriptor_token" where
  "fd_token h t fd =
     (case Option.bind (vec_get (ft_slots t) (fd_index fd)) (visible_generation h) of
        None \<Rightarrow> Inl BadDescriptor
      | Some g \<Rightarrow> Inr \<lparr>dt_table = ft_id t, dt_fd = fd, dt_generation = g\<rparr>)"

definition get_token ::
  "pub_heap \<Rightarrow> 'd fd_table \<Rightarrow> descriptor_token \<Rightarrow> fd_table_error + 'd descriptor_entry" where
  "get_token h t k =
     (if dt_table k \<noteq> ft_id t \<or> fd_index (dt_fd k) \<ge> capacity t then Inl StaleToken
      else let s = ft_slots t ! fd_index (dt_fd k) in
        if visible_generation h s \<noteq> Some (dt_generation k) then Inl StaleToken
        else ok_or StaleToken (visible_entry h s))"

section \<open>Close and descriptor flags\<close>

definition fd_close ::
  "pub_heap \<Rightarrow> 'd fd_table \<Rightarrow> fd_number \<Rightarrow> ('d fd_table, fd_table_error, 'd descriptor_entry) outcome" where
  "fd_close h t fd =
     (case vec_get (ft_slots t) (fd_index fd) of
        None \<Rightarrow> (t, Inl BadDescriptor)
      | Some s \<Rightarrow>
          (case into_visible_entry h s of
             Inr e \<Rightarrow> (set_slot t (fd_index fd) Vacant, Inr e)
           | Inl other \<Rightarrow> (set_slot t (fd_index fd) other, Inl BadDescriptor)))"

definition close_token ::
  "pub_heap \<Rightarrow> 'd fd_table \<Rightarrow> descriptor_token \<Rightarrow>
   ('d fd_table, fd_table_error, 'd descriptor_entry) outcome" where
  "close_token h t k =
     (case get_token h t k of
        Inl e \<Rightarrow> (t, Inl e)
      | Inr _ \<Rightarrow> fd_close h t (dt_fd k))"

definition set_close_on_exec ::
  "pub_heap \<Rightarrow> 'd fd_table \<Rightarrow> fd_number \<Rightarrow> bool \<Rightarrow> ('d fd_table, fd_table_error, unit) outcome" where
  "set_close_on_exec h t fd enabled =
     fd_get_mut h t fd (\<lambda>e. e\<lparr>de_flags := flags_set (de_flags e) CLOSE_ON_EXEC enabled\<rparr>)"

definition mark_one :: "pub_heap \<Rightarrow> nat \<Rightarrow> 'd fd_table \<Rightarrow> 'd fd_table" where
  "mark_one h fd t =
     (case visible_entry_mut h (ft_slots t ! fd)
             (\<lambda>e. e\<lparr>de_flags := flags_set (de_flags e) CLOSE_ON_EXEC True\<rparr>) of
        None \<Rightarrow> t
      | Some s \<Rightarrow> set_slot t fd s)"

definition mark_close_on_exec_range ::
  "pub_heap \<Rightarrow> 'd fd_table \<Rightarrow> fd_number \<Rightarrow> fd_number \<Rightarrow> 'd fd_table" where
  "mark_close_on_exec_range h t first last_fd =
     (if capacity t = 0 \<or> last_fd < first \<or> fd_index first \<ge> capacity t then t
      else fold (mark_one h)
        [min (fd_index first) (capacity t) ..< Suc (min (fd_index last_fd) (capacity t - 1))] t)"

section \<open>Duplication and fork\<close>

definition duplicate ::
  "('d \<Rightarrow> 'd) \<Rightarrow> pub_heap \<Rightarrow> 'd fd_table \<Rightarrow> fd_number \<Rightarrow> nat \<Rightarrow> nat \<Rightarrow> descriptor_flags \<Rightarrow>
   ('d fd_table, fd_table_error, descriptor_token) outcome" where
  "duplicate cl h t source minimum limit flags =
     (case fd_get h t source of
        Inl e \<Rightarrow> (t, Inl e)
      | Inr entry \<Rightarrow>
          (case reserve t minimum limit flags of
             (t1, Inl e) \<Rightarrow> (t1, Inl e)
           | (t1, Inr r) \<Rightarrow>
               (case publish t1 r (cl (de_description entry)) of
                  (t2, Inl pe) \<Rightarrow> (t2, Inl (pe_error pe))
                | (t2, Inr k) \<Rightarrow> (t2, Inr k))))"

definition duplicate_replace ::
  "('d \<Rightarrow> 'd) \<Rightarrow> pub_heap \<Rightarrow> 'd fd_table \<Rightarrow> fd_number \<Rightarrow> fd_number \<Rightarrow> descriptor_flags \<Rightarrow>
   ('d fd_table, fd_table_error, descriptor_token \<times> 'd descriptor_entry option) outcome" where
  "duplicate_replace cl h t source target flags =
     (if source = target then
        (case fd_token h t source of
           Inl e \<Rightarrow> (t, Inl e)
         | Inr k \<Rightarrow> (t, Inr (k, None)))
      else if fd_index target \<ge> capacity t then (t, Inl BadDescriptor)
      else if blocks_replacement h (ft_slots t ! fd_index target) then (t, Inl Busy)
      else
        (case fd_get h t source of
           Inl e \<Rightarrow> (t, Inl e)
         | Inr entry \<Rightarrow>
             (case allocate_generation t of
                (t1, Inl e) \<Rightarrow> (t1, Inl e)
              | (t1, Inr g) \<Rightarrow>
                  let previous = ft_slots t1 ! fd_index target;
                      t2 = set_slot t1 (fd_index target)
                             (Occupied g \<lparr>de_description = cl (de_description entry), de_flags = flags\<rparr>);
                      k = \<lparr>dt_table = ft_id t1, dt_fd = target, dt_generation = g\<rparr>
                  in case into_visible_entry h previous of
                       Inr e \<Rightarrow> (t2, Inr (k, Some e))
                     | Inl Vacant \<Rightarrow> (t2, Inr (k, None))
                     | Inl other \<Rightarrow> (set_slot t2 (fd_index target) other, Inl Busy))))"

fun fork_loop ::
  "('d \<Rightarrow> 'd) \<Rightarrow> pub_heap \<Rightarrow> nat \<Rightarrow> 'd slot list \<Rightarrow> 'd fd_table \<Rightarrow> fd_table_error + 'd fd_table" where
  "fork_loop cl h fd [] copy = Inr copy"
| "fork_loop cl h fd (s # ss) copy =
     (case visible_entry h s of
        None \<Rightarrow> fork_loop cl h (Suc fd) ss copy
      | Some e \<Rightarrow>
          (case allocate_generation copy of
             (_, Inl err) \<Rightarrow> Inl err
           | (c, Inr g) \<Rightarrow>
               fork_loop cl h (Suc fd) ss
                 (set_slot c fd (Occupied g (e\<lparr>de_description := cl (de_description e)\<rparr>)))))"

definition fork_copy ::
  "(nat \<Rightarrow> bool) \<Rightarrow> ('d \<Rightarrow> 'd) \<Rightarrow> pub_heap \<Rightarrow> 'd fd_table \<Rightarrow> u64 \<Rightarrow> fd_table_error + 'd fd_table" where
  "fork_copy alloc_ok cl h t new_id =
     (case fd_try_new alloc_ok (capacity t) new_id of
        Inl e \<Rightarrow> Inl e
      | Inr copy \<Rightarrow> fork_loop cl h 0 (ft_slots t) copy)"

section \<open>Close batches\<close>

record 'd close_batch =
  cb_entries :: "'d descriptor_entry list"
  cb_limit :: nat

definition batch_try_with_capacity :: "(nat \<Rightarrow> bool) \<Rightarrow> nat \<Rightarrow> fd_table_error + 'd close_batch" where
  "batch_try_with_capacity alloc_ok n =
     (if n = usize_max then Inl Unbounded
      else if \<not> alloc_ok n then Inl NoMemory
      else Inr \<lparr>cb_entries = [], cb_limit = n\<rparr>)"

definition batch_remaining :: "'d close_batch \<Rightarrow> nat" where
  "batch_remaining b = cb_limit b - length (cb_entries b)"

definition batch_push :: "'d descriptor_entry \<Rightarrow> 'd close_batch \<Rightarrow> 'd close_batch" where
  "batch_push e b = b\<lparr>cb_entries := cb_entries b @ [e]\<rparr>"

definition slot_matches ::
  "pub_heap \<Rightarrow> (nat \<Rightarrow> 'd descriptor_entry \<Rightarrow> bool) \<Rightarrow> nat \<Rightarrow> 'd slot \<Rightarrow> bool" where
  "slot_matches h P fd s = (case visible_entry h s of None \<Rightarrow> False | Some e \<Rightarrow> P fd e)"

definition detach_one ::
  "pub_heap \<Rightarrow> (nat \<Rightarrow> 'd descriptor_entry \<Rightarrow> bool) \<Rightarrow> nat \<Rightarrow> 'd fd_table \<times> 'd close_batch \<Rightarrow>
   'd fd_table \<times> 'd close_batch" where
  "detach_one h P fd tb =
     (case tb of (t, b) \<Rightarrow>
      if slot_matches h P fd (ft_slots t ! fd)
      then (set_slot t fd Vacant,
            case into_visible_entry h (ft_slots t ! fd) of Inr e \<Rightarrow> batch_push e b | Inl _ \<Rightarrow> b)
      else (t, b))"

definition prepare_close_on_exec ::
  "(nat \<Rightarrow> bool) \<Rightarrow> 'd fd_table \<Rightarrow> fd_table_error + 'd close_batch" where
  "prepare_close_on_exec alloc_ok t = batch_try_with_capacity alloc_ok (capacity t)"

definition commit_close_on_exec ::
  "pub_heap \<Rightarrow> 'd fd_table \<Rightarrow> 'd close_batch \<Rightarrow> 'd fd_table \<times> 'd close_batch" where
  "commit_close_on_exec h t b =
     fold (detach_one h (\<lambda>_ e. flags_contains (de_flags e) CLOSE_ON_EXEC)) [0 ..< capacity t] (t, b)"

definition count_matching ::
  "pub_heap \<Rightarrow> 'd fd_table \<Rightarrow> (nat \<Rightarrow> 'd descriptor_entry \<Rightarrow> bool) \<Rightarrow> nat" where
  "count_matching h t P = length (filter (\<lambda>(fd, s). slot_matches h P fd s) (enumerate 0 (ft_slots t)))"

definition detach_matching ::
  "pub_heap \<Rightarrow> 'd fd_table \<Rightarrow> 'd close_batch \<Rightarrow> (nat \<Rightarrow> 'd descriptor_entry \<Rightarrow> bool) \<Rightarrow>
   ('d fd_table \<times> 'd close_batch, fd_table_error, unit) outcome" where
  "detach_matching h t b P =
     (if count_matching h t P > batch_remaining b then ((t, b), Inl InsufficientCloseStorage)
      else (fold (detach_one h P) [0 ..< capacity t] (t, b), Inr ()))"

definition close_range ::
  "pub_heap \<Rightarrow> 'd fd_table \<Rightarrow> fd_number \<Rightarrow> fd_number \<Rightarrow> 'd close_batch \<Rightarrow>
   ('d fd_table \<times> 'd close_batch, fd_table_error, unit) outcome" where
  "close_range h t first last_fd b =
     (if last_fd < first then ((t, b), Inl BadDescriptor)
      else detach_matching h t b (\<lambda>fd _. fd_index first \<le> fd \<and> fd \<le> fd_index last_fd))"

definition close_on_exec ::
  "pub_heap \<Rightarrow> 'd fd_table \<Rightarrow> 'd close_batch \<Rightarrow>
   ('d fd_table \<times> 'd close_batch, fd_table_error, unit) outcome" where
  "close_on_exec h t b =
     detach_matching h t b (\<lambda>_ e. flags_contains (de_flags e) CLOSE_ON_EXEC)"

definition close_all ::
  "pub_heap \<Rightarrow> 'd fd_table \<Rightarrow> 'd close_batch \<Rightarrow>
   ('d fd_table \<times> 'd close_batch, fd_table_error, unit) outcome" where
  "close_all h t b = detach_matching h t b (\<lambda>_ _. True)"

end
