(* ===== verification/Fd_Table_Safety.thy ===== *)
theory Fd_Table_Safety
  imports Fd_Table
begin

text \<open>
  The well-formedness invariant of the descriptor table, its preservation by every public
  operation, and the generation contract. Every operation is a sequence of a few kinds of
  slot update; the invariant and the laws of \<open>generation_domain\<close> are checked on those
  updates, and the operations inherit them.
\<close>

section \<open>Invariant\<close>

type_synonym 'd fd_state = "pub_heap \<times> 'd fd_table"

fun slot_generation :: "'d slot \<Rightarrow> nat option" where
  "slot_generation Vacant = None"
| "slot_generation (Reserved g f) = Some g"
| "slot_generation (Prepared g e a) = Some g"
| "slot_generation (Occupied g e) = Some g"

fun slot_address :: "'d slot \<Rightarrow> nat option" where
  "slot_address (Prepared g e a) = Some a"
| "slot_address _ = None"

definition fd_inv :: "'d fd_state \<Rightarrow> bool" where
  "fd_inv ht \<longleftrightarrow> (case ht of (h, t) \<Rightarrow>
     capacity t \<le> 2 ^ 32 \<and> ft_next_generation t \<le> u64_max \<and>
     keys_below slot_generation (ft_next_generation t) (ft_slots t) \<and>
     keys_below slot_address (length h) (ft_slots t) \<and>
     distinct_keys slot_generation (ft_slots t) \<and>
     distinct_keys slot_address (ft_slots t))"

definition slot_holds :: "'d fd_state \<Rightarrow> descriptor_token \<Rightarrow> bool" where
  "slot_holds ht k \<longleftrightarrow> (case ht of (h, t) \<Rightarrow>
     dt_table k = ft_id t \<and> fd_index (dt_fd k) < capacity t \<and>
     slot_generation (ft_slots t ! fd_index (dt_fd k)) = Some (dt_generation k))"

definition state_next_gen :: "'d fd_state \<Rightarrow> nat" where
  "state_next_gen ht = ft_next_generation (snd ht)"

lemma capacity_set_slot [simp]: "capacity (set_slot t i s) = capacity t"
  by (simp add: capacity_def set_slot_def)

lemma set_slot_fields [simp]:
  "ft_id (set_slot t i s) = ft_id t"
  "ft_next_generation (set_slot t i s) = ft_next_generation t"
  "ft_slots (set_slot t i s) = (ft_slots t)[i := s]"
  by (simp_all add: set_slot_def)

lemma set_slot_same: "i < capacity t \<Longrightarrow> s = ft_slots t ! i \<Longrightarrow> set_slot t i s = t"
  by (simp add: set_slot_def)

section \<open>Slot updates\<close>

inductive slot_step :: "'d fd_state \<Rightarrow> 'd fd_state \<Rightarrow> bool" where
  keep: "i < capacity t \<Longrightarrow>
     slot_generation s = None \<or> slot_generation s = slot_generation (ft_slots t ! i) \<Longrightarrow>
     slot_address s = None \<or> slot_address s = slot_address (ft_slots t ! i) \<Longrightarrow>
     slot_step (h, t) (h, set_slot t i s)"
| fresh: "i < capacity t \<Longrightarrow> slot_generation s = Some (ft_next_generation t) \<Longrightarrow>
     slot_address s = None \<Longrightarrow> Suc (ft_next_generation t) \<le> u64_max \<Longrightarrow>
     slot_step (h, t) (h, set_slot (t\<lparr>ft_next_generation := Suc (ft_next_generation t)\<rparr>) i s)"
| share: "i < capacity t \<Longrightarrow> slot_generation s = slot_generation (ft_slots t ! i) \<Longrightarrow>
     slot_address s = Some (length h) \<Longrightarrow> slot_step (h, t) (h @ [p], set_slot t i s)"
| phase: "length h' = length h \<Longrightarrow> slot_step (h, t) (h', t)"

lemma fd_inv_keep:
  assumes "fd_inv (h, t)" and "i < capacity t"
    and "slot_generation s = None \<or> slot_generation s = slot_generation (ft_slots t ! i)"
    and "slot_address s = None \<or> slot_address s = slot_address (ft_slots t ! i)"
  shows "fd_inv (h, set_slot t i s)"
  using assms by (auto simp: fd_inv_def capacity_def intro: slot_key_intros)

lemma fd_inv_fresh:
  assumes "fd_inv (h, t)" and "i < capacity t"
    and "slot_generation s = Some (ft_next_generation t)" and "slot_address s = None"
    and "Suc (ft_next_generation t) \<le> u64_max"
  shows "fd_inv (h, set_slot (t\<lparr>ft_next_generation := Suc (ft_next_generation t)\<rparr>) i s)"
proof -
  have "keys_below slot_generation (Suc (ft_next_generation t)) (ft_slots t)"
    using assms(1) by (auto simp: fd_inv_def elim: keys_below_mono)
  then have "keys_below slot_generation (Suc (ft_next_generation t)) ((ft_slots t)[i := s])"
    by (rule keys_below_update) (use assms(3) in simp)
  then show ?thesis
    using assms by (auto simp: fd_inv_def capacity_def intro: slot_key_intros)
qed

lemma fd_inv_share:
  assumes "fd_inv (h, t)" and "i < capacity t"
    and "slot_generation s = slot_generation (ft_slots t ! i)" and "slot_address s = Some (length h)"
  shows "fd_inv (h @ [p], set_slot t i s)"
proof -
  have "keys_below slot_address (Suc (length h)) (ft_slots t)"
    using assms(1) by (auto simp: fd_inv_def elim: keys_below_mono)
  then have "keys_below slot_address (Suc (length h)) ((ft_slots t)[i := s])"
    by (rule keys_below_update) (use assms(4) in simp)
  then show ?thesis
    using assms by (auto simp: fd_inv_def capacity_def intro: slot_key_intros)
qed

lemma fd_inv_slot_step: "slot_step s t \<Longrightarrow> fd_inv s \<Longrightarrow> fd_inv t"
proof (induction rule: slot_step.induct)
  case (phase h' h t)
  then show ?case by (auto simp: fd_inv_def)
qed (auto intro: fd_inv_keep fd_inv_fresh fd_inv_share)

lemma slot_holds_step:
  "slot_step s t \<Longrightarrow> slot_holds t k \<Longrightarrow> slot_holds s k \<or> state_next_gen s \<le> dt_generation k"
  by (induction rule: slot_step.induct)
    (auto simp: slot_holds_def state_next_gen_def nth_list_update capacity_def split: if_splits)

interpretation slots: generation_domain
  "fd_inv :: 'd fd_state \<Rightarrow> bool" slot_step slot_holds dt_generation state_next_gen
proof
  fix s t :: "'d fd_state" and k
  show "slot_step s t \<Longrightarrow> fd_inv s \<Longrightarrow> fd_inv t" by (rule fd_inv_slot_step)
  show "slot_holds s k \<Longrightarrow> fd_inv s \<Longrightarrow> dt_generation k < state_next_gen s"
    by (auto simp: slot_holds_def fd_inv_def state_next_gen_def capacity_def dest: keys_below_nth)
  show "slot_step s t \<Longrightarrow> state_next_gen s \<le> state_next_gen t"
    by (auto simp: state_next_gen_def elim: slot_step.cases)
  show "slot_step s t \<Longrightarrow> slot_holds t k \<Longrightarrow> slot_holds s k \<or> state_next_gen s \<le> dt_generation k"
    by (rule slot_holds_step)
qed

section \<open>The public operations\<close>

inductive fd_step :: "('d \<Rightarrow> 'd) \<Rightarrow> 'd fd_state \<Rightarrow> 'd fd_state \<Rightarrow> bool" for cl where
  "fd_step cl (h, t) (h, fst (reserve t lo hi f))"
| "fd_step cl (h, t) (h, fst (cancel_reservation t r))"
| "fd_step cl (h, t) (h, fst (publish t r d))"
| "fd_step cl (h, t) (fst (prepare_publication (h, t) r d))"
| "fd_step cl (h, t) (fst (publication_commit h p), t)"
| "fd_step cl (h, t) (publication_drop h p, t)"
| "fd_step cl (h, t) (fst (cancel_prepared (h, t) p))"
| "fd_step cl (h, t) (h, fst (fd_get_mut h t fd upd))"
| "fd_step cl (h, t) (h, fst (fd_close h t fd))"
| "fd_step cl (h, t) (h, fst (close_token h t k))"
| "fd_step cl (h, t) (h, fst (set_close_on_exec h t fd b))"
| "fd_step cl (h, t) (h, mark_close_on_exec_range h t first last_fd)"
| "fd_step cl (h, t) (h, fst (duplicate cl h t src lo hi f))"
| "fd_step cl (h, t) (h, fst (duplicate_replace cl h t src tgt f))"
| "fd_step cl (h, t) (h, fst (commit_close_on_exec h t batch))"
| "fd_step cl (h, t) (h, fst (fst (close_range h t first last_fd batch)))"
| "fd_step cl (h, t) (h, fst (fst (close_on_exec h t batch)))"
| "fd_step cl (h, t) (h, fst (fst (close_all h t batch)))"

lemmas slot_steps_intros = r_into_rtranclp [where r = slot_step, OF slot_step.keep]
  r_into_rtranclp [where r = slot_step, OF slot_step.fresh]
  r_into_rtranclp [where r = slot_step, OF slot_step.share]
  r_into_rtranclp [where r = slot_step, OF slot_step.phase]

lemma allocate_generation_Inr_iff:
  "allocate_generation t = (t', Inr g) \<longleftrightarrow>
     g = ft_next_generation t \<and> Suc g \<le> u64_max \<and> t' = t\<lparr>ft_next_generation := Suc g\<rparr>"
  by (auto simp: allocate_generation_def checked_iffs split: option.splits)

lemma allocate_generation_Inl_iff:
  "allocate_generation t = (t', Inl e) \<longleftrightarrow>
     e = GenerationExhausted \<and> u64_max < Suc (ft_next_generation t) \<and> t' = t"
  by (auto simp: allocate_generation_def checked_iffs split: option.splits)

lemmas allocate_generation_iffs = allocate_generation_Inr_iff allocate_generation_Inl_iff

lemma validate_reservation_Inr_iff:
  "validate_reservation t r = Inr i \<longleftrightarrow>
     rt_table r = ft_id t \<and> i = fd_index (rt_fd r) \<and> i < capacity t \<and>
     (\<exists>f. ft_slots t ! i = Reserved (rt_generation r) f)"
  by (auto simp: validate_reservation_def split: slot.splits if_splits)

lemma validate_reservation_Inl: "validate_reservation t r = Inl e \<Longrightarrow> e = StaleToken"
  by (auto simp: validate_reservation_def split: slot.splits if_splits)

lemma find_bounded_range:
  assumes "find P (bounded_range t lo hi) = Some i"
  shows "i < capacity t" and "lo \<le> i" and "i < hi" and "P i"
    and "\<And>j. lo \<le> j \<Longrightarrow> j < i \<Longrightarrow> \<not> P j"
proof -
  obtain n where n: "n < length (bounded_range t lo hi)" "P i" "i = bounded_range t lo hi ! n"
    "\<And>m. m < n \<Longrightarrow> \<not> P (bounded_range t lo hi ! m)"
    using assms by (auto simp: find_Some_iff)
  from n(1) have "min lo (capacity t) + n < min hi (capacity t)"
    unfolding bounded_range_def length_upt by linarith
  moreover from this have "bounded_range t lo hi ! n = min lo (capacity t) + n"
    unfolding bounded_range_def by (rule nth_upt)
  ultimately have i: "i = min lo (capacity t) + n" "i < min hi (capacity t)"
    using n(3) by simp_all
  then show "i < capacity t" "lo \<le> i" "i < hi" "P i" using n by auto
  fix j assume j: "lo \<le> j" "j < i"
  have "bounded_range t lo hi ! (j - lo) = min lo (capacity t) + (j - lo)"
    unfolding bounded_range_def by (rule nth_upt) (use i j in linarith)
  then show "\<not> P j" using n(4) [of "j - lo"] i j by auto
qed

lemma reserve_Inr_iff:
  "reserve t lo hi f = (t', Inr r) \<longleftrightarrow>
     (\<exists>i. find (\<lambda>i. is_Vacant (ft_slots t ! i)) (bounded_range t lo hi) = Some i \<and>
        Suc (ft_next_generation t) \<le> u64_max \<and>
        t' = set_slot (t\<lparr>ft_next_generation := Suc (ft_next_generation t)\<rparr>) i
               (Reserved (ft_next_generation t) f) \<and>
        r = \<lparr>rt_table = ft_id t, rt_fd = of_nat i, rt_generation = ft_next_generation t\<rparr>)"
  by (auto simp: reserve_def allocate_generation_iffs split: option.splits prod.splits sum.splits)

lemma reserve_Inl_unchanged: "reserve t lo hi f = (t', Inl e) \<Longrightarrow> t' = t"
  by (auto simp: reserve_def allocate_generation_iffs split: option.splits prod.splits sum.splits)

lemma reserve_steps: "slot_step\<^sup>*\<^sup>* (h, t) (h, fst (reserve t lo hi f))"
proof (cases "reserve t lo hi f")
  case (Pair t' res)
  show ?thesis
  proof (cases res)
    case (Inl e)
    with Pair show ?thesis by (auto dest: reserve_Inl_unchanged)
  next
    case (Inr r)
    with Pair obtain i where "i < capacity t" "Suc (ft_next_generation t) \<le> u64_max"
      and "t' = set_slot (t\<lparr>ft_next_generation := Suc (ft_next_generation t)\<rparr>) i
             (Reserved (ft_next_generation t) f)"
      by (auto simp: reserve_Inr_iff dest: find_bounded_range(1))
    with Pair show ?thesis by (auto intro!: slot_steps_intros)
  qed
qed

lemma cancel_reservation_steps: "slot_step\<^sup>*\<^sup>* (h, t) (h, fst (cancel_reservation t r))"
  by (auto simp: cancel_reservation_def validate_reservation_Inr_iff split: sum.splits
      intro!: slot_steps_intros)

lemma publish_steps: "slot_step\<^sup>*\<^sup>* (h, t) (h, fst (publish t r d))"
  by (auto simp: publish_def validate_reservation_Inr_iff split: sum.splits slot.splits
      intro!: slot_steps_intros)

lemma prepare_publication_steps: "slot_step\<^sup>*\<^sup>* (h, t) (fst (prepare_publication (h, t) r d))"
  by (auto simp: prepare_publication_def validate_reservation_Inr_iff split: sum.splits slot.splits
      intro!: slot_steps_intros)

lemma publication_phase_steps:
  "slot_step\<^sup>*\<^sup>* (h, t) (fst (publication_commit h p), t)"
  "slot_step\<^sup>*\<^sup>* (h, t) (publication_drop h p, t)"
  by (auto simp: publication_commit_def publication_drop_def intro!: slot_steps_intros)

lemma cancel_prepared_steps: "slot_step\<^sup>*\<^sup>* (h, t) (fst (cancel_prepared (h, t) p))"
proof (cases "snd (cancel_prepared (h, t) p)")
  case (Inl a)
  then show ?thesis
    by (auto simp: cancel_prepared_def Let_def split: slot.splits if_splits)
next
  case (Inr e)
  then have i: "fd_index (pp_fd p) < capacity t"
    and f: "fst (cancel_prepared (h, t) p) =
      (h[pp_state p := PUBLICATION_ABORTED], set_slot t (fd_index (pp_fd p)) Vacant)"
    by (auto simp: cancel_prepared_def Let_def split: slot.splits if_splits)
  have "slot_step (h, t) (h[pp_state p := PUBLICATION_ABORTED], t)"
    by (rule slot_step.phase) simp
  moreover have "slot_step (h[pp_state p := PUBLICATION_ABORTED], t)
      (h[pp_state p := PUBLICATION_ABORTED], set_slot t (fd_index (pp_fd p)) Vacant)"
    using i by (intro slot_step.keep) auto
  ultimately show ?thesis unfolding f by (meson converse_rtranclp_into_rtranclp rtranclp.rtrancl_refl)
qed

lemma visible_entry_mut_keys:
  "visible_entry_mut h s f = Some s' \<Longrightarrow>
     slot_generation s' = slot_generation s \<and> slot_address s' = slot_address s"
  by (cases s) (auto split: if_splits)

lemma fd_get_mut_steps: "slot_step\<^sup>*\<^sup>* (h, t) (h, fst (fd_get_mut h t fd upd))"
  by (auto simp: fd_get_mut_def vec_get_iffs capacity_def bind_eq_Some_conv split: option.splits
      dest: visible_entry_mut_keys intro!: slot_steps_intros)

lemma into_visible_entry_Inl_iff:
  "into_visible_entry h s = Inl s' \<longleftrightarrow> visible_entry h s = None \<and> s' = s"
  by (cases s) auto

lemma into_visible_entry_Inr_iff: "into_visible_entry h s = Inr e \<longleftrightarrow> visible_entry h s = Some e"
  by (cases s) auto

lemma fd_close_steps: "slot_step\<^sup>*\<^sup>* (h, t) (h, fst (fd_close h t fd))"
  by (auto simp: fd_close_def vec_get_iffs capacity_def split: option.splits sum.splits
      simp: into_visible_entry_Inl_iff intro!: slot_steps_intros)

lemma close_token_steps: "slot_step\<^sup>*\<^sup>* (h, t) (h, fst (close_token h t k))"
  by (auto simp: close_token_def fd_close_steps split: sum.splits)

lemma mark_one_steps: "i < capacity t \<Longrightarrow> slot_step\<^sup>*\<^sup>* (h, t) (h, mark_one h i t)"
  by (auto simp: mark_one_def split: option.splits dest: visible_entry_mut_keys
      intro!: slot_steps_intros)

lemma capacity_mark_one [simp]: "capacity (mark_one h i t) = capacity t"
  by (auto simp: mark_one_def split: option.splits)

lemma mark_fold_steps:
  "\<forall>i \<in> set is. i < capacity t \<Longrightarrow> slot_step\<^sup>*\<^sup>* (h, t) (h, fold (mark_one h) is t)"
proof (induction "is" arbitrary: t)
  case Nil
  then show ?case by simp
next
  case (Cons i "is")
  then have "slot_step\<^sup>*\<^sup>* (h, mark_one h i t) (h, fold (mark_one h) is (mark_one h i t))" by simp
  with Cons.prems mark_one_steps [of i t h] show ?case by (simp add: rtranclp_trans)
qed

lemma mark_range_steps: "slot_step\<^sup>*\<^sup>* (h, t) (h, mark_close_on_exec_range h t first last_fd)"
  by (auto simp: mark_close_on_exec_range_def simp del: upt_Suc intro!: mark_fold_steps)

lemma duplicate_steps: "slot_step\<^sup>*\<^sup>* (h, t) (h, fst (duplicate cl h t src lo hi f))"
proof -
  have "slot_step\<^sup>*\<^sup>* (h, t) (h, fst (publish (fst (reserve t lo hi f)) r d))" for r d
    by (rule rtranclp_trans [OF reserve_steps publish_steps])
  then show ?thesis
    using reserve_steps [of h t lo hi f]
    by (auto simp: duplicate_def split: sum.splits prod.splits) (metis fst_conv)+
qed

lemma duplicate_replace_steps: "slot_step\<^sup>*\<^sup>* (h, t) (h, fst (duplicate_replace cl h t src tgt f))"
proof -
  have "into_visible_entry h s = Inl s' \<Longrightarrow> \<not> blocks_replacement h s \<Longrightarrow> s' = Vacant" for s s' :: "'d slot"
    by (cases s) (auto split: if_splits)
  then show ?thesis
    by (auto simp: duplicate_replace_def Let_def allocate_generation_iffs
        split: sum.splits prod.splits slot.splits intro!: slot_steps_intros)
qed

lemma capacity_detach_one [simp]: "capacity (fst (detach_one h P i tb)) = capacity (fst tb)"
  by (auto simp: detach_one_def split: prod.splits)

lemma detach_one_steps:
  "i < capacity (fst tb) \<Longrightarrow> slot_step\<^sup>*\<^sup>* (h, fst tb) (h, fst (detach_one h P i tb))"
  by (auto simp: detach_one_def split: prod.splits intro!: slot_steps_intros)

lemma detach_fold_steps:
  "\<forall>i \<in> set is. i < capacity (fst tb) \<Longrightarrow>
     slot_step\<^sup>*\<^sup>* (h, fst tb) (h, fst (fold (detach_one h P) is tb))"
proof (induction "is" arbitrary: tb)
  case Nil
  then show ?case by simp
next
  case (Cons i "is")
  then have "slot_step\<^sup>*\<^sup>* (h, fst (detach_one h P i tb))
      (h, fst (fold (detach_one h P) is (detach_one h P i tb)))" by simp
  with Cons.prems detach_one_steps [of i tb h P] show ?case by (simp add: rtranclp_trans)
qed

lemma detach_matching_steps: "slot_step\<^sup>*\<^sup>* (h, t) (h, fst (fst (detach_matching h t b P)))"
  using detach_fold_steps [of "[0..<capacity t]" "(t, b)" h P] by (auto simp: detach_matching_def)

lemma close_transaction_steps:
  "slot_step\<^sup>*\<^sup>* (h, t) (h, fst (commit_close_on_exec h t b))"
  "slot_step\<^sup>*\<^sup>* (h, t) (h, fst (fst (close_range h t first last_fd b)))"
  "slot_step\<^sup>*\<^sup>* (h, t) (h, fst (fst (close_on_exec h t b)))"
  "slot_step\<^sup>*\<^sup>* (h, t) (h, fst (fst (close_all h t b)))"
  using detach_fold_steps [of "[0..<capacity t]" "(t, b)" h]
  by (auto simp: commit_close_on_exec_def close_range_def close_on_exec_def close_all_def
      detach_matching_steps)

lemma fd_step_slot_steps: "fd_step cl s t \<Longrightarrow> slot_step\<^sup>*\<^sup>* s t"
  by (induction rule: fd_step.induct)
    (auto simp only: set_close_on_exec_def intro: reserve_steps cancel_reservation_steps
      publish_steps prepare_publication_steps publication_phase_steps cancel_prepared_steps
      fd_get_mut_steps fd_close_steps close_token_steps mark_range_steps duplicate_steps
      duplicate_replace_steps close_transaction_steps)

lemma fd_steps_slot_steps: "(fd_step cl)\<^sup>*\<^sup>* s t \<Longrightarrow> slot_step\<^sup>*\<^sup>* s t"
  by (induction rule: rtranclp_induct) (auto dest: fd_step_slot_steps)

end
