(* ===== verification/Fd_Table_Props.thy ===== *)
theory Fd_Table_Props
  imports Fd_Table_Safety
begin

text \<open>
  What the descriptor table promises its callers: descriptors are handed out lowest first
  and stay invisible until published, publication changes exactly one descriptor, a closed
  descriptor's token is never accepted again, the range and exec transactions detach
  exactly the selected descriptors or nothing, and duplication and fork share descriptions.
\<close>

section \<open>Lookup lemmas\<close>

lemma fd_lookup_Some_iff:
  "fd_lookup h t i = Some e \<longleftrightarrow> i < capacity t \<and> visible_entry h (ft_slots t ! i) = Some e"
  by (auto simp: fd_lookup_def vec_get_def capacity_def)

lemma fd_lookup_in: "i < capacity t \<Longrightarrow> fd_lookup h t i = visible_entry h (ft_slots t ! i)"
  by (simp add: fd_lookup_def vec_get_def capacity_def)

lemma fd_lookup_out: "capacity t \<le> i \<Longrightarrow> fd_lookup h t i = None"
  by (simp add: fd_lookup_def vec_get_def capacity_def)

lemma fd_lookup_set_slot:
  "fd_lookup h (set_slot t i s) j =
     (if j = i \<and> i < capacity t then visible_entry h s else fd_lookup h t j)"
  by (auto simp: fd_lookup_def vec_get_update capacity_def)

lemma fd_lookup_next_gen [simp]: "fd_lookup h (t\<lparr>ft_next_generation := n\<rparr>) = fd_lookup h t"
  by (simp add: fd_lookup_def fun_eq_iff)

lemma capacity_next_gen [simp]: "capacity (t\<lparr>ft_next_generation := n\<rparr>) = capacity t"
  by (simp add: capacity_def)

lemma is_Vacant_lookup: "is_Vacant s \<Longrightarrow> visible_entry h s = None"
  by (cases s) auto

lemma visible_generation_slot: "visible_generation h s = Some g \<Longrightarrow> slot_generation s = Some g"
  by (cases s) (auto split: if_splits)

lemma visible_entry_generation:
  "visible_entry h s = Some e \<Longrightarrow> visible_generation h s = slot_generation s"
  by (cases s) (auto split: if_splits)

lemma get_token_Inr_holds: "get_token h t k = Inr e \<Longrightarrow> slot_holds (h, t) k"
  by (auto simp: get_token_def Let_def slot_holds_def split: if_splits dest: visible_generation_slot)

lemma get_token_Inl: "get_token h t k = Inl e \<Longrightarrow> e = StaleToken"
  by (auto simp: get_token_def Let_def split: if_splits)

lemma fd_inv_capacity: "fd_inv (h, t) \<Longrightarrow> capacity t \<le> 2 ^ 32"
  by (simp add: fd_inv_def)

lemma fd_close_Inr_iff:
  "fd_close h t fd = (t', Inr e) \<longleftrightarrow>
     fd_lookup h t (fd_index fd) = Some e \<and> t' = set_slot t (fd_index fd) Vacant"
  by (auto simp: fd_close_def fd_lookup_def into_visible_entry_Inr_iff into_visible_entry_Inl_iff
      vec_get_def split: option.splits sum.splits if_splits)

lemma fd_close_Inl_unchanged: "fd_close h t fd = (t', Inl e) \<Longrightarrow> t' = t"
  by (auto simp: fd_close_def vec_get_iffs capacity_def into_visible_entry_Inl_iff
      split: option.splits sum.splits intro: set_slot_same)

lemma fd_inv_try_new: "fd_try_new alloc_ok n i = Inr t \<Longrightarrow> fd_inv (h, t)"
  by (auto simp: fd_try_new_def fd_inv_def capacity_def u32_max_def u64_max_def split: if_splits)

lemma fd_token_Inr:
  assumes "fd_token h t fd = Inr k"
  shows "dt_fd k = fd" and "dt_table k = ft_id t" and "fd_index fd < capacity t"
    and "visible_generation h (ft_slots t ! fd_index fd) = Some (dt_generation k)"
  using assms by (auto simp: fd_token_def vec_get_iffs capacity_def bind_eq_Some_conv split: option.splits)

lemma fd_token_issued:
  "fd_inv (h, t) \<Longrightarrow> fd_token h t fd = Inr k \<Longrightarrow> dt_generation k < ft_next_generation t"
  using fd_token_Inr(3,4) [of h t fd k]
  by (auto simp: fd_inv_def capacity_def dest: visible_generation_slot keys_below_nth)

text \<open>A token whose generation was issued and is no longer held is refused after any operations.\<close>

lemma unheld_token_stale:
  assumes "fd_inv (h, t)" and "\<not> slot_holds (h, t) k" and "dt_generation k < ft_next_generation t"
    and "(fd_step cl)\<^sup>*\<^sup>* (h, t) (h2, t2)"
  shows "get_token h2 t2 k = Inl StaleToken"
proof -
  have "\<not> slot_holds (h2, t2) k"
    using slots.stale_forever [OF fd_steps_slot_steps [OF assms(4)] assms(1,2)] assms(3)
    by (simp add: state_next_gen_def)
  then show ?thesis by (metis get_token_Inl get_token_Inr_holds sum.exhaust)
qed

section \<open>The detaching loop\<close>

lemma enumerate_map_nth: "enumerate 0 xs = map (\<lambda>i. (i, xs ! i)) [0..<length xs]"
  by (rule nth_equalityI) (auto simp: nth_enumerate_eq)

lemma map_filter_map: "List.map_filter f (map g xs) = List.map_filter (\<lambda>x. f (g x)) xs"
  by (induction xs) (auto simp: List.map_filter_def)

lemma map_filter_append: "List.map_filter f (xs @ ys) = List.map_filter f xs @ List.map_filter f ys"
  by (simp add: List.map_filter_def)

lemma map_filter_cong:
  "(\<And>x. x \<in> set xs \<Longrightarrow> f x = g x) \<Longrightarrow> List.map_filter f xs = List.map_filter g xs"
  by (induction xs) (auto simp: List.map_filter_def)

lemma filter_map_filter:
  "map snd (filter Q (List.map_filter f xs)) =
   List.map_filter (\<lambda>x. case f x of None \<Rightarrow> None | Some y \<Rightarrow> if Q y then Some (snd y) else None) xs"
  by (induction xs) (auto simp: List.map_filter_def split: option.splits)

lemma length_map_filter: "length (List.map_filter f xs) = length (filter (\<lambda>x. f x \<noteq> None) xs)"
  by (simp add: List.map_filter_def)

definition detached ::
  "pub_heap \<Rightarrow> (nat \<Rightarrow> 'd descriptor_entry \<Rightarrow> bool) \<Rightarrow> 'd fd_table \<Rightarrow> nat \<Rightarrow> 'd descriptor_entry list" where
  "detached h P t n =
     List.map_filter (\<lambda>i. if slot_matches h P i (ft_slots t ! i) then visible_entry h (ft_slots t ! i)
       else None) [0..<n]"

definition vacated ::
  "pub_heap \<Rightarrow> (nat \<Rightarrow> 'd descriptor_entry \<Rightarrow> bool) \<Rightarrow> 'd fd_table \<Rightarrow> nat \<Rightarrow> 'd slot list" where
  "vacated h P t n =
     map (\<lambda>i. if i < n \<and> slot_matches h P i (ft_slots t ! i) then Vacant else ft_slots t ! i)
       [0..<capacity t]"

lemma vacated_0: "vacated h P t 0 = ft_slots t"
  by (simp add: vacated_def capacity_def map_nth)

lemma vacated_Suc:
  "n < capacity t \<Longrightarrow> vacated h P t (Suc n) =
     (if slot_matches h P n (ft_slots t ! n) then (vacated h P t n)[n := Vacant] else vacated h P t n)"
  by (rule nth_equalityI) (auto simp: vacated_def nth_list_update less_Suc_eq)

lemma slot_matches_visible: "slot_matches h P i s \<Longrightarrow> \<exists>e. visible_entry h s = Some e \<and> P i e"
  by (auto simp: slot_matches_def split: option.splits)

lemma detach_fold:
  "n \<le> capacity t \<Longrightarrow> fold (detach_one h P) [0..<n] (t, b) =
     (t\<lparr>ft_slots := vacated h P t n\<rparr>, b\<lparr>cb_entries := cb_entries b @ detached h P t n\<rparr>)"
proof (induction n)
  case 0
  then show ?case by (simp add: vacated_0 detached_def List.map_filter_def)
next
  case (Suc n)
  then have n: "n < capacity t" by simp
  then have s: "vacated h P t n ! n = ft_slots t ! n" by (simp add: vacated_def)
  show ?case
  proof (cases "slot_matches h P n (ft_slots t ! n)")
    case True
    then obtain e where e: "visible_entry h (ft_slots t ! n) = Some e"
      using slot_matches_visible by blast
    then have "into_visible_entry h (ft_slots t ! n) = Inr e" by (simp add: into_visible_entry_Inr_iff)
    moreover have "detached h P t (Suc n) = detached h P t n @ [e]"
      using True e by (simp add: detached_def map_filter_append List.map_filter_def)
    ultimately show ?thesis
      using Suc n s True by (simp add: detach_one_def vacated_Suc set_slot_def batch_push_def)
  next
    case False
    then have "detached h P t (Suc n) = detached h P t n"
      by (simp add: detached_def map_filter_append List.map_filter_def)
    then show ?thesis
      using Suc n s False by (simp add: detach_one_def vacated_Suc)
  qed
qed

lemma count_matching_detached: "count_matching h t P = length (detached h P t (capacity t))"
  by (auto simp: count_matching_def detached_def length_map_filter enumerate_map_nth filter_map
      capacity_def o_def slot_matches_def intro!: arg_cong [where f = length] filter_cong
      split: option.splits)

lemma fd_iter_conv:
  assumes "capacity t \<le> 2 ^ 32"
  shows "fd_iter h t =
    List.map_filter (\<lambda>i. map_option (\<lambda>e. (of_nat i, e)) (fd_lookup h t i)) [0..<capacity t]"
  unfolding fd_iter_def enumerate_map_nth map_filter_map capacity_def [symmetric]
  using assms by (auto simp: fd_lookup_in u32_max_def intro!: map_filter_cong split: option.splits)

text \<open>The detached entries are the iterated descriptors that satisfy the predicate, in order.\<close>

lemma detached_iter:
  assumes "capacity t \<le> 2 ^ 32"
  shows "detached h P t (capacity t) = map snd (filter (\<lambda>(fd, e). P (fd_index fd) e) (fd_iter h t))"
  unfolding fd_iter_conv [OF assms] filter_map_filter detached_def
  using assms
  by (intro map_filter_cong)
    (auto simp: fd_lookup_in slot_matches_def fd_index_of_nat split: option.splits)

lemma vacated_lookup:
  "fd_lookup h (t\<lparr>ft_slots := vacated h P t (capacity t)\<rparr>) i =
     (case fd_lookup h t i of None \<Rightarrow> None | Some e \<Rightarrow> if P i e then None else Some e)"
  by (auto simp: fd_lookup_def vec_get_def vacated_def capacity_def slot_matches_def
      split: option.splits)

lemma detach_matching_cases:
  assumes "detach_matching h t b P = ((t', b'), res)"
  shows "(case res of
      Inl e \<Rightarrow> e = InsufficientCloseStorage \<and> t' = t \<and> b' = b \<and>
        batch_remaining b < length (detached h P t (capacity t))
    | Inr _ \<Rightarrow> t' = t\<lparr>ft_slots := vacated h P t (capacity t)\<rparr> \<and>
        b' = b\<lparr>cb_entries := cb_entries b @ detached h P t (capacity t)\<rparr> \<and>
        length (detached h P t (capacity t)) \<le> batch_remaining b)"
  using assms by (auto simp: detach_matching_def count_matching_detached detach_fold split: if_splits)

section \<open>Publication cells\<close>

lemma visible_entry_append:
  "slot_address s = None \<or> (\<exists>a. slot_address s = Some a \<and> a < length h) \<Longrightarrow>
     visible_entry (h @ [p]) s = visible_entry h s"
  by (cases s) (auto simp: phase_visible_def vec_get_def nth_append)

lemma visible_entry_other_cell:
  "slot_address s \<noteq> Some a \<Longrightarrow> visible_entry (h[a := p]) s = visible_entry h s"
  by (cases s) (auto simp: phase_visible_def vec_get_update)

lemma fd_lookup_append:
  assumes "fd_inv (h, t)"
  shows "fd_lookup (h @ [p]) t i = fd_lookup h t i"
proof (cases "i < capacity t")
  case True
  then have "slot_address (ft_slots t ! i) = Some a \<Longrightarrow> a < length h" for a
    using assms by (auto simp: fd_inv_def capacity_def dest: keys_below_nth)
  then show ?thesis
    using True by (cases "slot_address (ft_slots t ! i)") (auto simp: fd_lookup_in visible_entry_append)
qed (simp add: fd_lookup_out)

lemma fd_lookup_other_cell:
  assumes "\<And>i. i < capacity t \<Longrightarrow> slot_address (ft_slots t ! i) \<noteq> Some a"
  shows "fd_lookup (h[a := p]) t i = fd_lookup h t i"
  using assms by (cases "i < capacity t") (auto simp: fd_lookup_in fd_lookup_out visible_entry_other_cell)

lemma prepare_publication_Inr:
  assumes "prepare_publication (h, t) r d = ((h1, t1), Inr p)"
  obtains flags where "fd_index (rt_fd r) < capacity t" and "rt_table r = ft_id t"
    and "ft_slots t ! fd_index (rt_fd r) = Reserved (rt_generation r) flags"
    and "h1 = h @ [PUBLICATION_PENDING]"
    and "t1 = set_slot t (fd_index (rt_fd r)) (Prepared (rt_generation r)
           \<lparr>de_description = d, de_flags = flags\<rparr> (length h))"
    and "p = \<lparr>pp_table = ft_id t, pp_fd = rt_fd r, pp_generation = rt_generation r,
               pp_state = length h, pp_active = True\<rparr>"
  using assms
  by (auto simp: prepare_publication_def validate_reservation_Inr_iff split: sum.splits)

section \<open>The fork loop\<close>

definition clone_entry :: "('d \<Rightarrow> 'd) \<Rightarrow> 'd descriptor_entry \<Rightarrow> 'd descriptor_entry" where
  "clone_entry cl e = e\<lparr>de_description := cl (de_description e)\<rparr>"

definition no_pending :: "'d slot \<Rightarrow> bool" where
  "no_pending s \<longleftrightarrow> (case s of Vacant \<Rightarrow> True | Occupied g e \<Rightarrow> True | _ \<Rightarrow> False)"

lemma fork_loop_total:
  assumes "ft_next_generation c + length ss \<le> u64_max" and "fd + length ss \<le> capacity c"
    and "\<And>j. fd \<le> j \<Longrightarrow> j < capacity c \<Longrightarrow> ft_slots c ! j = Vacant"
    and "fd_inv (h', c)" and "list_all no_pending (ft_slots c)"
  shows "\<exists>c'. fork_loop cl h fd ss c = Inr c' \<and> ft_id c' = ft_id c \<and> capacity c' = capacity c \<and>
    fd_inv (h', c') \<and> list_all no_pending (ft_slots c') \<and>
    (\<forall>j. fd_lookup h' c' j =
      (if fd \<le> j \<and> j < fd + length ss then map_option (clone_entry cl) (visible_entry h (ss ! (j - fd)))
       else fd_lookup h' c j))"
  using assms
proof (induction ss arbitrary: fd c)
  case Nil
  then show ?case by (auto simp: not_less [symmetric])
next
  case (Cons s ss)
  have lk: "fd_lookup h' c fd = None"
    using Cons.prems(2,3) by (simp add: fd_lookup_in)
  show ?case
  proof (cases "visible_entry h s")
    case None
    obtain c' where c': "fork_loop cl h (Suc fd) ss c = Inr c'" "ft_id c' = ft_id c"
      "capacity c' = capacity c" "fd_inv (h', c')" "list_all no_pending (ft_slots c')"
      "\<And>j. fd_lookup h' c' j =
        (if Suc fd \<le> j \<and> j < Suc fd + length ss
         then map_option (clone_entry cl) (visible_entry h (ss ! (j - Suc fd))) else fd_lookup h' c j)"
      using Cons.IH [of c "Suc fd"] Cons.prems by auto
    have "fd_lookup h' c' j =
      (if fd \<le> j \<and> j < fd + length (s # ss)
       then map_option (clone_entry cl) (visible_entry h ((s # ss) ! (j - fd))) else fd_lookup h' c j)" for j
      using None lk c'(6) [of j] by (cases "j = fd") (auto simp: nth_Cons')
    then show ?thesis using c' None by simp
  next
    case (Some e)
    let ?g = "ft_next_generation c"
    let ?c = "set_slot (c\<lparr>ft_next_generation := Suc ?g\<rparr>) fd (Occupied ?g (clone_entry cl e))"
    have g: "allocate_generation c = (c\<lparr>ft_next_generation := Suc ?g\<rparr>, Inr ?g)"
      using Cons.prems(1) by (simp add: allocate_generation_Inr_iff)
    have "fd_inv (h', ?c)"
      using Cons.prems by (intro fd_inv_fresh) auto
    moreover have "list_all no_pending (ft_slots ?c)"
      using Cons.prems(5) by (auto simp: list_all_iff no_pending_def dest!: set_list_update_cases)
    moreover have "Suc fd \<le> j \<Longrightarrow> j < capacity ?c \<Longrightarrow> ft_slots ?c ! j = Vacant" for j
      using Cons.prems(3) [of j] by simp
    ultimately obtain c' where c': "fork_loop cl h (Suc fd) ss ?c = Inr c'" "ft_id c' = ft_id c"
      "capacity c' = capacity c" "fd_inv (h', c')" "list_all no_pending (ft_slots c')"
      "\<And>j. fd_lookup h' c' j =
        (if Suc fd \<le> j \<and> j < Suc fd + length ss
         then map_option (clone_entry cl) (visible_entry h (ss ! (j - Suc fd))) else fd_lookup h' ?c j)"
      using Cons.IH [of ?c "Suc fd"] Cons.prems(1,2) by auto
    have "fd_lookup h' c' j =
      (if fd \<le> j \<and> j < fd + length (s # ss)
       then map_option (clone_entry cl) (visible_entry h ((s # ss) ! (j - fd))) else fd_lookup h' c j)" for j
      using Some c'(6) [of j] Cons.prems(2)
      by (cases "j = fd") (auto simp: nth_Cons' fd_lookup_set_slot)
    then show ?thesis using c' Some g by (simp add: clone_entry_def)
  qed
qed

section \<open>Properties\<close>

text \<open>
  C1. Every table reached from a freshly constructed one by any sequence of public
  operations, and any commits and drops of publication tokens, satisfies the table
  invariant: at most \<open>2 ^ 32\<close> slots, every generation in use was issued before and below
  the counter, no two slots hold the same generation, and no two prepared slots share a
  publication cell.
\<close>

theorem fd_reachable_inv:
  assumes "fd_try_new alloc_ok n i = Inr t0" and "(fd_step cl)\<^sup>*\<^sup>* (h0, t0) (h, t)"
  shows "fd_inv (h, t)"
  using slots.inv_steps [OF fd_steps_slot_steps [OF assms(2)]] fd_inv_try_new [OF assms(1)]
  by blast

theorem fd_reachable_inv_witness:
  "fd_inv ([], fst (reserve \<lparr>ft_id = 7, ft_next_generation = 1,
     ft_slots = replicate 4 (Vacant :: nat slot)\<rparr> 1 3 0))"
proof -
  have "fd_try_new (\<lambda>_. True) 4 7 = Inr \<lparr>ft_id = 7, ft_next_generation = 1,
      ft_slots = replicate 4 (Vacant :: nat slot)\<rparr>"
    by (simp add: fd_try_new_def int_max_numerals)
  from fd_reachable_inv [OF this, of id "[]" "[]"] show ?thesis
    by (meson fd_step.intros(1) r_into_rtranclp)
qed

text \<open>
  C2. Use after close is rejected for ever. If \<open>k\<close> is the token of a visible descriptor and
  that descriptor is closed, then after any further sequence of operations (reservations,
  publications and duplications that reuse the number included) looking \<open>k\<close> up reports
  \<open>StaleToken\<close>, and so does closing through it.
\<close>

theorem closed_token_stale_forever:
  assumes "fd_inv (h, t)" and "fd_token h t fd = Inr k" and "fd_close h t fd = (t', Inr e)"
    and "(fd_step cl)\<^sup>*\<^sup>* (h, t') (h2, t2)"
  shows "get_token h2 t2 k = Inl StaleToken \<and> close_token h2 t2 k = (t2, Inl StaleToken)"
proof -
  note k = fd_token_Inr [OF assms(2)]
  have t': "t' = set_slot t (fd_index fd) Vacant" using assms(3) by (simp add: fd_close_Inr_iff)
  have "\<not> slot_holds (h, t') k" and "dt_generation k < ft_next_generation t'"
    using k fd_token_issued [OF assms(1,2)] by (auto simp: slot_holds_def t' capacity_def)
  moreover have "fd_inv (h, t')"
    unfolding t' using assms(1) k(3) by (auto intro: fd_inv_keep)
  ultimately have "get_token h2 t2 k = Inl StaleToken"
    using unheld_token_stale [OF _ _ _ assms(4)] by blast
  then show ?thesis by (simp add: close_token_def)
qed

theorem closed_token_stale_forever_witness:
  "let t = \<lparr>ft_id = 7, ft_next_generation = 2,
         ft_slots = [Occupied 1 \<lparr>de_description = (5 :: nat), de_flags = 0\<rparr>, Vacant]\<rparr>;
       k = \<lparr>dt_table = 7, dt_fd = 0, dt_generation = 1\<rparr>
   in get_token [] (fst (reserve (fst (fd_close [] t 0)) 0 2 0)) k = Inl StaleToken"
proof -
  define t where "t = \<lparr>ft_id = (7 :: u64), ft_next_generation = 2,
    ft_slots = [Occupied 1 \<lparr>de_description = (5 :: nat), de_flags = 0\<rparr>, Vacant]\<rparr>"
  define k where "k = \<lparr>dt_table = (7 :: u64), dt_fd = (0 :: fd_number), dt_generation = 1\<rparr>"
  have 1: "fd_inv ([], t)"
    by (auto simp: fd_inv_def t_def capacity_def keys_below_def distinct_keys_def u64_max_def
        less_Suc_eq)
  have 2: "fd_token [] t 0 = Inr k"
    by (simp add: fd_token_def t_def k_def vec_get_def fd_index_def)
  have 3: "fd_close [] t 0 = (fst (fd_close [] t 0), Inr \<lparr>de_description = 5, de_flags = 0\<rparr>)"
    by (simp add: fd_close_def t_def vec_get_def fd_index_def)
  have 4: "(fd_step id)\<^sup>*\<^sup>* ([], fst (fd_close [] t 0)) ([], fst (reserve (fst (fd_close [] t 0)) 0 2 0))"
    by (rule r_into_rtranclp) (rule fd_step.intros(1))
  show ?thesis
    using closed_token_stale_forever [OF 1 2 3 4] unfolding t_def k_def Let_def by blast
qed

text \<open>
  C3. Reservation hands out the lowest free number of the requested range: a successful
  \<open>reserve\<close> picks a vacant slot in \<open>[lo, hi)\<close> with no vacant slot below it in the range,
  changes no visible descriptor, and leaves the reserved number invisible to lookup. Its
  generation is fresh: it is the counter's value, which no slot of the table holds and every
  generation issued before is below, and the counter has moved past it. A failure leaves the
  table as it was; it is \<open>TableFull\<close>, when no slot of the range is vacant, or
  \<open>GenerationExhausted\<close>, when the counter is at its last value.
\<close>

theorem reserve_lowest_invisible:
  assumes "fd_inv (h, t)" and "reserve t lo hi flags = (t', res)"
  shows "case res of
      Inr r \<Rightarrow> (let i = fd_index (rt_fd r) in
        lo \<le> i \<and> i < hi \<and> i < capacity t \<and> is_Vacant (ft_slots t ! i) \<and>
        (\<forall>j. lo \<le> j \<and> j < i \<longrightarrow> \<not> is_Vacant (ft_slots t ! j)) \<and>
        ft_slots t' = (ft_slots t)[i := Reserved (rt_generation r) flags] \<and>
        fd_get h t' (rt_fd r) = Inl BadDescriptor \<and> fd_lookup h t' = fd_lookup h t \<and>
        rt_table r = ft_id t \<and> rt_generation r = ft_next_generation t \<and>
        (\<forall>j < capacity t. \<forall>g. slot_generation (ft_slots t ! j) = Some g \<longrightarrow> g < rt_generation r) \<and>
        rt_generation r < ft_next_generation t')
    | Inl e \<Rightarrow> t' = t \<and>
        (e = TableFull \<and> (\<forall>j. lo \<le> j \<and> j < hi \<and> j < capacity t \<longrightarrow> \<not> is_Vacant (ft_slots t ! j)) \<or>
         e = GenerationExhausted \<and> ft_next_generation t = u64_max)"
proof (cases res)
  case (Inr r)
  with assms(2) obtain i where
    f: "find (\<lambda>i. is_Vacant (ft_slots t ! i)) (bounded_range t lo hi) = Some i"
    and t': "t' = set_slot (t\<lparr>ft_next_generation := Suc (ft_next_generation t)\<rparr>) i
               (Reserved (ft_next_generation t) flags)"
    and r: "rt_fd r = of_nat i" "rt_generation r = ft_next_generation t" "rt_table r = ft_id t"
    by (auto simp: reserve_Inr_iff)
  have below: "g < rt_generation r" if "j < capacity t" "slot_generation (ft_slots t ! j) = Some g" for j g
    using that assms(1) r(2) by (auto simp: fd_inv_def capacity_def dest: keys_below_nth)
  note fb = find_bounded_range [OF f]
  have i: "fd_index (rt_fd r) = i"
    using fb(1) fd_inv_capacity [OF assms(1)] r by (simp add: fd_index_of_nat)
  have "fd_lookup h t' = fd_lookup h t"
    using fb(1,4) by (auto simp: t' fd_lookup_set_slot fd_lookup_in is_Vacant_lookup fun_eq_iff)
  moreover have "fd_lookup h t i = None"
    using fb(1,4) by (simp add: fd_lookup_in is_Vacant_lookup)
  ultimately show ?thesis
    using fb i r Inr below by (auto simp: Let_def t' fd_get_def)
next
  case (Inl e)
  have "ft_next_generation t \<le> u64_max" using assms(1) by (simp add: fd_inv_def)
  then have "e = TableFull \<and> find (\<lambda>i. is_Vacant (ft_slots t ! i)) (bounded_range t lo hi) = None \<or>
      e = GenerationExhausted \<and> ft_next_generation t = u64_max"
    using assms(2) Inl
    by (auto simp: reserve_def allocate_generation_iffs split: option.splits prod.splits sum.splits)
  then show ?thesis
    using assms(2) Inl reserve_Inl_unchanged [of t lo hi flags t' e]
    by (auto simp: find_None_iff bounded_range_def)
qed

theorem reserve_lowest_invisible_witness:
  "let t = \<lparr>ft_id = 7, ft_next_generation = 2,
         ft_slots = [Occupied 1 \<lparr>de_description = (5 :: nat), de_flags = 0\<rparr>, Vacant]\<rparr>
   in snd (reserve t 0 2 0) = Inr \<lparr>rt_table = 7, rt_fd = 1, rt_generation = 2\<rparr> \<and>
      fd_get [] (fst (reserve t 0 2 0)) 1 = Inl BadDescriptor"
proof -
  define t where "t = \<lparr>ft_id = (7 :: u64), ft_next_generation = 2,
    ft_slots = [Occupied 1 \<lparr>de_description = (5 :: nat), de_flags = 0\<rparr>, Vacant]\<rparr>"
  have 1: "fd_inv ([], t)"
    by (auto simp: fd_inv_def t_def capacity_def keys_below_def distinct_keys_def u64_max_def
        less_Suc_eq)
  have 2: "reserve t 0 2 0 =
      (fst (reserve t 0 2 0), Inr \<lparr>rt_table = 7, rt_fd = 1, rt_generation = 2\<rparr>)"
    by (simp add: reserve_def t_def bounded_range_def capacity_def allocate_generation_def
        checked_add_def u64_max_def upt_conv_Cons)
  show ?thesis
    using reserve_lowest_invisible [OF 1 2] 2 unfolding t_def Let_def by (simp add: prod_eq_iff)
qed

text \<open>
  C4. Reserve and publish round trip: publishing a description on a fresh reservation
  succeeds, the returned token looks up exactly that description with the flags chosen at
  reservation, and every other descriptor reads as before.
\<close>

theorem publish_lookup_roundtrip:
  assumes "fd_inv (h, t)" and "reserve t lo hi flags = (t1, Inr r)" and "publish t1 r d = (t2, res)"
  shows "\<exists>k. res = Inr k \<and> dt_fd k = rt_fd r \<and>
    get_token h t2 k = Inr \<lparr>de_description = d, de_flags = flags\<rparr> \<and>
    (\<forall>fd. fd_get h t2 fd =
       (if fd = rt_fd r then Inr \<lparr>de_description = d, de_flags = flags\<rparr> else fd_get h t fd))"
proof -
  from assms(2) obtain i where
    f: "find (\<lambda>i. is_Vacant (ft_slots t ! i)) (bounded_range t lo hi) = Some i"
    and t1: "t1 = set_slot (t\<lparr>ft_next_generation := Suc (ft_next_generation t)\<rparr>) i
               (Reserved (ft_next_generation t) flags)"
    and r: "r = \<lparr>rt_table = ft_id t, rt_fd = of_nat i, rt_generation = ft_next_generation t\<rparr>"
    by (auto simp: reserve_Inr_iff)
  have i: "i < capacity t" "fd_index (rt_fd r) = i"
    using find_bounded_range(1) [OF f] fd_inv_capacity [OF assms(1)] r
    by (auto simp: fd_index_of_nat)
  then have s: "ft_slots t1 ! i = Reserved (rt_generation r) flags" "capacity t1 = capacity t"
    by (simp_all add: t1 r capacity_def)
  let ?e = "\<lparr>de_description = d, de_flags = flags\<rparr>"
  have v: "validate_reservation t1 r = Inr i"
    using i s by (simp add: validate_reservation_Inr_iff r t1)
  then have p: "t2 = set_slot t1 i (Occupied (rt_generation r) ?e)"
    "res = Inr \<lparr>dt_table = ft_id t1, dt_fd = rt_fd r, dt_generation = rt_generation r\<rparr>"
    using assms(3) s by (simp_all add: publish_def)
  have "fd_get h t2 fd = (if fd = rt_fd r then Inr ?e else fd_get h t fd)" for fd
    using i s(2) fd_index_inj [of fd "rt_fd r"]
    by (auto simp: fd_get_def p t1 fd_lookup_set_slot simp del: fd_index_inj)
  then show ?thesis
    using i s by (simp add: p get_token_def Let_def capacity_def)
qed

theorem publish_lookup_roundtrip_witness:
  "let t = \<lparr>ft_id = 7, ft_next_generation = 2,
         ft_slots = [Occupied 1 \<lparr>de_description = (5 :: nat), de_flags = 0\<rparr>, Vacant]\<rparr>;
       r = \<lparr>rt_table = 7, rt_fd = 1, rt_generation = 2\<rparr>
   in fd_get [] (fst (publish (fst (reserve t 0 2 1)) r 9)) 1
        = Inr \<lparr>de_description = 9, de_flags = 1\<rparr>"
proof -
  define t where "t = \<lparr>ft_id = (7 :: u64), ft_next_generation = 2,
    ft_slots = [Occupied 1 \<lparr>de_description = (5 :: nat), de_flags = 0\<rparr>, Vacant]\<rparr>"
  have 1: "fd_inv ([], t)"
    by (auto simp: fd_inv_def t_def capacity_def keys_below_def distinct_keys_def u64_max_def
        less_Suc_eq)
  have 2: "reserve t 0 2 1 =
      (fst (reserve t 0 2 1), Inr \<lparr>rt_table = 7, rt_fd = 1, rt_generation = 2\<rparr>)"
    by (simp add: reserve_def t_def bounded_range_def capacity_def allocate_generation_def
        checked_add_def u64_max_def upt_conv_Cons)
  show ?thesis
    using publish_lookup_roundtrip [OF 1 2 prod.collapse [symmetric], of 9]
    unfolding t_def Let_def by auto
qed

text \<open>
  C5. Two-phase publication. After \<open>prepare_publication\<close> no lookup changes. Committing the
  returned token makes exactly that descriptor visible, with the prepared description, and
  nothing else; the committed publication can no longer be cancelled, and the destructor of the
  token that was committed changes nothing. Dropping the token instead of committing it leaves
  every lookup as it was before preparation, and its slot can no longer be cancelled or
  looked up through the token. Cancelling hands the entry back and frees the slot, with every
  lookup as before.
\<close>

theorem prepared_publication_atomic:
  assumes "fd_inv (h, t)" and "prepare_publication (h, t) r d = ((h1, t1), Inr p)"
    and "publication_commit h1 p = (h2, k)"
  shows "fd_get h1 t1 = fd_get h t \<and>
    (\<exists>flags. let e = \<lparr>de_description = d, de_flags = flags\<rparr> in
       ft_slots t ! fd_index (rt_fd r) = Reserved (rt_generation r) flags \<and>
       fd_get h2 t1 = (fd_get h t)(rt_fd r := Inr e) \<and> get_token h2 t1 k = Inr e \<and>
       cancel_prepared (h2, t1) p = ((h2, t1), Inl (CancelPreparedError StaleToken p)) \<and>
       publication_drop h2 (p\<lparr>pp_active := False\<rparr>) = h2 \<and>
       (let hd = publication_drop h1 p in
          fd_get hd t1 = fd_get h t \<and> get_token hd t1 k = Inl StaleToken \<and>
          cancel_prepared (hd, t1) p = ((hd, t1), Inl (CancelPreparedError StaleToken p))) \<and>
       (\<exists>h3 t3. cancel_prepared (h1, t1) p = ((h3, t3), Inr e) \<and> fd_get h3 t3 = fd_get h t \<and>
          ft_slots t3 = (ft_slots t)[fd_index (rt_fd r) := Vacant]))"
proof -
  let ?i = "fd_index (rt_fd r)" and ?a = "length h"
  from assms(2) obtain flags where i: "?i < capacity t" "rt_table r = ft_id t"
    and sl: "ft_slots t ! ?i = Reserved (rt_generation r) flags"
    and h1: "h1 = h @ [PUBLICATION_PENDING]"
    and t1: "t1 = set_slot t ?i (Prepared (rt_generation r) \<lparr>de_description = d, de_flags = flags\<rparr> ?a)"
    and p: "p = \<lparr>pp_table = ft_id t, pp_fd = rt_fd r, pp_generation = rt_generation r,
               pp_state = ?a, pp_active = True\<rparr>"
    by (rule prepare_publication_Inr)
  let ?e = "\<lparr>de_description = d, de_flags = flags\<rparr>"
  have h2: "h2 = h @ [PUBLICATION_VISIBLE]"
    and k: "k = \<lparr>dt_table = ft_id t, dt_fd = rt_fd r, dt_generation = rt_generation r\<rparr>"
    using assms(3) by (auto simp: publication_commit_def p h1)
  have lk: "fd_lookup (h @ [ph]) t j = fd_lookup h t j" for ph j
    using assms(1) by (rule fd_lookup_append)
  have pv: "phase_visible (h @ [ph]) ?a \<longleftrightarrow> ph = PUBLICATION_VISIBLE" for ph
    by (auto simp: phase_visible_def vec_get_def)
  have none: "fd_lookup h t ?i = None" using i sl by (simp add: fd_lookup_in)
  have 1: "fd_get h1 t1 = fd_get h t"
    using none by (auto simp: fun_eq_iff fd_get_def h1 t1 fd_lookup_set_slot lk pv)
  have 2: "fd_get h2 t1 = (fd_get h t)(rt_fd r := Inr ?e)"
    using i by (auto simp: fun_eq_iff fd_get_def h2 t1 fd_lookup_set_slot lk pv)
  have 3: "get_token h2 t1 k = Inr ?e"
    using i by (simp add: get_token_def k t1 Let_def h2 pv capacity_def)
  have 4: "cancel_prepared (h2, t1) p = ((h2, t1), Inl (CancelPreparedError StaleToken p))"
    using i by (simp add: cancel_prepared_def p t1 Let_def h2 vec_get_def capacity_def)
  have 5: "cancel_prepared (h1, t1) p = ((h @ [PUBLICATION_ABORTED], set_slot t ?i Vacant), Inr ?e)"
    using i by (simp add: cancel_prepared_def p t1 Let_def h1 vec_get_def capacity_def set_slot_def)
  have 6: "fd_get (h @ [PUBLICATION_ABORTED]) (set_slot t ?i Vacant) = fd_get h t"
    using none by (auto simp: fun_eq_iff fd_get_def fd_lookup_set_slot lk)
  have hd: "publication_drop h1 p = h @ [PUBLICATION_ABORTED]"
    by (simp add: publication_drop_def p h1)
  have 8: "fd_get (publication_drop h1 p) t1 = fd_get h t"
    using none by (auto simp: fun_eq_iff fd_get_def hd t1 fd_lookup_set_slot lk pv)
  have 9: "get_token (publication_drop h1 p) t1 k = Inl StaleToken"
    using i by (simp add: get_token_def k t1 Let_def hd pv capacity_def)
  have 10: "cancel_prepared (publication_drop h1 p, t1) p =
      ((publication_drop h1 p, t1), Inl (CancelPreparedError StaleToken p))"
    using i by (simp add: cancel_prepared_def p t1 Let_def hd [unfolded p] vec_get_def capacity_def)
  have 11: "publication_drop h2 (p\<lparr>pp_active := False\<rparr>) = h2"
    by (simp add: publication_drop_def)
  have 7: "\<exists>h3 t3. cancel_prepared (h1, t1) p = ((h3, t3), Inr ?e) \<and> fd_get h3 t3 = fd_get h t \<and>
      ft_slots t3 = (ft_slots t)[?i := Vacant]"
    by (intro exI conjI, rule 5, rule 6, simp)
  show ?thesis
    unfolding Let_def by (intro conjI exI [of _ flags] 1 sl 2 3 4 7 8 9 10 11)
qed

theorem prepared_publication_atomic_witness:
  "let t = \<lparr>ft_id = 7, ft_next_generation = 2, ft_slots = [Reserved 1 1, Vacant :: nat slot]\<rparr>;
       r = \<lparr>rt_table = 7, rt_fd = 0, rt_generation = 1\<rparr>;
       t1 = snd (fst (prepare_publication ([], t) r 9))
   in fd_get [PUBLICATION_PENDING] t1 0 = Inl BadDescriptor \<and>
      fd_get [PUBLICATION_VISIBLE] t1 0 = Inr \<lparr>de_description = 9, de_flags = 1\<rparr>"
proof -
  define t where "t = \<lparr>ft_id = (7 :: u64), ft_next_generation = 2,
    ft_slots = [Reserved 1 1, Vacant :: nat slot]\<rparr>"
  define r where "r = \<lparr>rt_table = (7 :: u64), rt_fd = (0 :: fd_number), rt_generation = 1\<rparr>"
  define p where "p = \<lparr>pp_table = (7 :: u64), pp_fd = (0 :: fd_number), pp_generation = 1,
    pp_state = 0, pp_active = True\<rparr>"
  define t1 where "t1 = snd (fst (prepare_publication ([], t) r 9))"
  have 1: "fd_inv ([], t)"
    by (auto simp: fd_inv_def t_def capacity_def keys_below_def distinct_keys_def u64_max_def
        less_Suc_eq)
  have 2: "prepare_publication ([], t) r 9 = (([PUBLICATION_PENDING], t1), Inr p)"
    by (simp add: prepare_publication_def t_def r_def p_def t1_def validate_reservation_def
        capacity_def fd_index_def)
  have 3: "publication_commit [PUBLICATION_PENDING] p =
      ([PUBLICATION_VISIBLE], \<lparr>dt_table = 7, dt_fd = 0, dt_generation = 1\<rparr>)"
    by (simp add: publication_commit_def p_def)
  have "fd_get [] t 0 = Inl BadDescriptor"
    by (simp add: fd_get_def fd_lookup_def t_def vec_get_def fd_index_def)
  moreover have "ft_slots t ! fd_index (rt_fd r) = Reserved 1 1"
    by (simp add: t_def r_def fd_index_def)
  moreover have "rt_fd r = 0" by (simp add: r_def)
  ultimately have "fd_get [PUBLICATION_PENDING] t1 0 = Inl BadDescriptor \<and>
      fd_get [PUBLICATION_VISIBLE] t1 0 = Inr \<lparr>de_description = 9, de_flags = 1\<rparr>"
    using prepared_publication_atomic [OF 1 2 3] by (auto simp: Let_def)
  then show ?thesis unfolding Let_def t1_def t_def r_def .
qed

text \<open>
  C6. \<open>close_range\<close> is all or nothing. On success the descriptors of the inclusive range are
  gone, every other lookup is unchanged, slots that are reserved or still pending are left
  alone, and the batch has received exactly the visible entries of the range in ascending
  descriptor order, within its limit. On failure neither table nor batch has changed.
\<close>

theorem close_range_transaction:
  assumes "fd_inv (h, t)" and "length (cb_entries b) \<le> cb_limit b"
    and "close_range h t first last_fd b = ((t', b'), res)"
  shows "case res of
      Inr _ \<Rightarrow>
        (\<forall>fd. fd_get h t' fd = (if first \<le> fd \<and> fd \<le> last_fd then Inl BadDescriptor else fd_get h t fd)) \<and>
        (\<forall>i < capacity t. visible_entry h (ft_slots t ! i) = None \<longrightarrow> ft_slots t' ! i = ft_slots t ! i) \<and>
        cb_entries b' = cb_entries b @
          map snd (filter (\<lambda>(fd, e). first \<le> fd \<and> fd \<le> last_fd) (fd_iter h t)) \<and>
        length (cb_entries b') \<le> cb_limit b'
    | Inl e \<Rightarrow> t' = t \<and> b' = b \<and>
        (e = BadDescriptor \<and> last_fd < first \<or>
         e = InsufficientCloseStorage \<and> cb_limit b < length (cb_entries b) +
           length (filter (\<lambda>(fd, e). first \<le> fd \<and> fd \<le> last_fd) (fd_iter h t)))"
proof -
  let ?P = "\<lambda>i (e :: 'a descriptor_entry). fd_index first \<le> i \<and> i \<le> fd_index last_fd"
  have iter: "detached h ?P t (capacity t) =
      map snd (filter (\<lambda>(fd, e). first \<le> fd \<and> fd \<le> last_fd) (fd_iter h t))"
    using detached_iter [OF fd_inv_capacity [OF assms(1)], of h ?P] by (simp add: fd_index_le_iff)
  have iterl: "length (detached h ?P t (capacity t)) =
      length (filter (\<lambda>(fd, e). first \<le> fd \<and> fd \<le> last_fd) (fd_iter h t))"
    by (simp add: iter)
  show ?thesis
  proof (cases "last_fd < first")
    case True
    then show ?thesis using assms(3) by (auto simp: close_range_def)
  next
    case False
    then have "detach_matching h t b ?P = ((t', b'), res)"
      using assms(3) by (simp add: close_range_def)
    note dm = detach_matching_cases [OF this]
    show ?thesis
    proof (cases res)
      case (Inl e)
      then show ?thesis using dm assms(2) iterl by (auto simp: batch_remaining_def)
    next
      case (Inr u)
      then have t': "t' = t\<lparr>ft_slots := vacated h ?P t (capacity t)\<rparr>"
        and b': "b' = b\<lparr>cb_entries := cb_entries b @ detached h ?P t (capacity t)\<rparr>"
        and len: "length (detached h ?P t (capacity t)) \<le> batch_remaining b"
        using dm by auto
      have "fd_get h t' fd =
          (if first \<le> fd \<and> fd \<le> last_fd then Inl BadDescriptor else fd_get h t fd)" for fd
        by (auto simp: fd_get_def t' vacated_lookup fd_index_le_iff split: option.splits)
      moreover have "visible_entry h (ft_slots t ! i) = None \<Longrightarrow> i < capacity t \<Longrightarrow>
          ft_slots t' ! i = ft_slots t ! i" for i
        by (auto simp: t' vacated_def slot_matches_def)
      ultimately show ?thesis
        using Inr b' len iterl assms(2) by (auto simp: iter batch_remaining_def)
    qed
  qed
qed

theorem close_range_transaction_witness:
  "let e = \<lparr>de_description = (5 :: nat), de_flags = 0\<rparr>;
       t = \<lparr>ft_id = 7, ft_next_generation = 4, ft_slots = [Occupied 1 e, Occupied 2 e, Reserved 3 0]\<rparr>;
       b = \<lparr>cb_entries = [], cb_limit = 1\<rparr>
   in close_range [] t 1 2 b = (fst (close_range [] t 1 2 b), Inr ()) \<and>
      fd_get [] (fst (fst (close_range [] t 1 2 b))) 1 = Inl BadDescriptor"
proof -
  define e where "e = \<lparr>de_description = (5 :: nat), de_flags = 0\<rparr>"
  define t where "t = \<lparr>ft_id = (7 :: u64), ft_next_generation = 4,
    ft_slots = [Occupied 1 e, Occupied 2 e, Reserved 3 0]\<rparr>"
  define b where "b = \<lparr>cb_entries = ([] :: nat descriptor_entry list), cb_limit = 1\<rparr>"
  have 1: "fd_inv ([], t)"
    by (auto simp: fd_inv_def t_def capacity_def keys_below_def distinct_keys_def u64_max_def
        less_Suc_eq nth_Cons')
  have 2: "length (cb_entries b) \<le> cb_limit b" by (simp add: b_def)
  have 3: "snd (close_range [] t 1 2 b) = Inr ()"
    by (simp add: close_range_def detach_matching_def count_matching_def b_def t_def
        batch_remaining_def slot_matches_def fd_index_def enumerate_map_nth upt_conv_Cons)
  have "close_range [] t 1 2 b =
      ((fst (fst (close_range [] t 1 2 b)), snd (fst (close_range [] t 1 2 b))), Inr ())"
    using 3 by (metis prod.collapse)
  from close_range_transaction [OF 1 2 this] 3 show ?thesis
    unfolding Let_def t_def b_def e_def by (auto simp: prod_eq_iff)
qed

text \<open>
  C7. The two-step exec path agrees with the transactional one: with the batch obtained from
  \<open>prepare_close_on_exec\<close>, the infallible \<open>commit_close_on_exec\<close> returns exactly what the
  checked \<open>close_on_exec\<close> would, never exceeds the prepared storage, and leaves no visible
  descriptor that is marked close-on-exec while keeping every other one.
\<close>

theorem commit_close_on_exec_total:
  assumes "prepare_close_on_exec alloc_ok t = Inr b"
    and "commit_close_on_exec h t b = (t', b')"
  shows "close_on_exec h t b = ((t', b'), Inr ()) \<and> length (cb_entries b') \<le> cb_limit b' \<and>
    (\<forall>fd. fd_get h t' fd =
      (case fd_get h t fd of
         Inr e \<Rightarrow> if flags_contains (de_flags e) CLOSE_ON_EXEC then Inl BadDescriptor else Inr e
       | Inl e \<Rightarrow> Inl e))"
proof -
  let ?P = "\<lambda>(_ :: nat) e. flags_contains (de_flags e) CLOSE_ON_EXEC"
  have b: "b = \<lparr>cb_entries = [], cb_limit = capacity t\<rparr>"
    using assms(1) by (auto simp: prepare_close_on_exec_def batch_try_with_capacity_def split: if_splits)
  have len: "length (detached h ?P t (capacity t)) \<le> capacity t"
    unfolding detached_def length_map_filter
    using length_filter_le [of _ "[0..<capacity t]"] by simp
  have f: "fold (detach_one h ?P) [0..<capacity t] (t, b) = (t', b')"
    using assms(2) by (simp add: commit_close_on_exec_def)
  then have c: "t' = t\<lparr>ft_slots := vacated h ?P t (capacity t)\<rparr>"
    "b' = b\<lparr>cb_entries := detached h ?P t (capacity t)\<rparr>"
    by (auto simp: detach_fold b)
  have "close_on_exec h t b = ((t', b'), Inr ())"
    using len f by (simp add: close_on_exec_def detach_matching_def count_matching_detached
        batch_remaining_def b)
  moreover have "fd_get h t' fd = (case fd_get h t fd of
      Inr e \<Rightarrow> if flags_contains (de_flags e) CLOSE_ON_EXEC then Inl BadDescriptor else Inr e
    | Inl e \<Rightarrow> Inl e)" for fd
    by (auto simp: fd_get_def c vacated_lookup split: option.splits)
  ultimately show ?thesis using len by (simp add: c b)
qed

theorem commit_close_on_exec_total_witness:
  "let e = \<lparr>de_description = (5 :: nat), de_flags = 1\<rparr>;
       t = \<lparr>ft_id = 7, ft_next_generation = 2, ft_slots = [Occupied 1 e, Vacant]\<rparr>;
       b = \<lparr>cb_entries = [], cb_limit = 2\<rparr>
   in prepare_close_on_exec (\<lambda>_. True) t = Inr b \<and>
      close_on_exec [] t b = (commit_close_on_exec [] t b, Inr ())"
proof -
  define t where "t = \<lparr>ft_id = (7 :: u64), ft_next_generation = 2,
    ft_slots = [Occupied 1 \<lparr>de_description = (5 :: nat), de_flags = 1\<rparr>, Vacant]\<rparr>"
  define b where "b = \<lparr>cb_entries = ([] :: nat descriptor_entry list), cb_limit = 2\<rparr>"
  have 1: "prepare_close_on_exec (\<lambda>_. True) t = Inr b"
    by (simp add: prepare_close_on_exec_def batch_try_with_capacity_def t_def b_def capacity_def
        usize_max_def)
  show ?thesis
    using commit_close_on_exec_total [OF 1 prod.collapse [symmetric], of "[]"] 1
    unfolding t_def b_def Let_def by simp
qed



text \<open>
  C9. Fork. When the allocator grants the new slot array, \<open>fork_copy\<close> of a well-formed table
  succeeds: the copy is well formed with the same capacity, every descriptor reads as a
  clone of the parent's, and no reservation or pending publication is inherited.
\<close>

theorem fork_copy_spec:
  assumes "fd_inv (h, t)" and "alloc_ok (capacity t)"
  shows "\<exists>c. fork_copy alloc_ok cl h t new_id = Inr c \<and> ft_id c = new_id \<and> capacity c = capacity t \<and>
    fd_inv (h', c) \<and> list_all no_pending (ft_slots c) \<and>
    (\<forall>fd. fd_get h' c fd = map_sum id (clone_entry cl) (fd_get h t fd))"
proof -
  let ?c = "\<lparr>ft_id = new_id, ft_next_generation = 1, ft_slots = replicate (capacity t) (Vacant :: 'a slot)\<rparr>"
  have cap: "capacity t \<le> 2 ^ 32" using assms(1) by (rule fd_inv_capacity)
  then have new: "fd_try_new alloc_ok (capacity t) new_id = Inr ?c"
    using assms(2) by (simp add: fd_try_new_def int_max_numerals)
  have inv: "fd_inv (h', ?c)" using new by (rule fd_inv_try_new)
  have "\<exists>c'. fork_loop cl h 0 (ft_slots t) ?c = Inr c' \<and> ft_id c' = ft_id ?c \<and> capacity c' = capacity ?c \<and>
    fd_inv (h', c') \<and> list_all no_pending (ft_slots c') \<and>
    (\<forall>j. fd_lookup h' c' j =
      (if 0 \<le> j \<and> j < 0 + length (ft_slots t)
       then map_option (clone_entry cl) (visible_entry h (ft_slots t ! (j - 0))) else fd_lookup h' ?c j))"
    using cap inv
    by (intro fork_loop_total) (auto simp: capacity_def u64_max_def no_pending_def list_all_iff)
  then obtain c where c: "fork_loop cl h 0 (ft_slots t) ?c = Inr c" "ft_id c = new_id"
    "capacity c = capacity t" "fd_inv (h', c)" "list_all no_pending (ft_slots c)"
    "\<And>j. fd_lookup h' c j = (if j < capacity t
       then map_option (clone_entry cl) (visible_entry h (ft_slots t ! j)) else fd_lookup h' ?c j)"
    by (auto simp: capacity_def)
  have "fd_lookup h' c j = map_option (clone_entry cl) (fd_lookup h t j)" for j
    using c(6) [of j] by (auto simp: fd_lookup_in fd_lookup_out capacity_def)
  then have "fd_get h' c fd = map_sum id (clone_entry cl) (fd_get h t fd)" for fd
    by (cases "fd_lookup h t (fd_index fd)") (simp_all add: fd_get_def)
  then show ?thesis using c new by (auto simp: fork_copy_def)
qed

theorem fork_copy_spec_witness:
  "\<exists>c. fork_copy (\<lambda>n. n = 2) id [] \<lparr>ft_id = 7, ft_next_generation = 2,
     ft_slots = [Occupied 1 \<lparr>de_description = (5 :: nat), de_flags = 0\<rparr>, Vacant]\<rparr> 8 = Inr c \<and> ft_id c = 8"
proof -
  define t where "t = \<lparr>ft_id = (7 :: u64), ft_next_generation = 2,
    ft_slots = [Occupied 1 \<lparr>de_description = (5 :: nat), de_flags = 0\<rparr>, Vacant]\<rparr>"
  have 1: "fd_inv ([], t)"
    by (auto simp: fd_inv_def t_def capacity_def keys_below_def distinct_keys_def u64_max_def
        less_Suc_eq)
  have 2: "(\<lambda>n. n = 2) (capacity t)" by (simp add: t_def capacity_def)
  show ?thesis using fork_copy_spec [OF 1, where alloc_ok = "\<lambda>n. n = 2" and new_id = 8 and cl = id] 2
    unfolding t_def by auto
qed

end
