(* ===== verification/Ready_Queue.thy ===== *)
theory Ready_Queue
  imports Abi_Prelude
begin

text \<open>
  The fixed-capacity ring buffer behind an epoll instance (\<open>ReadyQueue\<close> of
  \<^verbatim>\<open>crates/fd/src/epoll.rs\<close>) and the bounded first-in-first-out contract it refines. The
  contract is the locale \<open>bounded_queue\<close>; the ring, with its in-place compaction on
  removal, interprets it, and the epoll core uses the contract's laws only.
\<close>

section \<open>The bounded queue contract\<close>

locale bounded_queue =
  fixes q_list :: "'q \<Rightarrow> 'a list"
    and q_inv :: "'q \<Rightarrow> bool"
    and q_capacity :: "'q \<Rightarrow> nat"
    and q_push :: "'q \<Rightarrow> 'a \<Rightarrow> 'q option"
    and q_pop :: "'q \<Rightarrow> 'q \<times> 'a option"
    and q_peek :: "'q \<Rightarrow> 'a option"
    and q_remove :: "'q \<Rightarrow> 'a \<Rightarrow> 'q"
  assumes bounded: "q_inv q \<Longrightarrow> length (q_list q) \<le> q_capacity q"
    and push_full: "q_inv q \<Longrightarrow> q_push q x = None \<longleftrightarrow> length (q_list q) = q_capacity q"
    and push_ok: "q_inv q \<Longrightarrow> q_push q x = Some q' \<Longrightarrow>
      q_list q' = q_list q @ [x] \<and> q_inv q' \<and> q_capacity q' = q_capacity q"
    and pop: "q_inv q \<Longrightarrow> q_pop q = (q', r) \<Longrightarrow>
      q_list q' = tl (q_list q) \<and> r = q_peek q \<and> q_inv q' \<and> q_capacity q' = q_capacity q"
    and peek: "q_inv q \<Longrightarrow> q_peek q = (case q_list q of [] \<Rightarrow> None | x # _ \<Rightarrow> Some x)"
    and remove: "q_inv q \<Longrightarrow>
      q_list (q_remove q x) = filter (\<lambda>y. y \<noteq> x) (q_list q) \<and> q_inv (q_remove q x) \<and>
      q_capacity (q_remove q x) = q_capacity q"
begin

lemma peek_Some_iff: "q_inv q \<Longrightarrow> q_peek q = Some x \<longleftrightarrow> (\<exists>xs. q_list q = x # xs)"
  by (simp add: peek split: list.splits)

lemma peek_None_iff: "q_inv q \<Longrightarrow> q_peek q = None \<longleftrightarrow> q_list q = []"
  by (simp add: peek split: list.splits)

lemma push_room: "q_inv q \<Longrightarrow> length (q_list q) < q_capacity q \<Longrightarrow> \<exists>q'. q_push q x = Some q'"
  using push_full [of q x] by fastforce

lemma pop_peek: "q_inv q \<Longrightarrow> q_peek q = Some x \<Longrightarrow>
    q_list q = x # q_list (fst (q_pop q)) \<and> q_inv (fst (q_pop q)) \<and>
    q_capacity (fst (q_pop q)) = q_capacity q"
  using pop [OF _ prod.collapse [symmetric]] by (metis list.sel(3) peek_Some_iff)

end

section \<open>The ring buffer\<close>

record 'a ready_queue =
  rq_items :: "'a list"
  rq_head :: nat
  rq_len :: nat

definition rq_capacity :: "'a ready_queue \<Rightarrow> nat" where
  "rq_capacity q = length (rq_items q)"

text \<open>\<open>None\<close> is the allocator's refusal, reported as \<open>NoMemory\<close> by the caller.\<close>

definition rq_try_new :: "(nat \<Rightarrow> bool) \<Rightarrow> nat \<Rightarrow> 'a \<Rightarrow> 'a ready_queue option" where
  "rq_try_new alloc_ok n filler =
     (if alloc_ok n then Some \<lparr>rq_items = replicate n filler, rq_head = 0, rq_len = 0\<rparr> else None)"

text \<open>\<open>None\<close> is \<open>ReadyQueueFull\<close>.\<close>

definition rq_push :: "'a ready_queue \<Rightarrow> 'a \<Rightarrow> 'a ready_queue option" where
  "rq_push q token =
     (if rq_len q = rq_capacity q then None
      else let index = (rq_head q + rq_len q) mod rq_capacity q
           in Some (q\<lparr>rq_items := (rq_items q)[index := token], rq_len := rq_len q + 1\<rparr>))"

definition rq_pop :: "'a ready_queue \<Rightarrow> 'a ready_queue \<times> 'a option" where
  "rq_pop q =
     (if rq_len q = 0 then (q, None)
      else (q\<lparr>rq_head := (rq_head q + 1) mod rq_capacity q, rq_len := rq_len q - 1\<rparr>,
            Some (rq_items q ! rq_head q)))"

definition rq_peek :: "'a ready_queue \<Rightarrow> 'a option" where
  "rq_peek q = (if rq_len q \<noteq> 0 then Some (rq_items q ! rq_head q) else None)"

definition rq_remove_step :: "nat \<Rightarrow> nat \<Rightarrow> 'a \<Rightarrow> nat \<Rightarrow> 'a list \<times> nat \<Rightarrow> 'a list \<times> nat" where
  "rq_remove_step head cap token read st =
     (case st of (items, retained) \<Rightarrow>
      let item = items ! ((head + read) mod cap)
      in if item \<noteq> token then (items[(head + retained) mod cap := item], retained + 1)
         else (items, retained))"

definition rq_remove :: "'a ready_queue \<Rightarrow> 'a \<Rightarrow> 'a ready_queue" where
  "rq_remove q token =
     (if rq_len q = 0 then q
      else case fold (rq_remove_step (rq_head q) (rq_capacity q) token) [0..<rq_len q] (rq_items q, 0)
             of (items, retained) \<Rightarrow> q\<lparr>rq_items := items, rq_len := retained\<rparr>)"

section \<open>The ring refines the contract\<close>

definition rq_list :: "'a ready_queue \<Rightarrow> 'a list" where
  "rq_list q = map (\<lambda>i. rq_items q ! ((rq_head q + i) mod rq_capacity q)) [0..<rq_len q]"

definition rq_inv :: "'a ready_queue \<Rightarrow> bool" where
  "rq_inv q \<longleftrightarrow> rq_len q \<le> rq_capacity q \<and> (rq_capacity q = 0 \<or> rq_head q < rq_capacity q)"

lemma ring_inj_le: "a \<le> b \<Longrightarrow> b < (c::nat) \<Longrightarrow> (h + a) mod c = (h + b) mod c \<Longrightarrow> a = b"
proof -
  assume a: "a \<le> b" "b < c" "(h + a) mod c = (h + b) mod c"
  then have "c dvd (h + b) - (h + a)" using mod_eq_dvd_iff_nat [of "h + a" "h + b" c] by simp
  then have "c dvd b - a" by simp
  with a show ?thesis
    by (metis diff_is_0_eq dvd_imp_le le_antisym less_imp_diff_less neq0_conv not_less)
qed

lemma ring_inj: "a < c \<Longrightarrow> b < (c::nat) \<Longrightarrow> (h + a) mod c = (h + b) mod c \<longleftrightarrow> a = b"
  using ring_inj_le [of a b c h] ring_inj_le [of b a c h] by (metis nat_le_linear)

lemma length_rq_list [simp]: "length (rq_list q) = rq_len q"
  by (simp add: rq_list_def)

lemma rq_capacity_update [simp]:
  "rq_capacity (q\<lparr>rq_head := h\<rparr>) = rq_capacity q"
  "rq_capacity (q\<lparr>rq_len := n\<rparr>) = rq_capacity q"
  by (simp_all add: rq_capacity_def)

lemma rq_remove_step_pair:
  "rq_remove_step head c x r (items, w) =
     (if items ! ((head + r) mod c) = x then (items, w)
      else (items[(head + w) mod c := items ! ((head + r) mod c)], Suc w))"
  by (simp add: rq_remove_step_def Let_def)

lemma rq_try_new_inv:
  "rq_try_new alloc_ok n f = Some q \<Longrightarrow> rq_inv q \<and> rq_list q = [] \<and> rq_capacity q = n"
  by (auto simp: rq_try_new_def rq_inv_def rq_list_def rq_capacity_def split: if_splits)

lemma rq_push_list:
  assumes "rq_inv q" and "rq_push q x = Some q'"
  shows "rq_list q' = rq_list q @ [x]" and "rq_inv q'" and "rq_capacity q' = rq_capacity q"
proof -
  let ?c = "rq_capacity q" and ?i = "(rq_head q + rq_len q) mod rq_capacity q"
  have lt: "rq_len q < ?c" and q': "q' = q\<lparr>rq_items := (rq_items q)[?i := x], rq_len := rq_len q + 1\<rparr>"
    using assms by (auto simp: rq_push_def rq_inv_def Let_def split: if_splits)
  show c: "rq_capacity q' = ?c" by (simp add: q' rq_capacity_def)
  show "rq_inv q'" using assms(1) lt by (auto simp: rq_inv_def c) (auto simp: q')
  have i: "?i < length (rq_items q)" 
    using lt unfolding rq_capacity_def by (intro mod_less_divisor) linarith
  have "rq_items q' ! ((rq_head q + k) mod ?c) = rq_items q ! ((rq_head q + k) mod ?c)"
    if "k < rq_len q" for k
    using that lt ring_inj [of "rq_len q" ?c k "rq_head q"] by (simp add: q' nth_list_update)
  then show "rq_list q' = rq_list q @ [x]"
    using i by (auto simp: rq_list_def c) (auto simp: q')
qed

lemma rq_pop_list:
  assumes "rq_inv q" and "rq_pop q = (q', r)"
  shows "rq_list q' = tl (rq_list q)" and "r = rq_peek q" and "rq_inv q'"
    and "rq_capacity q' = rq_capacity q"
proof -
  let ?c = "rq_capacity q"
  show "r = rq_peek q" using assms(2) by (auto simp: rq_pop_def rq_peek_def split: if_splits)
  show "rq_list q' = tl (rq_list q)" "rq_inv q'" "rq_capacity q' = ?c"
  proof (atomize (full), cases "rq_len q = 0")
    case True
    then show "rq_list q' = tl (rq_list q) \<and> rq_inv q' \<and> rq_capacity q' = ?c"
      using assms by (auto simp: rq_pop_def rq_list_def)
  next
    case False
    then have q': "q' = q\<lparr>rq_head := (rq_head q + 1) mod ?c, rq_len := rq_len q - 1\<rparr>"
      using assms(2) by (auto simp: rq_pop_def)
    have c: "rq_capacity q' = ?c" by (simp add: q' rq_capacity_def)
    have "((rq_head q + 1) mod ?c + k) mod ?c = (rq_head q + Suc k) mod ?c" for k
      by (simp add: mod_add_left_eq)
    then have "rq_list q' = tl (rq_list q)"
      by (intro nth_equalityI) (auto simp: rq_list_def c nth_tl q')
    moreover have "rq_inv q'" using assms(1) False by (auto simp: rq_inv_def c) (auto simp: q')
    ultimately show "rq_list q' = tl (rq_list q) \<and> rq_inv q' \<and> rq_capacity q' = ?c"
      using c by simp
  qed
qed

lemma rq_peek_list: "rq_inv q \<Longrightarrow> rq_peek q = (case rq_list q of [] \<Rightarrow> None | x # _ \<Rightarrow> Some x)"
proof (cases "rq_len q")
  case (Suc n)
  assume "rq_inv q"
  with Suc have "rq_head q < rq_capacity q" by (auto simp: rq_inv_def)
  with Suc show ?thesis by (simp add: rq_peek_def rq_list_def upt_conv_Cons del: upt_Suc)
qed (simp add: rq_peek_def rq_list_def)

text \<open>
  Removal compacts the ring in place: reading position \<open>r\<close> never lies behind the writing
  position, so what is still to be read has not been overwritten.
\<close>

lemma rq_remove_fold:
  fixes items :: "'a list"
  defines "c \<equiv> length items"
  assumes "n \<le> c"
  shows "\<exists>items' w. fold (rq_remove_step head c x) [0..<n] (items, 0) = (items', w) \<and>
    length items' = c \<and> w \<le> n \<and>
    map (\<lambda>i. items' ! ((head + i) mod c)) [0..<w] =
      filter (\<lambda>y. y \<noteq> x) (map (\<lambda>i. items ! ((head + i) mod c)) [0..<n]) \<and>
    (\<forall>i. n \<le> i \<and> i < c \<longrightarrow> items' ! ((head + i) mod c) = items ! ((head + i) mod c))"
  using assms(2)
proof (induction n)
  case 0
  then show ?case by (simp add: c_def)
next
  case (Suc n)
  then obtain items' w where f: "fold (rq_remove_step head c x) [0..<n] (items, 0) = (items', w)"
    and len: "length items' = c" and w: "w \<le> n"
    and m: "map (\<lambda>i. items' ! ((head + i) mod c)) [0..<w] =
      filter (\<lambda>y. y \<noteq> x) (map (\<lambda>i. items ! ((head + i) mod c)) [0..<n])"
    and same: "\<And>i. n \<le> i \<Longrightarrow> i < c \<Longrightarrow> items' ! ((head + i) mod c) = items ! ((head + i) mod c)"
    by auto
  let ?y = "items ! ((head + n) mod c)"
  have y: "items' ! ((head + n) mod c) = ?y" using same [of n] Suc.prems by simp
  show ?case
  proof (cases "?y = x")
    case True
    then show ?thesis using f len w m same y by (simp add: rq_remove_step_pair)
  next
    case False
    let ?w = "(head + w) mod c"
    have wc: "?w < length items'" using Suc.prems len by simp
    have other: "items'[?w := ?y] ! ((head + i) mod c) = items' ! ((head + i) mod c)"
      if "i < c" "i \<noteq> w" for i
      using that w Suc.prems ring_inj [of w c i head] by (simp add: nth_list_update)
    have "map (\<lambda>i. items'[?w := ?y] ! ((head + i) mod c)) [0..<w] =
        map (\<lambda>i. items' ! ((head + i) mod c)) [0..<w]"
      using other w Suc.prems by auto
    then have "map (\<lambda>i. items'[?w := ?y] ! ((head + i) mod c)) [0..<Suc w] =
        filter (\<lambda>y. y \<noteq> x) (map (\<lambda>i. items ! ((head + i) mod c)) [0..<Suc n])"
      using m wc False by simp
    moreover have "items'[?w := ?y] ! ((head + i) mod c) = items ! ((head + i) mod c)"
      if "Suc n \<le> i" "i < c" for i
      using that other [of i] same [of i] w by simp
    ultimately show ?thesis
      using f len w y False
      by (intro exI [of _ "items'[?w := ?y]"] exI [of _ "Suc w"]) (simp add: rq_remove_step_pair)
  qed
qed

lemma rq_remove_list:
  assumes "rq_inv q"
  shows "rq_list (rq_remove q x) = filter (\<lambda>y. y \<noteq> x) (rq_list q)"
    and "rq_inv (rq_remove q x)" and "rq_capacity (rq_remove q x) = rq_capacity q"
proof -
  obtain items w where f: "fold (rq_remove_step (rq_head q) (rq_capacity q) x) [0..<rq_len q]
      (rq_items q, 0) = (items, w)"
    and g: "length items = rq_capacity q" "w \<le> rq_len q"
      "map (\<lambda>i. items ! ((rq_head q + i) mod rq_capacity q)) [0..<w] = filter (\<lambda>y. y \<noteq> x) (rq_list q)"
    using rq_remove_fold [of "rq_len q" "rq_items q" "rq_head q" x] assms
    by (auto simp: rq_inv_def rq_capacity_def rq_list_def)
  show "rq_list (rq_remove q x) = filter (\<lambda>y. y \<noteq> x) (rq_list q)"
    and "rq_inv (rq_remove q x)" and "rq_capacity (rq_remove q x) = rq_capacity q"
    using f g assms by (auto simp: rq_remove_def rq_list_def rq_capacity_def rq_inv_def)
qed

interpretation rq: bounded_queue rq_list rq_inv rq_capacity rq_push rq_pop rq_peek rq_remove
proof
  fix q q' :: "'a ready_queue" and x and r
  assume inv: "rq_inv q"
  then show "length (rq_list q) \<le> rq_capacity q" by (simp add: rq_inv_def)
  show "rq_push q x = None \<longleftrightarrow> length (rq_list q) = rq_capacity q"
    by (simp add: rq_push_def Let_def)
  show "rq_list q' = rq_list q @ [x] \<and> rq_inv q' \<and> rq_capacity q' = rq_capacity q"
    if "rq_push q x = Some q'"
    using rq_push_list [OF inv that] by blast
  show "rq_list q' = tl (rq_list q) \<and> r = rq_peek q \<and> rq_inv q' \<and> rq_capacity q' = rq_capacity q"
    if "rq_pop q = (q', r)"
    using rq_pop_list [OF inv that] by blast
  show "rq_peek q = (case rq_list q of [] \<Rightarrow> None | x # _ \<Rightarrow> Some x)"
    using inv by (rule rq_peek_list)
  show "rq_list (rq_remove q x) = filter (\<lambda>y. y \<noteq> x) (rq_list q) \<and> rq_inv (rq_remove q x) \<and>
      rq_capacity (rq_remove q x) = rq_capacity q"
    using rq_remove_list [OF inv] by blast
qed

end
