(* ===== verification/Epoll_Core.thy ===== *)
theory Epoll_Core
  imports Fd_Types Generation_Domain Ready_Queue
begin

text \<open>
  The epoll interest and readiness core (\<open>EpollCore\<close> of \<^verbatim>\<open>crates/fd/src/epoll.rs\<close>): the
  interest table with generation-tagged tokens, source notification, two-phase delivery with
  its three outcomes, and the bounded rescan. User data and subscriptions are type
  parameters, as in the source; the ready queue is the ring of \<open>Ready_Queue\<close>.
\<close>

unbundle bit_operations_syntax

section \<open>Data\<close>

record epoll_key =
  ek_ofd :: u64
  ek_fd :: fd_number

record ('u, 's) epoll_interest =
  ei_key :: epoll_key
  ei_interest :: interest_mask
  ei_mode :: interest_mode
  ei_user_data :: 'u
  ei_subscription :: 's

record epoll_token =
  et_epoll :: u64
  et_slot :: nat
  et_generation :: nat

record delivery_token =
  dl_interest :: epoll_token
  dl_serial :: nat
  dl_events :: ready_mask

record 'v ready_event =
  re_delivery :: delivery_token
  re_events :: ready_mask
  re_user_data :: 'v

datatype delivery_outcome = is_Copied: Copied (still_ready: ready_mask) | Suppressed | Fault

datatype notify_outcome = Enqueued | Coalesced | Ignored

datatype epoll_error =
    EpNoMemory
  | EpCapacity
  | EpDuplicate
  | EpNotFound
  | EpStaleToken
  | EpUnsupportedMode
  | EpGenerationExhausted
  | EpReadyQueueFull
  | EpRescanRequired

record rescan_progress =
  rp_scanned :: nat
  rp_enqueued :: nat
  rp_complete :: bool

record rescan_token =
  rk_epoll :: u64
  rk_generation :: nat

datatype ('u, 's) epoll_publish_error =
  EpollPublishError (epe_error: epoll_error) (epe_interest: "('u, 's) epoll_interest")

datatype 'v delivery_commit_error =
  DeliveryCommitError (dce_error: epoll_error) (dce_user_data: 'v)

record ('u, 's) entry =
  en_generation :: nat
  en_interest :: "('u, 's) epoll_interest"
  en_enabled :: bool
  en_queued :: bool
  en_in_delivery :: "nat option"
  en_ready :: ready_mask
  en_during_delivery :: ready_mask

record rescan_state =
  rs_generation :: nat
  rs_cursor :: nat
  rs_remaining :: nat

record ('u, 's) epoll_core =
  ec_id :: u64
  ec_entries :: "('u, 's) entry option list"
  ec_ready :: "epoll_token ready_queue"
  ec_next_generation :: nat
  ec_next_delivery :: nat
  ec_next_rescan :: nat
  ec_rescan :: "rescan_state option"

section \<open>Construction and counters\<close>

definition ep_try_new :: "(nat \<Rightarrow> bool) \<Rightarrow> u64 \<Rightarrow> nat \<Rightarrow> epoll_error + ('u, 's) epoll_core" where
  "ep_try_new alloc_ok i n =
     (if n = usize_max then Inl EpCapacity
      else case rq_try_new alloc_ok n \<lparr>et_epoll = i, et_slot = 0, et_generation = 0\<rparr> of
        None \<Rightarrow> Inl EpNoMemory
      | Some ready \<Rightarrow>
          if \<not> alloc_ok n then Inl EpNoMemory
          else Inr \<lparr>ec_id = i, ec_entries = replicate n None, ec_ready = ready,
                    ec_next_generation = 1, ec_next_delivery = 1, ec_next_rescan = 1,
                    ec_rescan = None\<rparr>)"

definition ep_len :: "('u, 's) epoll_core \<Rightarrow> nat" where
  "ep_len c = length (filter (\<lambda>e. e \<noteq> None) (ec_entries c))"

definition ep_rescan_token :: "('u, 's) epoll_core \<Rightarrow> rescan_token option" where
  "ep_rescan_token c =
     map_option (\<lambda>s. \<lparr>rk_epoll = ec_id c, rk_generation = rs_generation s\<rparr>) (ec_rescan c)"

definition ep_allocate_generation ::
  "('u, 's) epoll_core \<Rightarrow> (('u, 's) epoll_core, epoll_error, nat) outcome" where
  "ep_allocate_generation c =
     (case checked_add u64_max (ec_next_generation c) 1 of
        None \<Rightarrow> (c, Inl EpGenerationExhausted)
      | Some n \<Rightarrow> (c\<lparr>ec_next_generation := n\<rparr>, Inr (ec_next_generation c)))"

definition ep_allocate_delivery ::
  "('u, 's) epoll_core \<Rightarrow> (('u, 's) epoll_core, epoll_error, nat) outcome" where
  "ep_allocate_delivery c =
     (case checked_add u64_max (ec_next_delivery c) 1 of
        None \<Rightarrow> (c, Inl EpGenerationExhausted)
      | Some n \<Rightarrow> (c\<lparr>ec_next_delivery := n\<rparr>, Inr (ec_next_delivery c)))"

definition start_rescan ::
  "('u, 's) epoll_core \<Rightarrow> (('u, 's) epoll_core, epoll_error, unit) outcome" where
  "start_rescan c =
     (case checked_add u64_max (ec_next_rescan c) 1 of
        None \<Rightarrow> (c, Inl EpGenerationExhausted)
      | Some n \<Rightarrow>
          (c\<lparr>ec_next_rescan := n,
             ec_rescan := Some \<lparr>rs_generation = ec_next_rescan c, rs_cursor = 0,
                                rs_remaining = length (ec_entries c)\<rparr>\<rparr>, Inr ()))"

definition validate_mode :: "interest_mode \<Rightarrow> epoll_error + unit" where
  "validate_mode m = (if im_exclusive m then Inl EpUnsupportedMode else Inr ())"

definition ep_entry :: "('u, 's) epoll_core \<Rightarrow> epoll_token \<Rightarrow> epoll_error + ('u, 's) entry" where
  "ep_entry c k =
     (if et_epoll k \<noteq> ec_id c then Inl EpStaleToken
      else case vec_get (ec_entries c) (et_slot k) of
        Some (Some e) \<Rightarrow> if en_generation e = et_generation k then Inr e else Inl EpStaleToken
      | _ \<Rightarrow> Inl EpStaleToken)"

definition set_entry ::
  "('u, 's) epoll_core \<Rightarrow> nat \<Rightarrow> ('u, 's) entry option \<Rightarrow> ('u, 's) epoll_core" where
  "set_entry c slot e = c\<lparr>ec_entries := (ec_entries c)[slot := e]\<rparr>"

definition new_entry :: "nat \<Rightarrow> ('u, 's) epoll_interest \<Rightarrow> ('u, 's) entry" where
  "new_entry g i =
     \<lparr>en_generation = g, en_interest = i, en_enabled = True, en_queued = False,
      en_in_delivery = None, en_ready = 0, en_during_delivery = 0\<rparr>"

section \<open>Interest control\<close>

definition ep_add ::
  "('u, 's) epoll_core \<Rightarrow> ('u, 's) epoll_interest \<Rightarrow>
   (('u, 's) epoll_core, ('u, 's) epoll_publish_error, epoll_token) outcome" where
  "ep_add c i =
     (case validate_mode (ei_mode i) of
        Inl e \<Rightarrow> (c, Inl (EpollPublishError e i))
      | Inr _ \<Rightarrow>
          if list_ex (\<lambda>oe. case oe of None \<Rightarrow> False | Some e \<Rightarrow> ei_key (en_interest e) = ei_key i)
               (ec_entries c)
          then (c, Inl (EpollPublishError EpDuplicate i))
          else case position (\<lambda>oe. oe = None) (ec_entries c) of
            None \<Rightarrow> (c, Inl (EpollPublishError EpCapacity i))
          | Some slot \<Rightarrow>
              (case ep_allocate_generation c of
                 (c', Inl e) \<Rightarrow> (c', Inl (EpollPublishError e i))
               | (c', Inr g) \<Rightarrow>
                   (set_entry c' slot (Some (new_entry g i)),
                    Inr \<lparr>et_epoll = ec_id c, et_slot = slot, et_generation = g\<rparr>)))"

definition ep_modify ::
  "('u, 's) epoll_core \<Rightarrow> epoll_token \<Rightarrow> ('u, 's) epoll_interest \<Rightarrow>
   (('u, 's) epoll_core, ('u, 's) epoll_publish_error, epoll_token \<times> ('u, 's) epoll_interest) outcome"
where
  "ep_modify c k i =
     (case validate_mode (ei_mode i) of
        Inl e \<Rightarrow> (c, Inl (EpollPublishError e i))
      | Inr _ \<Rightarrow>
          if \<not> (case ep_entry c k of Inl _ \<Rightarrow> False | Inr e \<Rightarrow> ei_key (en_interest e) = ei_key i)
          then (c, Inl (EpollPublishError EpStaleToken i))
          else case ep_allocate_generation c of
            (c1, Inl e) \<Rightarrow> (c1, Inl (EpollPublishError e i))
          | (c1, Inr g) \<Rightarrow>
              let c2 = c1\<lparr>ec_ready := rq_remove (ec_ready c1) k\<rparr> in
              case ec_entries c2 ! et_slot k of
                None \<Rightarrow> (c2, Inl (EpollPublishError EpStaleToken i))
              | Some old \<Rightarrow>
                  (set_entry c2 (et_slot k) (Some (new_entry g i)),
                   Inr (\<lparr>et_epoll = ec_id c2, et_slot = et_slot k, et_generation = g\<rparr>,
                        en_interest old)))"

definition ep_remove ::
  "('u, 's) epoll_core \<Rightarrow> epoll_token \<Rightarrow>
   (('u, 's) epoll_core, epoll_error, ('u, 's) epoll_interest) outcome" where
  "ep_remove c k =
     (case ep_entry c k of
        Inl e \<Rightarrow> (c, Inl e)
      | Inr _ \<Rightarrow>
          let c1 = c\<lparr>ec_ready := rq_remove (ec_ready c) k\<rparr> in
          case ec_entries c1 ! et_slot k of
            None \<Rightarrow> (set_entry c1 (et_slot k) None, Inl EpStaleToken)
          | Some e \<Rightarrow> (set_entry c1 (et_slot k) None, Inr (en_interest e)))"

section \<open>Notification and delivery\<close>

text \<open>
  The tail shared by \<open>notify\<close> and \<open>finish_delivery\<close>: push the token, request a rescan if the
  queue is full, otherwise mark the entry queued.
\<close>

definition enqueue_token ::
  "('u, 's) epoll_core \<Rightarrow> epoll_token \<Rightarrow> (('u, 's) epoll_core, epoll_error, unit) outcome" where
  "enqueue_token c k =
     (case rq_push (ec_ready c) k of
        None \<Rightarrow>
          (case start_rescan c of
             (c1, Inl e) \<Rightarrow> (c1, Inl e)
           | (c1, Inr _) \<Rightarrow> (c1, Inl EpReadyQueueFull))
      | Some q \<Rightarrow>
          let c1 = c\<lparr>ec_ready := q\<rparr> in
          case ep_entry c1 k of
            Inl e \<Rightarrow> (c1, Inl e)
          | Inr en \<Rightarrow> (set_entry c1 (et_slot k) (Some (en\<lparr>en_queued := True\<rparr>)), Inr ()))"

definition ep_notify ::
  "('u, 's) epoll_core \<Rightarrow> epoll_token \<Rightarrow> ready_mask \<Rightarrow>
   (('u, 's) epoll_core, epoll_error, notify_outcome) outcome" where
  "ep_notify c k ready =
     (case ep_entry c k of
        Inl e \<Rightarrow> (c, Inl e)
      | Inr en \<Rightarrow>
          if \<not> en_enabled en then (c, Inr Ignored)
          else let d = deliverable ready (ei_interest (en_interest en)) in
          if d = 0 then (c, Inr Ignored)
          else if en_in_delivery en \<noteq> None then
            (set_entry c (et_slot k) (Some (en\<lparr>en_during_delivery := en_during_delivery en OR d\<rparr>)),
             Inr Coalesced)
          else let c1 = set_entry c (et_slot k) (Some (en\<lparr>en_ready := en_ready en OR d\<rparr>)) in
          if en_queued en then (c1, Inr Coalesced)
          else case enqueue_token c1 k of
            (c2, Inl e) \<Rightarrow> (c2, Inl e)
          | (c2, Inr _) \<Rightarrow> (c2, Inr Enqueued))"

definition token_queued :: "('u, 's) epoll_core \<Rightarrow> epoll_token \<Rightarrow> bool" where
  "token_queued c k \<longleftrightarrow> (case ep_entry c k of Inl _ \<Rightarrow> False | Inr e \<Rightarrow> en_queued e)"

function prepare_delivery ::
  "('u, 's) epoll_core \<Rightarrow> (('u, 's) epoll_core, epoll_error, epoll_token option) outcome" where
  "prepare_delivery c =
     (case rq_peek (ec_ready c) of
        None \<Rightarrow> (c, if ec_rescan c \<noteq> None then Inl EpRescanRequired else Inr None)
      | Some k \<Rightarrow>
          if token_queued c k then (c, Inr (Some k))
          else prepare_delivery (c\<lparr>ec_ready := fst (rq_pop (ec_ready c))\<rparr>))"
  by pat_completeness auto
termination
  by (relation "measure (\<lambda>c. rq_len (ec_ready c))") (auto simp: rq_peek_def rq_pop_def split: if_splits)

declare prepare_delivery.simps [simp del]

definition commit_delivery ::
  "('u, 's) epoll_core \<Rightarrow> epoll_token \<Rightarrow> 'v \<Rightarrow>
   (('u, 's) epoll_core, 'v delivery_commit_error, 'v ready_event) outcome" where
  "commit_delivery c k user_data =
     (if \<not> (rq_peek (ec_ready c) = Some k \<and> token_queued c k)
      then (c, Inl (DeliveryCommitError EpStaleToken user_data))
      else case ep_allocate_delivery c of
        (c1, Inl e) \<Rightarrow> (c1, Inl (DeliveryCommitError e user_data))
      | (c1, Inr serial) \<Rightarrow>
          let c2 = c1\<lparr>ec_ready := fst (rq_pop (ec_ready c1))\<rparr> in
          case ep_entry c2 k of
            Inl e \<Rightarrow> (c2, Inl (DeliveryCommitError e user_data))
          | Inr en \<Rightarrow>
              (set_entry c2 (et_slot k)
                 (Some (en\<lparr>en_queued := False, en_in_delivery := Some serial, en_ready := 0\<rparr>)),
               Inr \<lparr>re_delivery = \<lparr>dl_interest = k, dl_serial = serial, dl_events = en_ready en\<rparr>,
                    re_events = en_ready en, re_user_data = user_data\<rparr>))"

definition begin_delivery ::
  "('u, 's) epoll_core \<Rightarrow> (('u, 's) epoll_core, epoll_error, 'u ready_event option) outcome" where
  "begin_delivery c =
     (case prepare_delivery c of
        (c1, Inl e) \<Rightarrow> (c1, Inl e)
      | (c1, Inr None) \<Rightarrow> (c1, Inr None)
      | (c1, Inr (Some k)) \<Rightarrow>
          (case ep_entry c1 k of
             Inl e \<Rightarrow> (c1, Inl e)
           | Inr en \<Rightarrow>
               (case commit_delivery c1 k (ei_user_data (en_interest en)) of
                  (c2, Inl e) \<Rightarrow> (c2, Inl (dce_error e))
                | (c2, Inr ev) \<Rightarrow> (c2, Inr (Some ev)))))"

fun settle_entry :: "delivery_outcome \<Rightarrow> ready_mask \<Rightarrow> ('u, 's) entry \<Rightarrow> ('u, 's) entry" where
  "settle_entry Fault events en =
     en\<lparr>en_ready := en_ready en OR (events OR en_during_delivery en)\<rparr>"
| "settle_entry Suppressed events en = en\<lparr>en_ready := en_ready en OR en_during_delivery en\<rparr>"
| "settle_entry (Copied still) events en =
     (let en1 = en\<lparr>en_ready := en_ready en OR en_during_delivery en\<rparr>;
          en2 = (if \<not> im_edge (ei_mode (en_interest en1))
                 then en1\<lparr>en_ready := en_ready en1 OR deliverable still (ei_interest (en_interest en1))\<rparr>
                 else en1)
      in if im_one_shot (ei_mode (en_interest en2)) then en2\<lparr>en_enabled := False\<rparr> else en2)"

definition finish_delivery ::
  "('u, 's) epoll_core \<Rightarrow> delivery_token \<Rightarrow> delivery_outcome \<Rightarrow>
   (('u, 's) epoll_core, epoll_error, unit) outcome" where
  "finish_delivery c d oc =
     (let k = dl_interest d in
      case ep_entry c k of
        Inl e \<Rightarrow> (c, Inl e)
      | Inr en \<Rightarrow>
          if en_in_delivery en \<noteq> Some (dl_serial d) then (c, Inl EpStaleToken)
          else
            let en1 = (settle_entry oc (dl_events d) (en\<lparr>en_in_delivery := None\<rparr>))
                        \<lparr>en_during_delivery := 0\<rparr>;
                c1 = set_entry c (et_slot k) (Some en1)
            in if en_enabled en1 \<and> en_ready en1 \<noteq> 0 \<and> \<not> en_queued en1
               then enqueue_token c1 k
               else (c1, Inr ()))"

section \<open>Bounded rescan\<close>

definition rescan_candidate :: "('u, 's) epoll_core \<Rightarrow> nat \<Rightarrow> epoll_token option" where
  "rescan_candidate c slot =
     (case vec_get (ec_entries c) slot of
        Some (Some e) \<Rightarrow>
          if en_enabled e \<and> en_ready e \<noteq> 0 \<and> \<not> en_queued e \<and> en_in_delivery e = None
          then Some \<lparr>et_epoll = ec_id c, et_slot = slot, et_generation = en_generation e\<rparr>
          else None
      | _ \<Rightarrow> None)"

fun rescan_loop ::
  "('u, 's) epoll_core \<Rightarrow> rescan_state \<Rightarrow> nat \<Rightarrow> nat \<Rightarrow>
   (('u, 's) epoll_core, epoll_error, rescan_state \<times> nat) outcome" where
  "rescan_loop c st 0 enqueued = (c, Inr (st, enqueued))"
| "rescan_loop c st (Suc n) enqueued =
     (let st' = st\<lparr>rs_cursor := (rs_cursor st + 1) mod length (ec_entries c),
                   rs_remaining := rs_remaining st - 1\<rparr> in
      case rescan_candidate c (rs_cursor st) of
        None \<Rightarrow> rescan_loop c st' n enqueued
      | Some k \<Rightarrow>
          (case rq_push (ec_ready c) k of
             None \<Rightarrow> (c\<lparr>ec_rescan := Some st\<rparr>, Inl EpReadyQueueFull)
           | Some q \<Rightarrow>
               let c1 = c\<lparr>ec_ready := q\<rparr> in
               case ep_entry c1 k of
                 Inl e \<Rightarrow> (c1, Inl e)
               | Inr en \<Rightarrow>
                   rescan_loop (set_entry c1 (et_slot k) (Some (en\<lparr>en_queued := True\<rparr>))) st' n
                     (enqueued + 1)))"

definition rescan_ready ::
  "('u, 's) epoll_core \<Rightarrow> rescan_token \<Rightarrow> nat \<Rightarrow>
   (('u, 's) epoll_core, epoll_error, rescan_progress) outcome" where
  "rescan_ready c k max_entries =
     (case ec_rescan c of
        None \<Rightarrow> (c, Inl EpStaleToken)
      | Some st \<Rightarrow>
          if rk_epoll k \<noteq> ec_id c \<or> rk_generation k \<noteq> rs_generation st then (c, Inl EpStaleToken)
          else if ec_entries c = [] \<or> rs_remaining st = 0 then
            (c\<lparr>ec_rescan := None\<rparr>, Inr \<lparr>rp_scanned = 0, rp_enqueued = 0, rp_complete = True\<rparr>)
          else if max_entries = 0 then
            (c, Inr \<lparr>rp_scanned = 0, rp_enqueued = 0, rp_complete = False\<rparr>)
          else
            let target = min max_entries (rs_remaining st) in
            case rescan_loop c st target 0 of
              (c1, Inl e) \<Rightarrow> (c1, Inl e)
            | (c1, Inr (st', enqueued)) \<Rightarrow>
                let complete = (rs_remaining st' = 0) in
                (c1\<lparr>ec_rescan := (if complete then None else Some st')\<rparr>,
                 Inr \<lparr>rp_scanned = target, rp_enqueued = enqueued, rp_complete = complete\<rparr>))"

end
