(* ===== verification/Epoll_Safety.thy ===== *)
theory Epoll_Safety
  imports Epoll_Core
begin

text \<open>
  The invariant that ties the interest table to the ready queue, its preservation by every
  operation of the epoll core, and the generation contract of interest tokens. The
  invariant says which interests are queued: exactly the enabled ones that have readiness
  and are not being delivered. With at most one queue item per interest the ring can never
  overflow, so the defensive rescan is never requested.
\<close>

unbundle bit_operations_syntax

section \<open>Invariant\<close>

definition entry_ok :: "('u, 's) entry \<Rightarrow> bool" where
  "entry_ok e \<longleftrightarrow>
     (en_queued e \<longleftrightarrow> en_enabled e \<and> en_ready e \<noteq> 0 \<and> en_in_delivery e = None) \<and>
     (en_in_delivery e = None \<longrightarrow> en_during_delivery e = 0) \<and>
     (en_in_delivery e \<noteq> None \<longrightarrow> en_ready e = 0)"

definition entry_gen :: "('u, 's) entry option \<Rightarrow> nat option" where
  "entry_gen oe = map_option en_generation oe"

definition entry_key :: "('u, 's) entry option \<Rightarrow> epoll_key option" where
  "entry_key oe = map_option (\<lambda>e. ei_key (en_interest e)) oe"

definition table_ok :: "('u, 's) epoll_core \<Rightarrow> bool" where
  "table_ok c \<longleftrightarrow>
     rq_inv (ec_ready c) \<and> rq_capacity (ec_ready c) = length (ec_entries c) \<and>
     ec_next_generation c \<le> u64_max \<and> ec_next_delivery c \<le> u64_max \<and> ec_rescan c = None \<and>
     keys_below entry_gen (ec_next_generation c) (ec_entries c) \<and>
     distinct_keys entry_gen (ec_entries c) \<and> distinct_keys entry_key (ec_entries c)"

definition queue_ok :: "('u, 's) epoll_core \<Rightarrow> bool" where
  "queue_ok c \<longleftrightarrow> distinct (rq_list (ec_ready c)) \<and>
     (\<forall>k. k \<in> set (rq_list (ec_ready c)) \<longleftrightarrow> token_queued c k)"

definition ep_inv :: "('u, 's) epoll_core \<Rightarrow> bool" where
  "ep_inv c \<longleftrightarrow> table_ok c \<and> queue_ok c \<and> (\<forall>e. Some e \<in> set (ec_entries c) \<longrightarrow> entry_ok e)"

definition ep_holds :: "('u, 's) epoll_core \<Rightarrow> epoll_token \<Rightarrow> bool" where
  "ep_holds c k \<longleftrightarrow> (\<exists>e. ep_entry c k = Inr e)"

lemma ep_entry_Inr_iff:
  "ep_entry c k = Inr e \<longleftrightarrow>
     et_epoll k = ec_id c \<and> et_slot k < length (ec_entries c) \<and>
     ec_entries c ! et_slot k = Some e \<and> en_generation e = et_generation k"
  by (auto simp: ep_entry_def vec_get_def split: option.splits if_splits)

lemma ep_entry_nth:
  "ep_entry c k = Inr e \<Longrightarrow> et_slot k < length (ec_entries c)"
  "ep_entry c k = Inr e \<Longrightarrow> ec_entries c ! et_slot k = Some e"
  "ep_entry c k = Inr e \<Longrightarrow> et_epoll k = ec_id c"
  by (auto simp: ep_entry_Inr_iff)

lemma ep_entry_Inl: "ep_entry c k = Inl e \<Longrightarrow> e = EpStaleToken"
  by (auto simp: ep_entry_def split: option.splits if_splits)

lemma token_queued_iff: "token_queued c k \<longleftrightarrow> (\<exists>e. ep_entry c k = Inr e \<and> en_queued e)"
  by (auto simp: token_queued_def split: sum.splits)

lemma set_entry_fields [simp]:
  "ec_id (set_entry c i oe) = ec_id c"
  "ec_ready (set_entry c i oe) = ec_ready c"
  "ec_entries (set_entry c i oe) = (ec_entries c)[i := oe]"
  "ec_next_generation (set_entry c i oe) = ec_next_generation c"
  "ec_next_delivery (set_entry c i oe) = ec_next_delivery c"
  "ec_next_rescan (set_entry c i oe) = ec_next_rescan c"
  "ec_rescan (set_entry c i oe) = ec_rescan c"
  by (simp_all add: set_entry_def)

lemma ep_entry_unfold_fields:
  "ec_id c' = ec_id c \<Longrightarrow> ec_entries c' = ec_entries c \<Longrightarrow> ep_entry c' = ep_entry c"
  by (simp add: ep_entry_def fun_eq_iff)

lemma ep_entry_set_other:
  "et_slot k \<noteq> i \<Longrightarrow> ep_entry (set_entry c i oe) k = ep_entry c k"
  by (simp add: ep_entry_def vec_get_update)

lemma ep_entry_set_same:
  assumes "ep_entry c k = Inr e" and "en_generation e' = en_generation e"
  shows "ep_entry (set_entry c (et_slot k) (Some e')) k' =
    (if k' = k then Inr e' else ep_entry c k')"
proof (cases "et_slot k' = et_slot k \<and> et_epoll k' = et_epoll k")
  case True
  with assms show ?thesis
    by (auto simp: ep_entry_def vec_get_def epoll_token.equality split: if_splits option.splits)
next
  case False
  with assms show ?thesis
    by (auto simp: ep_entry_def vec_get_def split: if_splits option.splits)
qed

lemma token_queued_set_same:
  assumes "ep_entry c k = Inr e" and "en_generation e' = en_generation e"
  shows "token_queued (set_entry c (et_slot k) (Some e')) k' \<longleftrightarrow>
    (if k' = k then en_queued e' else token_queued c k')"
  using assms by (simp add: token_queued_def ep_entry_set_same)

lemma ep_entry_same_slot:
  "ep_entry c k = Inr e \<Longrightarrow> ep_entry c k' = Inr e' \<Longrightarrow> et_slot k' = et_slot k \<Longrightarrow> k' = k"
  by (auto simp: ep_entry_Inr_iff)

lemma entry_gen_Some [simp]: "entry_gen (Some e) = Some (en_generation e)" "entry_gen None = None"
  by (simp_all add: entry_gen_def)

lemma entry_key_Some [simp]:
  "entry_key (Some e) = Some (ei_key (en_interest e))" "entry_key None = None"
  by (simp_all add: entry_key_def)

lemma ep_inv_entry_ok: "ep_inv c \<Longrightarrow> ep_entry c k = Inr e \<Longrightarrow> entry_ok e"
  unfolding ep_inv_def ep_entry_Inr_iff by (metis nth_mem)

lemma entries_ok_update:
  "(\<forall>e. Some e \<in> set es \<longrightarrow> entry_ok e) \<Longrightarrow> (\<And>e. oe = Some e \<Longrightarrow> entry_ok e) \<Longrightarrow>
   (\<forall>e. Some e \<in> set (es[i := oe]) \<longrightarrow> entry_ok e)"
  by (metis set_list_update_cases)

section \<open>The queue never overflows\<close>

lemma queue_room:
  assumes "table_ok c" and "queue_ok c" and "ep_entry c k = Inr e" and "\<not> en_queued e"
  shows "length (rq_list (ec_ready c)) < rq_capacity (ec_ready c)"
proof -
  let ?ks = "rq_list (ec_ready c)" and ?n = "length (ec_entries c)"
  have q: "k' \<in> set ?ks \<Longrightarrow> \<exists>e'. ep_entry c k' = Inr e' \<and> en_queued e'" for k'
    using assms(2) by (auto simp: queue_ok_def token_queued_iff)
  then have slot: "k' \<in> set ?ks \<Longrightarrow> et_slot k' < ?n \<and> et_slot k' \<noteq> et_slot k" for k'
    using assms(3,4) ep_entry_same_slot by (fastforce simp: ep_entry_Inr_iff)
  have "inj_on et_slot (set ?ks)"
    by (rule inj_onI) (metis q ep_entry_same_slot)
  then have "length ?ks = card (et_slot ` set ?ks)"
    using assms(2) by (simp add: queue_ok_def card_image distinct_card)
  also have "\<dots> \<le> card ({..<?n} - {et_slot k})"
    using slot by (intro card_mono) auto
  also have "\<dots> < ?n"
    using assms(3) by (auto simp: ep_entry_Inr_iff)
  finally show ?thesis using assms(1) by (simp add: table_ok_def)
qed

section \<open>Preservation\<close>

text \<open>Writing back a live entry under its own generation and key keeps the table well-formed.\<close>

lemma table_ok_update:
  assumes "table_ok c" and "ep_entry c k = Inr e" and "en_generation e' = en_generation e"
    and "en_interest e' = en_interest e"
  shows "table_ok (set_entry c (et_slot k) (Some e'))"
proof -
  have s: "et_slot k < length (ec_entries c)" "ec_entries c ! et_slot k = Some e"
    using assms(2) by (auto simp: ep_entry_Inr_iff)
  note keep = keys_below_update_keep [OF _ s(1)] distinct_keys_update_keep [OF _ s(1)]
  show ?thesis
    using assms(1,3,4) s(2) by (simp add: table_ok_def keep)
qed

text \<open>An update of one live entry that keeps its generation, its interest and its queue mark.\<close>

lemma ep_inv_update_entry:
  assumes "ep_inv c" and "ep_entry c k = Inr e" and "en_generation e' = en_generation e"
    and "en_interest e' = en_interest e" and "en_queued e' = en_queued e" and "entry_ok e'"
  shows "ep_inv (set_entry c (et_slot k) (Some e'))"
proof -
  have "table_ok (set_entry c (et_slot k) (Some e'))"
    using assms(1-4) by (auto simp: ep_inv_def intro: table_ok_update)
  moreover have "queue_ok (set_entry c (et_slot k) (Some e'))"
    using assms(1,2,3,5) by (auto simp: ep_inv_def queue_ok_def token_queued_set_same)
      (auto simp: token_queued_iff)
  moreover have "\<forall>x. Some x \<in> set (ec_entries (set_entry c (et_slot k) (Some e'))) \<longrightarrow> entry_ok x"
    using assms(1,6) unfolding ep_inv_def set_entry_fields
    by (intro entries_ok_update) auto
  ultimately show ?thesis by (simp add: ep_inv_def)
qed

text \<open>
  Enqueueing: the state has the invariant except that entry \<open>k\<close> is ready and not yet marked;
  the shared tail of notification and delivery succeeds and restores the invariant.
\<close>

lemma enqueue_token_inv:
  assumes tab: "table_ok c" and que: "queue_ok c" and k: "ep_entry c k = Inr e"
    and nq: "\<not> en_queued e" and e': "entry_ok (e\<lparr>en_queued := True\<rparr>)"
    and others: "\<forall>x. Some x \<in> set ((ec_entries c)[et_slot k := None]) \<longrightarrow> entry_ok x"
  shows "\<exists>c'. enqueue_token c k = (c', Inr ()) \<and> ep_inv c' \<and> ec_id c' = ec_id c \<and>
    rq_list (ec_ready c') = rq_list (ec_ready c) @ [k] \<and>
    ec_entries c' = (ec_entries c)[et_slot k := Some (e\<lparr>en_queued := True\<rparr>)] \<and>
    ec_next_generation c' = ec_next_generation c"
proof -
  let ?e = "e\<lparr>en_queued := True\<rparr>"
  have inv: "rq_inv (ec_ready c)" using tab by (simp add: table_ok_def)
  obtain q where q: "rq_push (ec_ready c) k = Some q"
    using rq.push_room [OF inv queue_room [OF tab que k nq]] by blast
  note push = rq.push_ok [OF inv q]
  let ?c1 = "c\<lparr>ec_ready := q\<rparr>"
  let ?c = "set_entry ?c1 (et_slot k) (Some ?e)"
  have ent: "ep_entry ?c1 = ep_entry c" by (rule ep_entry_unfold_fields) simp_all
  have tq: "token_queued ?c1 = token_queued c" by (simp add: token_queued_def fun_eq_iff ent)
  have "table_ok ?c1" using tab push by (simp add: table_ok_def)
  then have "table_ok ?c"
    using k by (intro table_ok_update [where e = e]) (simp_all add: ent)
  moreover have "queue_ok ?c"
  proof -
    have "token_queued ?c k' \<longleftrightarrow> k' = k \<or> token_queued c k'" for k'
      using k by (subst token_queued_set_same [where e = e]) (auto simp: ent tq)
    moreover have "k \<notin> set (rq_list (ec_ready c))"
      using que nq k by (auto simp: queue_ok_def token_queued_iff)
    ultimately show ?thesis using que push by (auto simp: queue_ok_def)
  qed
  moreover have "\<forall>x. Some x \<in> set (ec_entries ?c) \<longrightarrow> entry_ok x"
    using entries_ok_update [OF others, of "Some ?e" "et_slot k"] e' by auto
  ultimately have "ep_inv ?c" by (simp add: ep_inv_def)
  then show ?thesis
    using q k push by (simp add: enqueue_token_def ent)
qed

lemma others_ok:
  "ep_inv c \<Longrightarrow> \<forall>x. Some x \<in> set ((ec_entries c)[i := None]) \<longrightarrow> entry_ok x"
  unfolding ep_inv_def by (blast dest: set_list_update_cases)

lemma enqueue_updated_inv:
  assumes "ep_inv c" and k: "ep_entry c k = Inr e" and nq: "\<not> en_queued e"
    and "en_generation e' = en_generation e" "en_interest e' = en_interest e"
    and "\<not> en_queued e'" and "entry_ok (e'\<lparr>en_queued := True\<rparr>)"
  shows "\<exists>c'. enqueue_token (set_entry c (et_slot k) (Some e')) k = (c', Inr ()) \<and> ep_inv c' \<and>
    ec_id c' = ec_id c \<and> rq_list (ec_ready c') = rq_list (ec_ready c) @ [k] \<and>
    ec_entries c' = (ec_entries c)[et_slot k := Some (e'\<lparr>en_queued := True\<rparr>)] \<and>
    ec_next_generation c' = ec_next_generation c"
proof -
  let ?c = "set_entry c (et_slot k) (Some e')"
  have "table_ok ?c"
    using assms(1,4,5) k by (auto simp: ep_inv_def intro: table_ok_update)
  moreover have "queue_ok ?c"
    using assms(1,4,6) k nq by (auto simp: ep_inv_def queue_ok_def token_queued_set_same)
      (auto simp: token_queued_iff)
  moreover have "ep_entry ?c k = Inr e'" using k assms(4) by (simp add: ep_entry_set_same)
  moreover have "\<forall>x. Some x \<in> set ((ec_entries ?c)[et_slot k := None]) \<longrightarrow> entry_ok x"
    using others_ok [OF assms(1)] by simp
  ultimately have "\<exists>c'. enqueue_token ?c k = (c', Inr ()) \<and> ep_inv c' \<and> ec_id c' = ec_id ?c \<and>
      rq_list (ec_ready c') = rq_list (ec_ready ?c) @ [k] \<and>
      ec_entries c' = (ec_entries ?c)[et_slot k := Some (e'\<lparr>en_queued := True\<rparr>)] \<and>
      ec_next_generation c' = ec_next_generation ?c"
    using assms(6,7) by (intro enqueue_token_inv) auto
  then show ?thesis by simp
qed

section \<open>Replacing a slot\<close>

text \<open>
  \<open>EPOLL_CTL_ADD\<close>, \<open>MOD\<close> and \<open>DEL\<close> all write one slot with a vacancy or a fresh, unqueued entry
  after the queue has lost every token of that slot.
\<close>

definition fresh_content ::
  "('u, 's) epoll_core \<Rightarrow> nat \<Rightarrow> nat \<Rightarrow> ('u, 's) entry option \<Rightarrow> bool" where
  "fresh_content c i n oe \<longleftrightarrow>
     oe = None \<or>
     (\<exists>x. oe = Some (new_entry (ec_next_generation c) x) \<and> ec_next_generation c < n \<and>
        (\<forall>j < length (ec_entries c). j \<noteq> i \<longrightarrow> entry_key (ec_entries c ! j) \<noteq> Some (ei_key x)))"

lemma entry_ok_new_entry [simp]: "entry_ok (new_entry g x)"
  by (simp add: entry_ok_def new_entry_def)

lemma new_entry_sel [simp]:
  "en_generation (new_entry g x) = g" "en_interest (new_entry g x) = x"
  "\<not> en_queued (new_entry g x)"
  by (simp_all add: new_entry_def)

lemma slot_write_table:
  assumes "table_ok c" and "i < length (ec_entries c)" and "fresh_content c i n oe"
    and "ec_next_generation c \<le> n" and "n \<le> u64_max"
    and "rq_inv q" and "rq_capacity q = rq_capacity (ec_ready c)"
  shows "table_ok (set_entry (c\<lparr>ec_ready := q, ec_next_generation := n\<rparr>) i oe)"
proof -
  have gens: "keys_below entry_gen (ec_next_generation c) (ec_entries c)"
    "distinct_keys entry_gen (ec_entries c)" "distinct_keys entry_key (ec_entries c)"
    using assms(1) by (auto simp: table_ok_def)
  have "keys_below entry_gen n ((ec_entries c)[i := oe])"
    using assms(3) keys_below_mono [OF gens(1) assms(4)]
    by (intro keys_below_update) (auto simp: fresh_content_def)
  moreover have "distinct_keys entry_gen ((ec_entries c)[i := oe])"
    using assms(3) gens(1) by (intro distinct_keys_update [OF gens(2)])
      (auto simp: fresh_content_def dest: keys_below_nth)
  moreover have "distinct_keys entry_key ((ec_entries c)[i := oe])"
    using assms(3) by (intro distinct_keys_update [OF gens(3)]) (auto simp: fresh_content_def)
  ultimately show ?thesis using assms by (simp add: table_ok_def)
qed

lemma ep_entry_write_same:
  "i < length (ec_entries c) \<Longrightarrow>
   ep_entry (set_entry (c\<lparr>ec_ready := q, ec_next_generation := n\<rparr>) i oe) k =
     (if et_slot k \<noteq> i then ep_entry c k
      else case oe of None \<Rightarrow> Inl EpStaleToken
        | Some e \<Rightarrow> if et_epoll k = ec_id c \<and> en_generation e = et_generation k then Inr e
                    else Inl EpStaleToken)"
  by (auto simp: ep_entry_def vec_get_def split: option.splits)

lemma slot_write_inv:
  assumes inv: "ep_inv c" and i: "i < length (ec_entries c)" and fresh: "fresh_content c i n oe"
    and "ec_next_generation c \<le> n" and "n \<le> u64_max"
    and q: "rq_inv q" "rq_capacity q = rq_capacity (ec_ready c)"
      "rq_list q = filter (\<lambda>k. et_slot k \<noteq> i) (rq_list (ec_ready c))"
  shows "ep_inv (set_entry (c\<lparr>ec_ready := q, ec_next_generation := n\<rparr>) i oe)"
proof -
  let ?c = "set_entry (c\<lparr>ec_ready := q, ec_next_generation := n\<rparr>) i oe"
  have "token_queued ?c k \<longleftrightarrow> et_slot k \<noteq> i \<and> token_queued c k" for k
    using fresh i
    by (auto simp: token_queued_def ep_entry_write_same fresh_content_def split: if_splits)
  then have "queue_ok ?c"
    using inv q(3) by (auto simp: ep_inv_def queue_ok_def)
  moreover have "table_ok ?c"
    using inv assms by (intro slot_write_table) (auto simp: ep_inv_def)
  moreover have "\<forall>x. Some x \<in> set (ec_entries ?c) \<longrightarrow> entry_ok x"
    using entries_ok_update [of "ec_entries c" oe i] inv fresh
    by (auto simp: ep_inv_def fresh_content_def)
  ultimately show ?thesis by (simp add: ep_inv_def)
qed

text \<open>The state after a step offers no token that it did not offer before or freshly issued.\<close>

definition ep_evolves :: "('u, 's) epoll_core \<Rightarrow> ('u, 's) epoll_core \<Rightarrow> bool" where
  "ep_evolves c c' \<longleftrightarrow> ec_next_generation c \<le> ec_next_generation c' \<and>
     (\<forall>k. ep_holds c' k \<longrightarrow> ep_holds c k \<or> ec_next_generation c \<le> et_generation k)"

lemma ep_evolves_refl [simp]: "ep_evolves c c"
  by (simp add: ep_evolves_def)

lemma slot_write_evolves:
  assumes "i < length (ec_entries c)" and "fresh_content c i n oe" and "ec_next_generation c \<le> n"
  shows "ep_evolves c (set_entry (c\<lparr>ec_ready := q, ec_next_generation := n\<rparr>) i oe)"
  using assms
  by (auto simp: ep_evolves_def ep_holds_def ep_entry_write_same fresh_content_def
      split: if_splits option.splits)

lemma entry_update_evolves:
  assumes "ep_entry c k = Inr e" and "en_generation e' = en_generation e"
    and "ec_id c' = ec_id c" and "ec_entries c' = (ec_entries c)[et_slot k := Some e']"
    and "ec_next_generation c' = ec_next_generation c"
  shows "ep_evolves c c'"
proof -
  have "ep_entry c' = ep_entry (set_entry c (et_slot k) (Some e'))"
    using assms by (intro ep_entry_unfold_fields) simp_all
  then show ?thesis
    using assms by (auto simp: ep_evolves_def ep_holds_def ep_entry_set_same)
qed

lemma set_entry_evolves:
  assumes "ep_entry c k = Inr e" and "en_generation e' = en_generation e"
  shows "ep_evolves c (set_entry c (et_slot k) (Some e'))"
  by (rule entry_update_evolves [OF assms]) simp_all

lemma remove_queue_facts:
  assumes "ep_inv c" and "ep_entry c k = Inr e"
  shows "rq_inv (rq_remove (ec_ready c) k)"
    and "rq_capacity (rq_remove (ec_ready c) k) = rq_capacity (ec_ready c)"
    and "rq_list (rq_remove (ec_ready c) k) =
      filter (\<lambda>k'. et_slot k' \<noteq> et_slot k) (rq_list (ec_ready c))"
proof -
  have inv: "rq_inv (ec_ready c)" using assms(1) by (simp add: ep_inv_def table_ok_def)
  have "k' \<in> set (rq_list (ec_ready c)) \<Longrightarrow> k' \<noteq> k \<longleftrightarrow> et_slot k' \<noteq> et_slot k" for k'
    using assms ep_entry_same_slot
    by (fastforce simp: ep_inv_def queue_ok_def token_queued_iff)
  then show "rq_list (rq_remove (ec_ready c) k) =
      filter (\<lambda>k'. et_slot k' \<noteq> et_slot k) (rq_list (ec_ready c))"
    using rq.remove [OF inv, of k] by (metis (mono_tags, lifting) filter_cong)
qed (use assms in \<open>auto simp: ep_inv_def table_ok_def rq.remove\<close>)

lemma vacant_queue_facts:
  assumes "ep_inv c" and "ec_entries c ! i = None"
  shows "rq_list (ec_ready c) = filter (\<lambda>k. et_slot k \<noteq> i) (rq_list (ec_ready c))"
proof -
  have "k \<in> set (rq_list (ec_ready c)) \<Longrightarrow> et_slot k \<noteq> i" for k
    using assms by (auto simp: ep_inv_def queue_ok_def token_queued_iff ep_entry_Inr_iff)
  then show ?thesis by (simp add: filter_True)
qed

section \<open>The operations\<close>

lemma ep_add_Inl: "ep_add c i = (c', Inl e) \<Longrightarrow> c' = c \<and> epe_interest e = i"
  by (auto simp: ep_add_def ep_allocate_generation_def split: sum.splits if_splits option.splits)

lemma ep_add_Inr_iff:
  "ep_add c i = (c', Inr k) \<longleftrightarrow>
     \<not> im_exclusive (ei_mode i) \<and>
     (\<forall>e. Some e \<in> set (ec_entries c) \<longrightarrow> ei_key (en_interest e) \<noteq> ei_key i) \<and>
     position (\<lambda>oe. oe = None) (ec_entries c) = Some (et_slot k) \<and>
     ec_next_generation c < u64_max \<and>
     k = \<lparr>et_epoll = ec_id c, et_slot = et_slot k, et_generation = ec_next_generation c\<rparr> \<and>
     c' = set_entry (c\<lparr>ec_ready := ec_ready c, ec_next_generation := ec_next_generation c + 1\<rparr>)
            (et_slot k) (Some (new_entry (ec_next_generation c) i))"
  by (auto simp: ep_add_def ep_allocate_generation_def validate_mode_def list_ex_iff checked_iffs
      split: sum.splits if_splits option.splits)

lemma ep_modify_Inl: "ep_modify c k i = (c', Inl e) \<Longrightarrow> ep_inv c \<Longrightarrow> c' = c \<and> epe_interest e = i"
  by (auto simp: ep_modify_def ep_allocate_generation_def Let_def ep_entry_Inr_iff
      split: sum.splits if_splits option.splits)

lemma ep_modify_Inr_iff:
  "ep_modify c k i = (c', Inr (k', old)) \<longleftrightarrow>
     (\<exists>e. ep_entry c k = Inr e \<and> \<not> im_exclusive (ei_mode i) \<and>
        ei_key (en_interest e) = ei_key i \<and> ec_next_generation c < u64_max \<and>
        old = en_interest e \<and> k' = k\<lparr>et_generation := ec_next_generation c\<rparr> \<and>
        c' = set_entry (c\<lparr>ec_ready := rq_remove (ec_ready c) k,
                          ec_next_generation := ec_next_generation c + 1\<rparr>)
               (et_slot k) (Some (new_entry (ec_next_generation c) i)))"
  by (cases "ep_entry c k"; cases "ei_mode i")
    (auto simp: ep_modify_def ep_allocate_generation_def validate_mode_def Let_def checked_iffs
      ep_entry_nth split: option.splits)

lemma ep_remove_cases:
  "ep_remove c k = (case ep_entry c k of
     Inl e \<Rightarrow> (c, Inl e)
   | Inr e \<Rightarrow> (set_entry (c\<lparr>ec_ready := rq_remove (ec_ready c) k,
                            ec_next_generation := ec_next_generation c\<rparr>) (et_slot k) None,
              Inr (en_interest e)))"
  by (cases "ep_entry c k") (auto simp: ep_remove_def Let_def ep_entry_nth)

lemma ep_add_step:
  assumes "ep_inv c" and "ep_add c i = (c', r)"
  shows "ep_inv c' \<and> ep_evolves c c'"
proof (cases r)
  case (Inl e)
  with assms show ?thesis using ep_add_Inl by fastforce
next
  case (Inr k)
  let ?g = "ec_next_generation c"
  note f = assms(2) [unfolded Inr ep_add_Inr_iff]
  have slot: "et_slot k < length (ec_entries c)" "ec_entries c ! et_slot k = None"
    using f by (auto dest: position_SomeD)
  have "entry_key (ec_entries c ! j) \<noteq> Some (ei_key i)" if "j < length (ec_entries c)" for j
    using f that nth_mem [OF that] by (cases "ec_entries c ! j") auto
  then have fresh: "fresh_content c (et_slot k) (?g + 1) (Some (new_entry ?g i))"
    by (auto simp: fresh_content_def)
  have q: "rq_inv (ec_ready c)" using assms(1) by (simp add: ep_inv_def table_ok_def)
  from f slot fresh show ?thesis
    using slot_write_inv [OF assms(1) slot(1) fresh _ _ q refl vacant_queue_facts [OF assms(1) slot(2)]]
      slot_write_evolves [OF slot(1) fresh, of "ec_ready c"] by simp
qed

lemma ep_modify_step:
  assumes "ep_inv c" and "ep_modify c k i = (c', r)"
  shows "ep_inv c' \<and> ep_evolves c c'"
proof (cases r)
  case (Inl e)
  with assms show ?thesis using ep_modify_Inl by fastforce
next
  case (Inr p)
  let ?g = "ec_next_generation c"
  obtain k' old where p: "p = (k', old)" by (cases p)
  from assms(2) [unfolded Inr p ep_modify_Inr_iff] obtain e where
    e: "ep_entry c k = Inr e" "ei_key (en_interest e) = ei_key i" and g: "?g < u64_max" and
    c': "c' = set_entry (c\<lparr>ec_ready := rq_remove (ec_ready c) k, ec_next_generation := ?g + 1\<rparr>)
               (et_slot k) (Some (new_entry ?g i))" by blast
  have s: "et_slot k < length (ec_entries c)" "ec_entries c ! et_slot k = Some e"
    using e(1) by (auto simp: ep_entry_Inr_iff)
  have "distinct_keys entry_key (ec_entries c)" using assms(1) by (simp add: ep_inv_def table_ok_def)
  then have "entry_key (ec_entries c ! j) \<noteq> Some (ei_key i)"
    if "j < length (ec_entries c)" "j \<noteq> et_slot k" for j
    using distinct_keysD [of entry_key "ec_entries c" j "et_slot k" "ei_key i"] that s e(2) by auto
  then have fresh: "fresh_content c (et_slot k) (?g + 1) (Some (new_entry ?g i))"
    by (auto simp: fresh_content_def)
  show ?thesis unfolding c'
    using slot_write_inv [OF assms(1) s(1) fresh _ _ remove_queue_facts [OF assms(1) e(1)]]
      slot_write_evolves [OF s(1) fresh] g by simp
qed

lemma ep_remove_step:
  assumes "ep_inv c" and "ep_remove c k = (c', r)"
  shows "ep_inv c' \<and> ep_evolves c c'"
proof (cases "ep_entry c k")
  case (Inl e)
  with assms show ?thesis by (simp add: ep_remove_cases)
next
  case (Inr e)
  have s: "et_slot k < length (ec_entries c)" using Inr by (auto simp: ep_entry_Inr_iff)
  have fresh: "fresh_content c (et_slot k) (ec_next_generation c) None"
    by (simp add: fresh_content_def)
  have "ec_next_generation c \<le> u64_max" using assms(1) by (simp add: ep_inv_def table_ok_def)
  then show ?thesis
    using slot_write_inv [OF assms(1) s fresh _ _ remove_queue_facts [OF assms(1) Inr]]
      slot_write_evolves [OF s fresh] assms(2) Inr by (auto simp: ep_remove_cases)
qed

text \<open>Notification: each branch, and that the ring always has room.\<close>

lemma ep_notify_in_delivery:
  assumes "ep_inv c" and "ep_entry c k = Inr e" and "en_in_delivery e \<noteq> None"
  shows "ep_inv (set_entry c (et_slot k) (Some (e\<lparr>en_during_delivery := d\<rparr>)))"
  using assms ep_inv_entry_ok [OF assms(1,2)]
  by (intro ep_inv_update_entry) (auto simp: entry_ok_def)

lemma ep_notify_queued:
  assumes "ep_inv c" and "ep_entry c k = Inr e" and "en_queued e"
  shows "ep_inv (set_entry c (et_slot k) (Some (e\<lparr>en_ready := en_ready e OR d\<rparr>)))"
  using assms ep_inv_entry_ok [OF assms(1,2)]
  by (intro ep_inv_update_entry) (auto simp: entry_ok_def or_eq_0_iff)

lemma ep_notify_enqueue:
  assumes "ep_inv c" and "ep_entry c k = Inr e" and "en_enabled e" and "en_in_delivery e = None"
    and "\<not> en_queued e" and "d \<noteq> 0"
  shows "\<exists>c'. enqueue_token (set_entry c (et_slot k) (Some (e\<lparr>en_ready := en_ready e OR d\<rparr>))) k =
      (c', Inr ()) \<and> ep_inv c' \<and> ec_id c' = ec_id c \<and>
    rq_list (ec_ready c') = rq_list (ec_ready c) @ [k] \<and>
    ec_entries c' = (ec_entries c)[et_slot k :=
      Some (e\<lparr>en_ready := en_ready e OR d, en_queued := True\<rparr>)] \<and>
    ec_next_generation c' = ec_next_generation c"
  using enqueue_updated_inv [OF assms(1,2,5), of "e\<lparr>en_ready := en_ready e OR d\<rparr>"] assms
    ep_inv_entry_ok [OF assms(1,2)] by (auto simp: entry_ok_def or_eq_0_iff)

lemma ep_notify_step:
  assumes inv: "ep_inv c" and n: "ep_notify c k ready = (c', r)"
  shows "ep_inv c' \<and> ep_evolves c c' \<and> r \<in> {Inl EpStaleToken, Inr Ignored, Inr Coalesced, Inr Enqueued}"
proof (cases "ep_entry c k")
  case (Inl e)
  with n inv show ?thesis by (auto simp: ep_notify_def dest: ep_entry_Inl)
next
  case (Inr e)
  define d where "d = deliverable ready (ei_interest (en_interest e))"
  note def = ep_notify_def Inr Let_def d_def [symmetric]
  note evolves = set_entry_evolves [OF Inr]
  consider "\<not> en_enabled e \<or> d = 0" | "en_enabled e" "d \<noteq> 0" "en_in_delivery e \<noteq> None"
    | "en_enabled e" "d \<noteq> 0" "en_in_delivery e = None" "en_queued e"
    | "en_enabled e" "d \<noteq> 0" "en_in_delivery e = None" "\<not> en_queued e" by blast
  then show ?thesis
  proof cases
    case 1
    with n inv show ?thesis by (auto simp: def split: if_splits)
  next
    case 2
    with n inv ep_notify_in_delivery [OF inv Inr] show ?thesis by (auto simp: def evolves)
  next
    case 3
    with n ep_notify_queued [OF inv Inr] show ?thesis by (auto simp: def evolves)
  next
    case 4
    with n ep_notify_enqueue [OF inv Inr 4(1,3,4,2)]
      entry_update_evolves [OF Inr, of "e\<lparr>en_ready := en_ready e OR d, en_queued := True\<rparr>" c']
    show ?thesis by (auto simp: def)
  qed
qed

text \<open>Delivery: the first queued token is always current, so no item is ever skipped.\<close>

lemma peek_token_queued: "ep_inv c \<Longrightarrow> rq_peek (ec_ready c) = Some k \<Longrightarrow> token_queued c k"
  by (auto simp: ep_inv_def table_ok_def queue_ok_def rq.peek_Some_iff)

lemma prepare_delivery_eq:
  "ep_inv c \<Longrightarrow> prepare_delivery c = (c, Inr (rq_peek (ec_ready c)))"
  by (subst prepare_delivery.simps)
    (auto simp: peek_token_queued ep_inv_def table_ok_def split: option.splits)

definition delivered_state ::
  "('u, 's) epoll_core \<Rightarrow> epoll_token \<Rightarrow> ('u, 's) entry \<Rightarrow> ('u, 's) epoll_core" where
  "delivered_state c k e =
     set_entry (c\<lparr>ec_next_delivery := Suc (ec_next_delivery c), ec_ready := fst (rq_pop (ec_ready c))\<rparr>)
       (et_slot k)
       (Some (e\<lparr>en_queued := False, en_in_delivery := Some (ec_next_delivery c), en_ready := 0\<rparr>))"

lemma commit_delivery_cases:
  "commit_delivery c k u =
     (if rq_peek (ec_ready c) = Some k \<and> token_queued c k then
        if ec_next_delivery c < u64_max then
          (delivered_state c k (projr (ep_entry c k)),
           Inr (let ev = en_ready (projr (ep_entry c k)) in
             \<lparr>re_delivery = \<lparr>dl_interest = k, dl_serial = ec_next_delivery c, dl_events = ev\<rparr>,
              re_events = ev, re_user_data = u\<rparr>))
        else (c, Inl (DeliveryCommitError EpGenerationExhausted u))
      else (c, Inl (DeliveryCommitError EpStaleToken u)))"
proof -
  have "ep_entry (c\<lparr>ec_next_delivery := n, ec_ready := q\<rparr>) = ep_entry c" for n q
    by (rule ep_entry_unfold_fields) simp_all
  then show ?thesis
    by (auto simp: commit_delivery_def ep_allocate_delivery_def delivered_state_def Let_def
        token_queued_iff checked_iffs split: option.splits)
qed

lemma delivered_state_inv:
  assumes inv: "ep_inv c" and peek: "rq_peek (ec_ready c) = Some k" and e: "ep_entry c k = Inr e"
    and "ec_next_delivery c < u64_max"
  shows "ep_inv (delivered_state c k e)"
proof -
  let ?q = "fst (rq_pop (ec_ready c))"
  let ?c1 = "c\<lparr>ec_next_delivery := Suc (ec_next_delivery c), ec_ready := ?q\<rparr>"
  let ?e = "e\<lparr>en_queued := False, en_in_delivery := Some (ec_next_delivery c), en_ready := 0\<rparr>"
  have "rq_inv (ec_ready c)" using inv by (simp add: ep_inv_def table_ok_def)
  note pop = rq.pop_peek [OF this peek]
  have ent: "ep_entry ?c1 = ep_entry c" by (rule ep_entry_unfold_fields) simp_all
  have tq: "token_queued ?c1 = token_queued c" by (simp add: token_queued_def fun_eq_iff ent)
  have "table_ok ?c1" using inv pop assms(4) by (simp add: ep_inv_def table_ok_def)
  then have "table_ok (delivered_state c k e)" unfolding delivered_state_def
    using e by (intro table_ok_update [where e = e]) (simp_all add: ent)
  moreover have "queue_ok (delivered_state c k e)"
  proof -
    have "ep_entry ?c1 k = Inr e" by (simp only: ent e)
    then have "token_queued (delivered_state c k e) k' \<longleftrightarrow>
        (if k' = k then en_queued ?e else token_queued ?c1 k')" for k'
      unfolding delivered_state_def by (rule token_queued_set_same) simp
    then have "token_queued (delivered_state c k e) k' \<longleftrightarrow> k' \<noteq> k \<and> token_queued c k'" for k'
      by (simp add: tq)
    moreover have "rq_list (ec_ready (delivered_state c k e)) = rq_list ?q"
      by (simp add: delivered_state_def)
    moreover have "distinct (k # rq_list ?q)" "\<forall>k'. k' \<in> set (k # rq_list ?q) \<longleftrightarrow> token_queued c k'"
      using inv pop by (simp_all add: ep_inv_def queue_ok_def)
    ultimately show ?thesis by (auto simp: queue_ok_def)
  qed
  moreover have "\<forall>x. Some x \<in> set (ec_entries (delivered_state c k e)) \<longrightarrow> entry_ok x"
  proof -
    have "entry_ok ?e" using ep_inv_entry_ok [OF inv e] by (simp add: entry_ok_def)
    then show ?thesis
      using inv unfolding ep_inv_def delivered_state_def set_entry_fields epoll_core.simps
      by (intro entries_ok_update) auto
  qed
  ultimately show ?thesis by (simp add: ep_inv_def)
qed

lemma commit_delivery_step:
  assumes "ep_inv c" and "commit_delivery c k u = (c', r)"
  shows "ep_inv c' \<and> ep_evolves c c'"
proof (cases "rq_peek (ec_ready c) = Some k \<and> token_queued c k \<and> ec_next_delivery c < u64_max")
  case True
  then obtain e where e: "ep_entry c k = Inr e" by (auto simp: token_queued_iff)
  have "ep_evolves c (delivered_state c k e)"
    by (rule entry_update_evolves [OF e]) (simp_all add: delivered_state_def)
  with True e assms delivered_state_inv [OF assms(1) _ e] show ?thesis
    by (auto simp: commit_delivery_cases)
next
  case False
  with assms show ?thesis by (auto simp: commit_delivery_cases split: if_splits)
qed

lemma begin_delivery_eq:
  assumes "ep_inv c"
  shows "begin_delivery c = (case rq_peek (ec_ready c) of
     None \<Rightarrow> (c, Inr None)
   | Some k \<Rightarrow>
       (case commit_delivery c k (ei_user_data (en_interest (projr (ep_entry c k)))) of
          (c', Inl e) \<Rightarrow> (c', Inl (dce_error e)) | (c', Inr ev) \<Rightarrow> (c', Inr (Some ev))))"
  using peek_token_queued [OF assms]
  by (auto simp: begin_delivery_def prepare_delivery_eq [OF assms] token_queued_iff
      split: option.splits)

lemma delivered_state_entry:
  assumes "ep_entry c k = Inr e"
  shows "ep_entry (delivered_state c k e) k' =
    (if k' = k then Inr (e\<lparr>en_queued := False, en_in_delivery := Some (ec_next_delivery c),
       en_ready := 0\<rparr>) else ep_entry c k')"
proof -
  let ?c1 = "c\<lparr>ec_next_delivery := Suc (ec_next_delivery c), ec_ready := fst (rq_pop (ec_ready c))\<rparr>"
  have ent: "ep_entry ?c1 = ep_entry c" by (rule ep_entry_unfold_fields) simp_all
  show ?thesis unfolding delivered_state_def
    using assms by (subst ep_entry_set_same [of ?c1 k e]) (simp_all only: ent, simp_all)
qed

lemma begin_delivery_head:
  assumes inv: "ep_inv c" and q: "rq_list (ec_ready c) = k # ks"
    and serial: "ec_next_delivery c < u64_max" and e: "ep_entry c k = Inr e"
  shows "begin_delivery c = (delivered_state c k e, Inr (Some
      \<lparr>re_delivery = \<lparr>dl_interest = k, dl_serial = ec_next_delivery c, dl_events = en_ready e\<rparr>,
       re_events = en_ready e, re_user_data = ei_user_data (en_interest e)\<rparr>))"
    and "rq_list (ec_ready (delivered_state c k e)) = ks"
proof -
  have rq: "rq_inv (ec_ready c)" using inv by (simp add: ep_inv_def table_ok_def)
  then have peek: "rq_peek (ec_ready c) = Some k" using q by (simp add: rq.peek_Some_iff)
  with peek_token_queued [OF inv peek] e serial
  show "begin_delivery c = (delivered_state c k e, Inr (Some
      \<lparr>re_delivery = \<lparr>dl_interest = k, dl_serial = ec_next_delivery c, dl_events = en_ready e\<rparr>,
       re_events = en_ready e, re_user_data = ei_user_data (en_interest e)\<rparr>))"
    by (simp add: begin_delivery_eq [OF inv] commit_delivery_cases Let_def)
  show "rq_list (ec_ready (delivered_state c k e)) = ks"
    using rq.pop_peek [OF rq peek] q by (simp add: delivered_state_def)
qed

lemma begin_delivery_step:
  assumes "ep_inv c" and "begin_delivery c = (c', r)"
  shows "ep_inv c' \<and> ep_evolves c c'"
proof (cases "rq_peek (ec_ready c)")
  case None
  with assms show ?thesis by (simp add: begin_delivery_eq)
next
  case (Some k)
  let ?u = "ei_user_data (en_interest (projr (ep_entry c k)))"
  obtain c1 r1 where d: "commit_delivery c k ?u = (c1, r1)" by (cases "commit_delivery c k ?u")
  then have "c' = c1" using assms Some by (auto simp: begin_delivery_eq split: sum.splits)
  then show ?thesis using commit_delivery_step [OF assms(1) d] by simp
qed

text \<open>Settlement of a delivery.\<close>

definition settled :: "delivery_outcome \<Rightarrow> ready_mask \<Rightarrow> ('u, 's) entry \<Rightarrow> ('u, 's) entry" where
  "settled oc events e =
     (settle_entry oc events (e\<lparr>en_in_delivery := None\<rparr>))\<lparr>en_during_delivery := 0\<rparr>"

lemma settled_sel [simp]:
  "en_generation (settled oc ev e) = en_generation e"
  "en_interest (settled oc ev e) = en_interest e"
  "en_queued (settled oc ev e) = en_queued e"
  "en_in_delivery (settled oc ev e) = None"
  "en_during_delivery (settled oc ev e) = 0"
  by (cases oc; simp add: settled_def Let_def)+

lemma finish_delivery_cases:
  "finish_delivery c d oc =
     (case ep_entry c (dl_interest d) of
        Inl e \<Rightarrow> (c, Inl e)
      | Inr e \<Rightarrow>
          if en_in_delivery e \<noteq> Some (dl_serial d) then (c, Inl EpStaleToken)
          else let e1 = settled oc (dl_events d) e;
                   c1 = set_entry c (et_slot (dl_interest d)) (Some e1)
               in if en_enabled e1 \<and> en_ready e1 \<noteq> 0 \<and> \<not> en_queued e1
                  then enqueue_token c1 (dl_interest d) else (c1, Inr ()))"
  by (simp add: finish_delivery_def settled_def Let_def cong: sum.case_cong if_cong)

lemma finish_delivery_ok:
  fixes oc :: delivery_outcome
  assumes inv: "ep_inv c" and e: "ep_entry c (dl_interest d) = Inr e"
    and serial: "en_in_delivery e = Some (dl_serial d)"
  defines "e1 \<equiv> settled oc (dl_events d) e" and "k \<equiv> dl_interest d"
  defines "again \<equiv> en_enabled e1 \<and> en_ready e1 \<noteq> 0"
  shows "\<exists>c'. finish_delivery c d oc = (c', Inr ()) \<and> ep_inv c' \<and> ec_id c' = ec_id c \<and>
    ec_entries c' = (ec_entries c)[et_slot k := Some (e1\<lparr>en_queued := again\<rparr>)] \<and>
    rq_list (ec_ready c') = rq_list (ec_ready c) @ (if again then [k] else []) \<and>
    ec_next_generation c' = ec_next_generation c"
proof -
  have nq: "\<not> en_queued e" using ep_inv_entry_ok [OF inv e] serial by (simp add: entry_ok_def)
  then have sel: "\<not> en_queued e1" "en_in_delivery e1 = None" "en_during_delivery e1 = 0"
    "en_generation e1 = en_generation e" "en_interest e1 = en_interest e"
    by (simp_all add: e1_def)
  have fin: "finish_delivery c d oc =
      (let c1 = set_entry c (et_slot k) (Some e1)
       in if again then enqueue_token c1 k else (c1, Inr ()))"
    using e serial sel(1) by (simp add: finish_delivery_cases e1_def k_def again_def Let_def)
  show ?thesis
  proof (cases again)
    case True
    then have "entry_ok (e1\<lparr>en_queued := True\<rparr>)" using sel by (simp add: entry_ok_def again_def)
    then show ?thesis
      using enqueue_updated_inv [OF inv e [folded k_def] nq, of e1] sel True by (auto simp: fin Let_def)
  next
    case False
    then have ok: "entry_ok e1" using sel by (auto simp: entry_ok_def again_def)
    have same: "e1\<lparr>en_queued := False\<rparr> = e1" using sel(1) by (cases e1) simp
    from ok show ?thesis
      using ep_inv_update_entry [OF inv e [folded k_def], of e1] sel False nq
      by (simp add: fin Let_def same)
  qed
qed

lemma finish_delivery_step:
  assumes inv: "ep_inv c" and f: "finish_delivery c d oc = (c', r)"
  shows "ep_inv c' \<and> ep_evolves c c' \<and> r \<in> {Inl EpStaleToken, Inr ()}"
proof (cases "\<exists>e. ep_entry c (dl_interest d) = Inr e \<and> en_in_delivery e = Some (dl_serial d)")
  case True
  then obtain e where e: "ep_entry c (dl_interest d) = Inr e" "en_in_delivery e = Some (dl_serial d)"
    by blast
  let ?e = "settled oc (dl_events d) e"
  let ?e = "?e\<lparr>en_queued := en_enabled ?e \<and> en_ready ?e \<noteq> 0\<rparr>"
  show ?thesis
    using finish_delivery_ok [OF inv e, of oc] f entry_update_evolves [OF e(1), of ?e c'] by auto
next
  case False
  with f inv show ?thesis
    by (auto simp: finish_delivery_cases split: sum.splits dest: ep_entry_Inl)
qed

lemma rescan_ready_inert: "ep_inv c \<Longrightarrow> rescan_ready c k n = (c, Inl EpStaleToken)"
  by (simp add: rescan_ready_def ep_inv_def table_ok_def)

section \<open>Steps and stale tokens\<close>

inductive ep_step :: "('u, 's) epoll_core \<Rightarrow> ('u, 's) epoll_core \<Rightarrow> bool" where
  step_add: "ep_add c i = (c', r1) \<Longrightarrow> ep_step c c'"
| step_modify: "ep_modify c k i = (c', r2) \<Longrightarrow> ep_step c c'"
| step_remove: "ep_remove c k = (c', r3) \<Longrightarrow> ep_step c c'"
| step_notify: "ep_notify c k ready = (c', r4) \<Longrightarrow> ep_step c c'"
| step_prepare: "prepare_delivery c = (c', r5) \<Longrightarrow> ep_step c c'"
| step_commit: "commit_delivery c k (u :: 'u) = (c', r6) \<Longrightarrow> ep_step c c'"
| step_begin: "begin_delivery c = (c', r7) \<Longrightarrow> ep_step c c'"
| step_finish: "finish_delivery c d oc = (c', r8) \<Longrightarrow> ep_step c c'"
| step_rescan: "rescan_ready c rk n = (c', r9) \<Longrightarrow> ep_step c c'"

lemma ep_step_inv:
  assumes "ep_step c c'" and "ep_inv c"
  shows "ep_inv c' \<and> ep_evolves c c'"
  using assms
proof (induction rule: ep_step.induct)
  case (step_add c i c' r1)
  then show ?case using ep_add_step by blast
next
  case (step_modify c k i c' r2)
  then show ?case using ep_modify_step by blast
next
  case (step_remove c k c' r3)
  then show ?case using ep_remove_step by blast
next
  case (step_notify c k ready c' r4)
  then show ?case using ep_notify_step by blast
next
  case (step_prepare c c' r5)
  then show ?case by (simp add: prepare_delivery_eq)
next
  case (step_commit c k u c' r6)
  then show ?case by (intro commit_delivery_step)
next
  case (step_begin c c' r7)
  then show ?case using begin_delivery_step by blast
next
  case (step_finish c d oc c' r8)
  then show ?case using finish_delivery_step by blast
next
  case (step_rescan c rk n c' r9)
  then show ?case by (simp add: rescan_ready_inert)
qed

interpretation interests: generation_domain ep_inv ep_step ep_holds et_generation ec_next_generation
proof
  fix s t :: "('u, 's) epoll_core" and k
  assume inv: "ep_inv s"
  show "ep_holds s k \<Longrightarrow> et_generation k < ec_next_generation s"
    using inv keys_below_nth [of entry_gen "ec_next_generation s" "ec_entries s" "et_slot k"]
    by (auto simp: ep_inv_def table_ok_def ep_holds_def ep_entry_Inr_iff)
  assume step: "ep_step s t"
  note st = ep_step_inv [OF step inv]
  show "ep_inv t" "ec_next_generation s \<le> ec_next_generation t"
    using st by (simp_all add: ep_evolves_def)
  show "ep_holds t k \<Longrightarrow> ep_holds s k \<or> ec_next_generation s \<le> et_generation k"
    using st by (simp add: ep_evolves_def)
qed

lemma ep_try_new_inv: "ep_try_new alloc_ok i n = Inr c \<Longrightarrow> ep_inv c"
  using rq_try_new_inv [of alloc_ok n "\<lparr>et_epoll = i, et_slot = 0, et_generation = 0\<rparr>"]
  by (auto simp: ep_try_new_def ep_inv_def table_ok_def queue_ok_def token_queued_iff
      ep_entry_Inr_iff int_max_numerals split: if_splits option.splits)

end
