(* ===== verification/Epoll_Props.thy ===== *)
theory Epoll_Props
  imports Epoll_Safety
begin

text \<open>
  What a client of the epoll core may rely on: no readiness is lost, the ring never
  overflows, tokens that were modified or removed stay dead, deliveries are first in first
  out and a settled delivery re-queues exactly when there is something left to report.
  Each property has a closed instance on the small core below.
\<close>

unbundle bit_operations_syntax

section \<open>An example core\<close>

definition ex_interest :: "bool \<Rightarrow> (nat, unit) epoll_interest" where
  "ex_interest one_shot =
     \<lparr>ei_key = \<lparr>ek_ofd = 1, ek_fd = 3\<rparr>, ei_interest = 1,
      ei_mode = \<lparr>im_edge = False, im_one_shot = one_shot, im_exclusive = False\<rparr>,
      ei_user_data = 42, ei_subscription = ()\<rparr>"

definition ex_core :: "(nat, unit) epoll_core" where
  "ex_core = projr (ep_try_new (\<lambda>_. True) 9 2)"

definition ex_token :: epoll_token where
  "ex_token = \<lparr>et_epoll = 9, et_slot = 0, et_generation = 1\<rparr>"

definition ex_armed :: "bool \<Rightarrow> (nat, unit) epoll_core" where
  "ex_armed one_shot = fst (ep_add ex_core (ex_interest one_shot))"

definition ex_ready_core :: "bool \<Rightarrow> (nat, unit) epoll_core" where
  "ex_ready_core os = fst (ep_notify (ex_armed os) ex_token 5)"

lemma ex_core_eq: "ep_try_new (\<lambda>_. True) 9 2 = Inr ex_core"
  by (simp add: ex_core_def ep_try_new_def rq_try_new_def int_max_numerals)

lemma ex_core_unfold:
  "ex_core = \<lparr>ec_id = 9, ec_entries = [None, None],
     ec_ready = \<lparr>rq_items = replicate 2 (ex_token\<lparr>et_generation := 0\<rparr>), rq_head = 0, rq_len = 0\<rparr>,
     ec_next_generation = 1, ec_next_delivery = 1, ec_next_rescan = 1, ec_rescan = None\<rparr>"
  by (simp add: ex_core_def ex_token_def ep_try_new_def rq_try_new_def int_max_numerals
      numeral_2_eq_2)

lemma ex_add_eq: "ep_add ex_core (ex_interest os) = (ex_armed os, Inr ex_token)"
  by (simp add: ex_armed_def ep_add_def ex_core_unfold ex_interest_def validate_mode_def
      ep_allocate_generation_def checked_add_def ex_token_def int_max_numerals)

lemma ex_armed_entry:
  "ep_entry (ex_armed os) ex_token = Inr (new_entry 1 (ex_interest os))"
  "ec_next_delivery (ex_armed os) = 1" "ec_next_generation (ex_armed os) = 2"
  "rq_list (ec_ready (ex_armed os)) = []"
  by (simp_all add: ex_armed_def ep_add_def ex_core_unfold ex_interest_def validate_mode_def
      ep_allocate_generation_def checked_add_def ex_token_def int_max_numerals ep_entry_def
      set_entry_def vec_get_def rq_list_def)

lemma ex_armed_reach: "ep_step\<^sup>*\<^sup>* ex_core (ex_armed os)"
  by (rule r_into_rtranclp) (rule step_add [OF ex_add_eq])

lemma ex_armed_inv: "ep_inv (ex_armed os)"
  using ep_add_step [OF ep_try_new_inv [OF ex_core_eq] ex_add_eq] by simp

lemma ex_deliverable: "deliverable 5 1 = 1"
  by (simp add: deliverable_def READY_UNCONDITIONAL_def READY_ERROR_def READY_HANGUP_def
      READY_INVALID_def)

text \<open>The readiness that remains once a delivery of \<open>events\<close> is settled with an outcome.\<close>

fun left_over :: "delivery_outcome \<Rightarrow> ready_mask \<Rightarrow> ('u, 's) entry \<Rightarrow> ready_mask" where
  "left_over Fault events e = events OR en_during_delivery e"
| "left_over Suppressed events e = en_during_delivery e"
| "left_over (Copied still) events e = en_during_delivery e OR
     (if im_edge (ei_mode (en_interest e)) then 0 else deliverable still (ei_interest (en_interest e)))"

section \<open>Properties\<close>

text \<open>
  C10. No lost and no spurious readiness. In every state reachable from a fresh epoll core
  by any sequence of operations, an interest is in the ready queue exactly when it is
  enabled, has recorded readiness and is not being delivered; no interest is queued twice
  and the queue never holds a token of a dead interest.
\<close>

theorem no_lost_readiness:
  assumes "ep_try_new alloc_ok i n = Inr c0" and "ep_step\<^sup>*\<^sup>* c0 c"
  shows "distinct (rq_list (ec_ready c)) \<and>
    (k \<in> set (rq_list (ec_ready c)) \<longleftrightarrow>
      (\<exists>e. ep_entry c k = Inr e \<and> en_enabled e \<and> en_ready e \<noteq> 0 \<and> en_in_delivery e = None))"
proof -
  have inv: "ep_inv c"
    using interests.inv_steps [OF assms(2)] ep_try_new_inv [OF assms(1)] by blast
  show ?thesis
    using inv ep_inv_entry_ok [OF inv]
    by (auto simp: ep_inv_def queue_ok_def token_queued_iff entry_ok_def)
qed

theorem no_lost_readiness_witness:
  "ex_token \<in> set (rq_list (ec_ready (fst (ep_notify (ex_armed False) ex_token 5)))) \<longleftrightarrow>
   (\<exists>e. ep_entry (fst (ep_notify (ex_armed False) ex_token 5)) ex_token = Inr e \<and> en_enabled e \<and>
      en_ready e \<noteq> 0 \<and> en_in_delivery e = None)"
proof -
  have "ep_step\<^sup>*\<^sup>* ex_core (fst (ep_notify (ex_armed False) ex_token 5))"
    by (rule rtranclp.rtrancl_into_rtrancl [OF ex_armed_reach])
      (rule step_notify [OF prod.collapse [symmetric]])
  then show ?thesis by (rule no_lost_readiness [OF ex_core_eq, THEN conjunct2])
qed

text \<open>
  C11. The ready ring never overflows. In every reachable state a notification answers a
  stale token or one of its three outcomes, a settlement answers a stale token or success,
  taking a delivery never asks for a rescan and none is pending: the errors
  \<open>ReadyQueueFull\<close> and \<open>RescanRequired\<close> cannot occur.
\<close>

theorem ready_queue_never_full:
  assumes "ep_try_new alloc_ok i n = Inr c0" and "ep_step\<^sup>*\<^sup>* c0 c"
  shows "snd (ep_notify c k ready) \<in>
      {Inl EpStaleToken, Inr Ignored, Inr Coalesced, Inr Enqueued} \<and>
    snd (finish_delivery c d oc) \<in> {Inl EpStaleToken, Inr ()} \<and>
    prepare_delivery c = (c, Inr (rq_peek (ec_ready c))) \<and>
    ec_rescan c = None"
proof -
  have inv: "ep_inv c"
    using interests.inv_steps [OF assms(2)] ep_try_new_inv [OF assms(1)] by blast
  show ?thesis
    using ep_notify_step [OF inv prod.collapse [symmetric], of k ready]
      finish_delivery_step [OF inv prod.collapse [symmetric], of d oc]
      prepare_delivery_eq [OF inv] inv by (simp add: ep_inv_def table_ok_def)
qed

theorem ready_queue_never_full_witness:
  "snd (ep_notify (ex_armed True) ex_token 5) \<in>
     {Inl EpStaleToken, Inr Ignored, Inr Coalesced, Inr Enqueued}"
  using ready_queue_never_full [OF ex_core_eq ex_armed_reach] by blast

text \<open>
  C12. Tokens of removed or modified interests are dead for ever: after \<open>EPOLL_CTL_DEL\<close> or
  \<open>EPOLL_CTL_MOD\<close> succeeded on \<open>k\<close>, no sequence of operations (additions that reuse the slot
  included) makes \<open>k\<close> acceptable again. It is never in the ready queue, so it is never
  delivered, and every operation that takes a token refuses it and changes nothing:
  notification, removal, committing a delivery and settling one report \<open>StaleToken\<close>, and so does
  a modification, which however checks the requested mode first and reports an unsupported
  one.
\<close>

theorem dead_token_rejected:
  assumes "ep_inv c"
    and "ep_remove c k = (c1, Inr old) \<or> ep_modify c k i = (c1, Inr (k', old))"
    and "ep_step\<^sup>*\<^sup>* c1 c2"
  shows "k \<notin> set (rq_list (ec_ready c2)) \<and>
    ep_notify c2 k ready = (c2, Inl EpStaleToken) \<and>
    ep_remove c2 k = (c2, Inl EpStaleToken) \<and>
    ep_modify c2 k i' = (c2, Inl (EpollPublishError
      (if im_exclusive (ei_mode i') then EpUnsupportedMode else EpStaleToken) i')) \<and>
    commit_delivery c2 k u = (c2, Inl (DeliveryCommitError EpStaleToken u)) \<and>
    (dl_interest d = k \<longrightarrow> finish_delivery c2 d oc = (c2, Inl EpStaleToken))"
proof -
  obtain e where e: "ep_entry c k = Inr e"
    using assms(2) by (auto simp: ep_remove_cases ep_modify_Inr_iff split: sum.splits)
  have g: "et_generation k < ec_next_generation c"
    using interests.issued [OF assms(1)] e by (auto simp: ep_holds_def)
  have step: "ep_step c c1" using assms(2) by (auto intro: ep_step.intros)
  have "ep_inv c1" "ec_next_generation c \<le> ec_next_generation c1"
    using ep_step_inv [OF step assms(1)] by (simp_all add: ep_evolves_def)
  moreover have "\<not> ep_holds c1 k"
  proof -
    from assms(2) obtain q n oe where
      "c1 = set_entry (c\<lparr>ec_ready := q, ec_next_generation := n\<rparr>) (et_slot k) oe \<and>
       (oe = None \<or> oe = Some (new_entry (ec_next_generation c) i))"
      unfolding ep_remove_cases ep_modify_Inr_iff e sum.case prod.inject by blast
    then show ?thesis
      using g ep_entry_nth [OF e] by (auto simp: ep_holds_def ep_entry_write_same)
  qed
  ultimately have "\<not> ep_holds c2 k"
    using interests.stale_forever [OF assms(3)] g by simp
  then obtain er where "ep_entry c2 k = Inl er" unfolding ep_holds_def by (cases "ep_entry c2 k") auto
  then have "ep_entry c2 k = Inl EpStaleToken" using ep_entry_Inl by blast
  moreover from this have "\<not> token_queued c2 k" by (simp add: token_queued_def)
  moreover have "ep_inv c2" using interests.inv_steps [OF assms(3) \<open>ep_inv c1\<close>] .
  ultimately show ?thesis
    by (auto simp: ep_notify_def ep_remove_def ep_modify_def validate_mode_def commit_delivery_def
        finish_delivery_cases ep_inv_def queue_ok_def)
qed

theorem dead_token_rejected_witness:
  "let c1 = fst (ep_remove (ex_armed False) ex_token); c2 = fst (ep_add c1 (ex_interest True))
   in ep_notify c2 ex_token 5 = (c2, Inl EpStaleToken) \<and>
      commit_delivery c2 ex_token (0 :: nat) = (c2, Inl (DeliveryCommitError EpStaleToken 0))"
proof -
  let ?c1 = "fst (ep_remove (ex_armed False) ex_token)"
  have rem: "ep_remove (ex_armed False) ex_token = (?c1, Inr (ex_interest False))"
    by (simp add: ep_remove_cases ex_armed_entry)
  have st: "ep_step\<^sup>*\<^sup>* ?c1 (fst (ep_add ?c1 (ex_interest True)))"
    by (rule r_into_rtranclp) (rule step_add [OF prod.collapse [symmetric]])
  show ?thesis
    using dead_token_rejected [OF ex_armed_inv disjI1 [OF rem] st, where u = "0 :: nat"]
    unfolding Let_def by (intro conjI) blast+
qed

text \<open>
  C13. Delivery is first in, first out and exact. With \<open>k\<close> at the head of the queue,
  \<open>begin_delivery\<close> reports precisely the non-empty readiness recorded for \<open>k\<close> under its user
  data and a fresh serial, takes only \<open>k\<close> from the queue, moves \<open>k\<close> into the delivering
  state with its readiness cleared, and leaves every other interest as it was.
\<close>

theorem begin_delivery_fifo:
  assumes inv: "ep_inv c" and q: "rq_list (ec_ready c) = k # ks"
    and serial: "ec_next_delivery c < u64_max"
  shows "\<exists>e c'. ep_entry c k = Inr e \<and> en_ready e \<noteq> 0 \<and>
    begin_delivery c = (c', Inr (Some
      \<lparr>re_delivery = \<lparr>dl_interest = k, dl_serial = ec_next_delivery c, dl_events = en_ready e\<rparr>,
       re_events = en_ready e, re_user_data = ei_user_data (en_interest e)\<rparr>)) \<and>
    rq_list (ec_ready c') = ks \<and>
    ep_entry c' k = Inr (e\<lparr>en_queued := False, en_in_delivery := Some (ec_next_delivery c),
      en_ready := 0\<rparr>) \<and>
    (\<forall>k'. k' \<noteq> k \<longrightarrow> ep_entry c' k' = ep_entry c k')"
proof -
  have "token_queued c k" using inv q by (auto simp: ep_inv_def queue_ok_def)
  then obtain e where e: "ep_entry c k = Inr e" "en_queued e" by (auto simp: token_queued_iff)
  have "en_ready e \<noteq> 0" using ep_inv_entry_ok [OF inv e(1)] e(2) by (simp add: entry_ok_def)
  with e(1) begin_delivery_head [OF inv q serial e(1)] delivered_state_entry [OF e(1)]
  show ?thesis by (intro exI [of _ e] exI [of _ "delivered_state c k e"] conjI) simp_all
qed

lemma ex_ready_core:
  "ep_inv (ex_ready_core os)" "rq_list (ec_ready (ex_ready_core os)) = [ex_token]"
  "ec_next_delivery (ex_ready_core os) < u64_max"
  "ep_entry (ex_ready_core os) ex_token =
     Inr ((new_entry 1 (ex_interest os))\<lparr>en_ready := 1, en_queued := True\<rparr>)"
  using ep_notify_step [OF ex_armed_inv prod.collapse [symmetric], of os ex_token 5]
  by (simp_all add: ex_ready_core_def ep_notify_def ex_armed_entry ex_interest_def new_entry_def
      ex_deliverable Let_def enqueue_token_def ex_armed_def ep_add_def ex_core_unfold
      validate_mode_def rq_push_def rq_capacity_def ep_allocate_generation_def checked_add_def
      ex_token_def int_max_numerals ep_entry_def set_entry_def vec_get_def rq_list_def)

theorem begin_delivery_fifo_witness:
  "\<exists>c' ev. begin_delivery (ex_ready_core False) = (c', Inr (Some ev)) \<and>
     dl_interest (re_delivery ev) = ex_token \<and> rq_list (ec_ready c') = []"
  using begin_delivery_fifo [OF ex_ready_core(1-3), of False] by fastforce

text \<open>
  C14. What a settled delivery leaves behind. Settling the delivery in flight always
  succeeds. A faulted copy keeps the whole delivered event, a suppressed one drops it, and
  a copied one keeps the still-pending readiness only for level-triggered interests;
  readiness that arrived meanwhile is kept in every case. A copied one-shot interest is
  disarmed. The interest is queued again exactly when it is still armed and something is
  left, at the tail of the queue, and the same delivery cannot be settled twice.
\<close>

theorem finish_delivery_requeue:
  assumes inv: "ep_inv c" and e: "ep_entry c (dl_interest d) = Inr e"
    and serial: "en_in_delivery e = Some (dl_serial d)"
  shows "let left = left_over oc (dl_events d) e;
      armed = (en_enabled e \<and> \<not> (is_Copied oc \<and> im_one_shot (ei_mode (en_interest e))))
    in \<exists>c'. finish_delivery c d oc = (c', Inr ()) \<and>
    ep_entry c' (dl_interest d) = Inr (e\<lparr>en_enabled := armed, en_queued := armed \<and> left \<noteq> 0,
      en_in_delivery := None, en_ready := left, en_during_delivery := 0\<rparr>) \<and>
    rq_list (ec_ready c') =
      rq_list (ec_ready c) @ (if armed \<and> left \<noteq> 0 then [dl_interest d] else []) \<and>
    finish_delivery c' d oc' = (c', Inl EpStaleToken)"
proof -
  define left where "left = left_over oc (dl_events d) e"
  define armed where
    "armed = (en_enabled e \<and> \<not> (is_Copied oc \<and> im_one_shot (ei_mode (en_interest e))))"
  let ?k = "dl_interest d" and ?e = "settled oc (dl_events d) e"
  have "en_ready e = 0" using ep_inv_entry_ok [OF inv e] serial by (simp add: entry_ok_def)
  then have s: "en_enabled ?e = armed" "en_ready ?e = left"
    by (cases oc; simp add: settled_def Let_def left_def armed_def or.assoc)+
  have full: "?e\<lparr>en_queued := armed \<and> left \<noteq> 0\<rparr> = e\<lparr>en_enabled := armed,
      en_queued := armed \<and> left \<noteq> 0, en_in_delivery := None, en_ready := left, en_during_delivery := 0\<rparr>"
    (is "_ = ?e2") using s by (intro entry.equality) simp_all
  from finish_delivery_ok [OF inv e serial, of oc] obtain c' where c':
    "finish_delivery c d oc = (c', Inr ())" "ec_id c' = ec_id c"
    "ec_entries c' = (ec_entries c)[et_slot ?k := Some ?e2]"
    "rq_list (ec_ready c') = rq_list (ec_ready c) @ (if armed \<and> left \<noteq> 0 then [?k] else [])"
    unfolding s full by blast
  have "ep_entry c' ?k = Inr ?e2"
    using c'(2,3) e by (auto simp: ep_entry_Inr_iff)
  then show ?thesis
    using c' unfolding Let_def left_def [symmetric] armed_def [symmetric]
    by (simp add: finish_delivery_cases)
qed

theorem finish_delivery_requeue_witness:
  "\<exists>c'. finish_delivery (fst (begin_delivery (ex_ready_core True)))
       \<lparr>dl_interest = ex_token, dl_serial = ec_next_delivery (ex_ready_core True), dl_events = 1\<rparr>
       Fault = (c', Inr ()) \<and>
     ex_token \<in> set (rq_list (ec_ready c'))"
proof -
  let ?c = "fst (begin_delivery (ex_ready_core True))"
  let ?n = "ec_next_delivery (ex_ready_core True)"
  let ?d = "\<lparr>dl_interest = ex_token, dl_serial = ?n, dl_events = 1\<rparr>"
  let ?e = "(new_entry 1 (ex_interest True))\<lparr>en_in_delivery := Some ?n\<rparr>"
  have 1: "ep_inv ?c"
    using begin_delivery_step [OF ex_ready_core(1) prod.collapse [symmetric], of True] by simp
  have 2: "ep_entry ?c (dl_interest ?d) = Inr ?e"
    using begin_delivery_head(1) [OF ex_ready_core, of True]
      delivered_state_entry [OF ex_ready_core(4) [of True], of ex_token]
    by (simp add: new_entry_def)
  have 3: "en_in_delivery ?e = Some (dl_serial ?d)" by simp
  show ?thesis
    using finish_delivery_requeue [OF 1 2 3, where oc = Fault and oc' = Fault]
    by (auto simp: new_entry_def Let_def)
qed

end
