(* ===== verification/Walk_Relation.thy ===== *)
theory Walk_Relation
  imports Abi_Prelude
begin

text \<open>
  Relational facts behind a depth-limited graph walk: the height of a node (the length of
  the longest walk leaving it), how the walks of a relation change when one pair is
  inserted, and that an acyclic relation on finitely many nodes has no walk with as many
  steps as there are nodes.
\<close>

definition is_height :: "('a \<times> 'a) set \<Rightarrow> 'a \<Rightarrow> nat \<Rightarrow> bool" where
  "is_height R x d \<longleftrightarrow> (\<exists>y. (x, y) \<in> R ^^ d) \<and> (\<forall>n y. (x, y) \<in> R ^^ n \<longrightarrow> n \<le> d)"

lemma is_heightD: "is_height R x d \<Longrightarrow> (x, y) \<in> R ^^ n \<Longrightarrow> n \<le> d"
  by (auto simp: is_height_def)

lemma relpow_Suc_left: "(x, y) \<in> R ^^ Suc n \<longleftrightarrow> (\<exists>z. (x, z) \<in> R \<and> (z, y) \<in> R ^^ n)"
  by (meson relpow_Suc_D2 relpow_Suc_I2)

lemma relpow_converse_iff:
  fixes R :: "('a \<times> 'a) set"
  shows "(x, y) \<in> (R\<inverse>) ^^ n \<longleftrightarrow> (y, x) \<in> R ^^ n"
proof (induction n arbitrary: x)
  case (Suc n)
  have "(x, y) \<in> (R\<inverse>) ^^ Suc n \<longleftrightarrow> (\<exists>z. (z, x) \<in> R \<and> (y, z) \<in> R ^^ n)"
    unfolding relpow_Suc_left using Suc.IH by auto
  then show ?case by (auto intro: relpow_Suc_I elim: relpow_Suc_E)
qed auto

lemma relpow_subset:
  fixes R S :: "('a \<times> 'a) set"
  shows "R \<subseteq> S \<Longrightarrow> R ^^ n \<subseteq> S ^^ n"
  by (induction n) (auto simp: relcomp_mono)

lemma is_height_sink: "(\<And>z. (x, z) \<notin> R) \<Longrightarrow> is_height R x 0"
proof -
  assume sink: "\<And>z. (x, z) \<notin> R"
  have "n = 0" if "(x, y) \<in> R ^^ n" for n y
    using that sink by (cases n) (auto simp: relpow_Suc_left simp del: relpow.simps(2))
  then show ?thesis by (auto simp: is_height_def)
qed

text \<open>The height of a node is one more than the greatest height among its successors.\<close>

lemma is_height_successors:
  assumes "\<forall>z. (x, z) \<in> R \<longrightarrow> (\<exists>d. is_height R z d \<and> Suc d \<le> r)"
    and "r = 0 \<or> (\<exists>z d. (x, z) \<in> R \<and> is_height R z d \<and> r = Suc d)"
  shows "is_height R x r"
  unfolding is_height_def
proof (intro conjI allI impI)
  show "\<exists>y. (x, y) \<in> R ^^ r"
    using assms(2) unfolding is_height_def by (metis relpow_0_I relpow_Suc_I2)
  fix n y
  assume "(x, y) \<in> R ^^ n"
  then show "n \<le> r"
  proof (cases n)
    case (Suc m)
    then obtain z where "(x, z) \<in> R" "(z, y) \<in> R ^^ m"
      using \<open>(x, y) \<in> R ^^ n\<close> relpow_Suc_left [of x y m R] by blast
    then obtain d where "is_height R z d" "Suc d \<le> r" "m \<le> d"
      using assms(1) is_heightD by metis
    with Suc show ?thesis by simp
  qed simp
qed

text \<open>A walk over an inserted pair that closes no cycle uses the pair at most once.\<close>

lemma relpow_insert:
  assumes "(b, a) \<notin> R\<^sup>*"
  shows "(x, y) \<in> (insert (a, b) R) ^^ n \<Longrightarrow>
    (x, y) \<in> R ^^ n \<or> (\<exists>i j. n = Suc (i + j) \<and> (x, a) \<in> R ^^ i \<and> (b, y) \<in> R ^^ j)"
proof (induction n arbitrary: x)
  case 0
  then show ?case by simp
next
  case (Suc n)
  then obtain z where z: "(x, z) \<in> insert (a, b) R" "(z, y) \<in> (insert (a, b) R) ^^ n"
    using relpow_Suc_left [of x y n] by blast
  note ih = Suc.IH [OF z(2)]
  show ?case
  proof (cases "(x, z) \<in> R")
    case True
    from ih show ?thesis
    proof
      assume "(z, y) \<in> R ^^ n"
      with True show ?thesis by (blast intro: relpow_Suc_I2)
    next
      assume "\<exists>i j. n = Suc (i + j) \<and> (z, a) \<in> R ^^ i \<and> (b, y) \<in> R ^^ j"
      then obtain i j where "n = Suc (i + j)" "(z, a) \<in> R ^^ i" "(b, y) \<in> R ^^ j" by blast
      then have "Suc n = Suc (Suc i + j) \<and> (x, a) \<in> R ^^ Suc i \<and> (b, y) \<in> R ^^ j"
        using relpow_Suc_I2 [OF True] by simp
      then show ?thesis by blast
    qed
  next
    case False
    then have "x = a" "z = b" using z(1) by auto
    moreover have "\<not> (\<exists>i. (b, a) \<in> R ^^ i)" using assms by (auto dest: relpow_imp_rtrancl)
    ultimately have "(b, y) \<in> R ^^ n" using ih by blast
    then have "Suc n = Suc (0 + n) \<and> (x, a) \<in> R ^^ 0 \<and> (b, y) \<in> R ^^ n"
      using \<open>x = a\<close> by simp
    then show ?thesis by blast
  qed
qed

lemma acyclic_insert_iff: "acyclic R \<Longrightarrow> acyclic (insert (a, b) R) \<longleftrightarrow> (b, a) \<notin> R\<^sup>*"
  by (simp add: acyclic_insert)

text \<open>In an acyclic relation every walk visits distinct nodes.\<close>

lemma acyclic_walk_bound:
  assumes "acyclic R" and "R \<subseteq> A \<times> A" and "finite A" and "(x, y) \<in> R ^^ n"
  shows "n = 0 \<or> n < card A"
proof (cases n)
  case (Suc m)
  from assms(4) obtain f where f: "\<And>i. i < n \<Longrightarrow> (f i, f (Suc i)) \<in> R"
    by (auto simp: relpow_fun_conv)
  have plus: "i < j \<Longrightarrow> j \<le> n \<Longrightarrow> (f i, f j) \<in> R\<^sup>+" for i j
  proof (induction j)
    case (Suc j)
    then show ?case using f [of j] by (cases "i = j") (auto intro: trancl_into_trancl)
  qed simp
  have "inj_on f {..n}"
  proof (rule linorder_inj_onI')
    fix i j assume "i \<in> {..n}" "j \<in> {..n}" "i < j"
    then show "f i \<noteq> f j" using plus [of i j] assms(1) by (auto simp: acyclic_def)
  qed
  moreover have "f ` {..n} \<subseteq> A"
  proof
    fix v assume "v \<in> f ` {..n}"
    then obtain i where "v = f i" "i \<le> n" by auto
    then show "v \<in> A"
      using f [of i] f [of m] Suc assms(2) by (cases "i = n") auto
  qed
  ultimately have "card {..n} \<le> card A" using assms(3) by (metis card_image card_mono)
  then show ?thesis by simp
qed simp

end
