(* ===== verification/Epoll_Graph.thy ===== *)
theory Epoll_Graph
  imports Generation_Domain Walk_Relation
begin

text \<open>
  The epoll topology (\<open>EpollGraph\<close> of \<^verbatim>\<open>crates/fd/src/graph.rs\<close>): registered epoll instances,
  interest edges between them, and the bounded walks that reject cycles, over-deep nesting
  and over-wide fan-in before an edge is published. The walk budget is the state that
  \<open>spend\<close> decrements; running out of it is the error \<open>WalkLimit\<close>.
\<close>

section \<open>Data\<close>

record graph_limits =
  gl_node_capacity :: nat
  gl_edge_capacity :: nat
  gl_max_parents :: nat
  gl_max_nesting :: nat
  gl_max_walk_steps :: nat

record node_token =
  nt_graph :: u64
  nt_slot :: nat
  nt_generation :: nat
  nt_epoll :: u64

record edge_token =
  gt_graph :: u64
  gt_slot :: nat
  gt_generation :: nat

datatype graph_error =
    GrUnbounded
  | GrNoMemory
  | GrCapacity
  | GrDuplicateNode
  | GrBusy
  | GrStaleToken
  | GrSelfCycle
  | GrCycle
  | GrNesting
  | GrParentLimit
  | GrWalkLimit
  | GrGenerationExhausted

record node =
  nd_epoll :: u64
  nd_generation :: nat

record edge =
  ed_generation :: nat
  ed_parent :: node_token
  ed_child :: "node_token option"

record epoll_graph =
  gr_id :: u64
  gr_limits :: graph_limits
  gr_nodes :: "node option list"
  gr_edges :: "edge option list"
  gr_next_generation :: nat

section \<open>Construction, registration\<close>

definition limits_try_new ::
  "nat \<Rightarrow> nat \<Rightarrow> nat \<Rightarrow> nat \<Rightarrow> nat \<Rightarrow> graph_error + graph_limits" where
  "limits_try_new nodes edges parents nesting steps =
     (if nodes = usize_max \<or> edges = usize_max \<or> parents = usize_max \<or> nesting = usize_max \<or>
         steps = usize_max
      then Inl GrUnbounded
      else Inr \<lparr>gl_node_capacity = nodes, gl_edge_capacity = edges, gl_max_parents = parents,
                gl_max_nesting = nesting, gl_max_walk_steps = steps\<rparr>)"

definition gr_try_new :: "(nat \<Rightarrow> bool) \<Rightarrow> u64 \<Rightarrow> graph_limits \<Rightarrow> graph_error + epoll_graph" where
  "gr_try_new alloc_ok i limits =
     (if \<not> alloc_ok (gl_node_capacity limits) then Inl GrNoMemory
      else if \<not> alloc_ok (gl_edge_capacity limits) then Inl GrNoMemory
      else Inr \<lparr>gr_id = i, gr_limits = limits, gr_nodes = replicate (gl_node_capacity limits) None,
                gr_edges = replicate (gl_edge_capacity limits) None, gr_next_generation = 1\<rparr>)"

text \<open>\<open>edges.iter().flatten()\<close>: the published edges, in slot order.\<close>

definition live_edges :: "epoll_graph \<Rightarrow> edge list" where
  "live_edges g = List.map_filter id (gr_edges g)"

definition node_count :: "epoll_graph \<Rightarrow> nat" where
  "node_count g = length (List.map_filter id (gr_nodes g))"

definition edge_count :: "epoll_graph \<Rightarrow> nat" where
  "edge_count g = length (live_edges g)"

definition gr_allocate_generation ::
  "epoll_graph \<Rightarrow> (epoll_graph, graph_error, nat) outcome" where
  "gr_allocate_generation g =
     (case checked_add u64_max (gr_next_generation g) 1 of
        None \<Rightarrow> (g, Inl GrGenerationExhausted)
      | Some n \<Rightarrow> (g\<lparr>gr_next_generation := n\<rparr>, Inr (gr_next_generation g)))"

definition validate_node :: "epoll_graph \<Rightarrow> node_token \<Rightarrow> graph_error + nat" where
  "validate_node g k =
     (if nt_graph k \<noteq> gr_id g then Inl GrStaleToken
      else case vec_get (gr_nodes g) (nt_slot k) of
        Some (Some n) \<Rightarrow>
          if nd_generation n = nt_generation k \<and> nd_epoll n = nt_epoll k then Inr (nt_slot k)
          else Inl GrStaleToken
      | _ \<Rightarrow> Inl GrStaleToken)"

definition gr_register :: "epoll_graph \<Rightarrow> u64 \<Rightarrow> (epoll_graph, graph_error, node_token) outcome" where
  "gr_register g epoll =
     (if list_ex (\<lambda>n. nd_epoll n = epoll) (List.map_filter id (gr_nodes g))
      then (g, Inl GrDuplicateNode)
      else case position (\<lambda>n. n = None) (gr_nodes g) of
        None \<Rightarrow> (g, Inl GrCapacity)
      | Some slot \<Rightarrow>
          (case gr_allocate_generation g of
             (g1, Inl e) \<Rightarrow> (g1, Inl e)
           | (g1, Inr gen) \<Rightarrow>
               (g1\<lparr>gr_nodes := (gr_nodes g1)[slot := Some \<lparr>nd_epoll = epoll, nd_generation = gen\<rparr>]\<rparr>,
                Inr \<lparr>nt_graph = gr_id g1, nt_slot = slot, nt_generation = gen, nt_epoll = epoll\<rparr>)))"

definition gr_unregister :: "epoll_graph \<Rightarrow> node_token \<Rightarrow> (epoll_graph, graph_error, unit) outcome" where
  "gr_unregister g k =
     (case validate_node g k of
        Inl e \<Rightarrow> (g, Inl e)
      | Inr _ \<Rightarrow>
          if list_ex (\<lambda>e. ed_parent e = k \<or> ed_child e = Some k) (live_edges g)
          then (g, Inl GrBusy)
          else (g\<lparr>gr_nodes := (gr_nodes g)[nt_slot k := None]\<rparr>, Inr ()))"

section \<open>Bounded walks\<close>

text \<open>
  The three walks thread the remaining budget. \<open>spending\<close> is \<open>Self::spend(budget)?\<close> followed
  by the rest of the body; \<open>any_edge\<close> is the \<open>for\<close> loop with an early \<open>return Ok(true)\<close>, and
  \<open>scan_edges\<close> the loop that accumulates a maximum.
\<close>

definition spending ::
  "nat \<Rightarrow> (nat \<Rightarrow> (nat, graph_error, 'a) outcome) \<Rightarrow> (nat, graph_error, 'a) outcome" where
  "spending budget k = (if budget = 0 then (0, Inl GrWalkLimit) else k (budget - 1))"

fun any_edge ::
  "(edge \<Rightarrow> nat \<Rightarrow> (nat, graph_error, bool) outcome) \<Rightarrow> edge list \<Rightarrow> nat \<Rightarrow>
   (nat, graph_error, bool) outcome" where
  "any_edge f [] b = (b, Inr False)"
| "any_edge f (e # es) b =
     (case f e b of
        (b', Inl err) \<Rightarrow> (b', Inl err)
      | (b', Inr True) \<Rightarrow> (b', Inr True)
      | (b', Inr False) \<Rightarrow> any_edge f es b')"

fun scan_edges ::
  "(edge \<Rightarrow> nat \<Rightarrow> nat \<Rightarrow> (nat, graph_error, nat) outcome) \<Rightarrow> edge list \<Rightarrow> nat \<Rightarrow> nat \<Rightarrow>
   (nat, graph_error, nat) outcome" where
  "scan_edges f [] m b = (b, Inr m)"
| "scan_edges f (e # es) m b =
     (case f e m b of
        (b', Inl err) \<Rightarrow> (b', Inl err)
      | (b', Inr m') \<Rightarrow> scan_edges f es m' b')"

lemma spending_cong [fundef_cong]:
  "b = b' \<Longrightarrow> (\<And>c. f c = f' c) \<Longrightarrow> spending b f = spending b' f'"
  by (simp add: spending_def)

lemma any_edge_cong [fundef_cong]:
  assumes "es = es'" and "b = b'" and "\<And>e c. e \<in> set es' \<Longrightarrow> f e c = f' e c"
  shows "any_edge f es b = any_edge f' es' b'"
proof -
  have "(\<And>e c. e \<in> set es' \<Longrightarrow> f e c = f' e c) \<Longrightarrow> any_edge f es' c0 = any_edge f' es' c0" for c0
    by (induction es' arbitrary: c0) (auto split: prod.splits sum.splits bool.splits)
  with assms show ?thesis by blast
qed

lemma scan_edges_cong [fundef_cong]:
  assumes "es = es'" and "m = m'" and "b = b'" and "\<And>e n c. e \<in> set es' \<Longrightarrow> f e n c = f' e n c"
  shows "scan_edges f es m b = scan_edges f' es' m' b'"
proof -
  have "(\<And>e n c. e \<in> set es' \<Longrightarrow> f e n c = f' e n c) \<Longrightarrow>
      scan_edges f es' n0 c0 = scan_edges f' es' n0 c0" for n0 c0
    by (induction es' arbitrary: n0 c0) (auto split: prod.splits sum.splits)
  with assms show ?thesis by blast
qed

text \<open>
  The recursion is only entered with \<open>path_len \<le> nodes.len()\<close>, and the limits admit no node
  vector of \<open>usize::MAX\<close> entries, so the source's \<open>path_len.saturating_add(1)\<close> is a plain
  increment. The same guard makes the walks terminate whatever the budget.
\<close>

function reaches ::
  "epoll_graph \<Rightarrow> node_token \<Rightarrow> node_token \<Rightarrow> nat \<Rightarrow> nat \<Rightarrow> (nat, graph_error, bool) outcome" where
  "reaches g current target budget path_len =
     spending budget (\<lambda>b.
       if current = target then (b, Inr True)
       else if path_len > length (gr_nodes g) then (b, Inl GrCycle)
       else any_edge (\<lambda>e b. spending b (\<lambda>b.
              if ed_parent e = current then
                (case ed_child e of
                   Some child \<Rightarrow> reaches g child target b (path_len + 1)
                 | None \<Rightarrow> (b, Inr False))
              else (b, Inr False)))
            (live_edges g) b)"
  by pat_completeness auto
termination
  by (relation "measure (\<lambda>(g, _, _, _, n). Suc (length (gr_nodes g)) - n)") auto

definition deeper :: "nat \<Rightarrow> (nat, graph_error, nat) outcome \<Rightarrow> (nat, graph_error, nat) outcome" where
  "deeper maximum r =
     (case r of
        (b, Inl e) \<Rightarrow> (b, Inl e)
      | (b, Inr d) \<Rightarrow>
          (case checked_add usize_max d 1 of
             None \<Rightarrow> (b, Inl GrNesting)
           | Some d1 \<Rightarrow> (b, Inr (max maximum d1))))"

function max_descendant_depth ::
  "epoll_graph \<Rightarrow> node_token \<Rightarrow> nat \<Rightarrow> nat \<Rightarrow> (nat, graph_error, nat) outcome" where
  "max_descendant_depth g current budget path_len =
     spending budget (\<lambda>b.
       if path_len > length (gr_nodes g) then (b, Inl GrCycle)
       else scan_edges (\<lambda>e maximum b. spending b (\<lambda>b.
              if ed_parent e \<noteq> current then (b, Inr maximum)
              else deeper maximum
                (case ed_child e of
                   Some child \<Rightarrow> max_descendant_depth g child b (path_len + 1)
                 | None \<Rightarrow> (b, Inr 0))))
            (live_edges g) 0 b)"
  by pat_completeness auto
termination
  by (relation "measure (\<lambda>(g, _, _, n). Suc (length (gr_nodes g)) - n)") auto

function max_parent_depth ::
  "epoll_graph \<Rightarrow> node_token \<Rightarrow> nat \<Rightarrow> nat \<Rightarrow> (nat, graph_error, nat) outcome" where
  "max_parent_depth g current budget path_len =
     spending budget (\<lambda>b.
       if path_len > length (gr_nodes g) then (b, Inl GrCycle)
       else scan_edges (\<lambda>e maximum b. spending b (\<lambda>b.
              if ed_child e \<noteq> Some current then (b, Inr maximum)
              else deeper maximum (max_parent_depth g (ed_parent e) b (path_len + 1))))
            (live_edges g) 0 b)"
  by pat_completeness auto
termination
  by (relation "measure (\<lambda>(g, _, _, n). Suc (length (gr_nodes g)) - n)") auto

declare reaches.simps [simp del] max_descendant_depth.simps [simp del]
  max_parent_depth.simps [simp del]

section \<open>Interests\<close>

fun count_parents :: "node_token \<Rightarrow> edge list \<Rightarrow> edge option list \<Rightarrow> nat" where
  "count_parents child earlier [] = 0"
| "count_parents child earlier (None # es) = count_parents child earlier es"
| "count_parents child earlier (Some e # es) =
     (if ed_child e = Some child \<and>
         \<not> list_ex (\<lambda>x. ed_child x = Some child \<and> ed_parent x = ed_parent e) earlier
      then 1 else 0) + count_parents child (earlier @ [e]) es"

definition distinct_parent_count :: "epoll_graph \<Rightarrow> node_token \<Rightarrow> nat" where
  "distinct_parent_count g child = count_parents child [] (gr_edges g)"

definition check_child ::
  "epoll_graph \<Rightarrow> node_token \<Rightarrow> node_token option \<Rightarrow> graph_error + unit" where
  "check_child g parent child =
     (case child of
        None \<Rightarrow> Inr ()
      | Some c \<Rightarrow>
          (case validate_node g c of
             Inl e \<Rightarrow> Inl e
           | Inr _ \<Rightarrow>
               if parent = c then Inl GrSelfCycle
               else if \<not> list_ex (\<lambda>e. ed_child e = Some c \<and> ed_parent e = parent) (live_edges g) \<and>
                       distinct_parent_count g c \<ge> gl_max_parents (gr_limits g)
               then Inl GrParentLimit
               else Inr ()))"

definition check_walks ::
  "epoll_graph \<Rightarrow> node_token \<Rightarrow> node_token option \<Rightarrow> graph_error + unit" where
  "check_walks g parent child =
     (case (case child of
              Some c \<Rightarrow>
                (case reaches g c parent (gl_max_walk_steps (gr_limits g)) 0 of
                   (b, Inl e) \<Rightarrow> (b, Inl e)
                 | (b, Inr True) \<Rightarrow> (b, Inl GrCycle)
                 | (b, Inr False) \<Rightarrow> (b, Inr ()))
            | None \<Rightarrow> (gl_max_walk_steps (gr_limits g), Inr ())) of
        (_, Inl e) \<Rightarrow> Inl e
      | (b, Inr _) \<Rightarrow>
          (case max_parent_depth g parent b 0 of
             (_, Inl e) \<Rightarrow> Inl e
           | (b1, Inr parent_depth) \<Rightarrow>
               (case (case child of
                        Some c \<Rightarrow> max_descendant_depth g c b1 0
                      | None \<Rightarrow> (b1, Inr 0)) of
                  (_, Inl e) \<Rightarrow> Inl e
                | (_, Inr child_depth) \<Rightarrow>
                    (case Option.bind (checked_add usize_max parent_depth 1)
                            (\<lambda>depth. checked_add usize_max depth child_depth) of
                       None \<Rightarrow> Inl GrNesting
                     | Some combined \<Rightarrow>
                         if combined > gl_max_nesting (gr_limits g) then Inl GrNesting
                         else Inr ()))))"

definition add_interest ::
  "epoll_graph \<Rightarrow> node_token \<Rightarrow> node_token option \<Rightarrow>
   (epoll_graph, graph_error, edge_token) outcome" where
  "add_interest g parent child =
     (case validate_node g parent of
        Inl e \<Rightarrow> (g, Inl e)
      | Inr _ \<Rightarrow>
          (case check_child g parent child of
             Inl e \<Rightarrow> (g, Inl e)
           | Inr _ \<Rightarrow>
               (case position (\<lambda>e. e = None) (gr_edges g) of
                  None \<Rightarrow> (g, Inl GrCapacity)
                | Some slot \<Rightarrow>
                    (case check_walks g parent child of
                       Inl e \<Rightarrow> (g, Inl e)
                     | Inr _ \<Rightarrow>
                         (case gr_allocate_generation g of
                            (g1, Inl e) \<Rightarrow> (g1, Inl e)
                          | (g1, Inr gen) \<Rightarrow>
                              (g1\<lparr>gr_edges := (gr_edges g1)[slot :=
                                 Some \<lparr>ed_generation = gen, ed_parent = parent, ed_child = child\<rparr>]\<rparr>,
                               Inr \<lparr>gt_graph = gr_id g1, gt_slot = slot, gt_generation = gen\<rparr>))))))"

definition remove_interest ::
  "epoll_graph \<Rightarrow> edge_token \<Rightarrow> (epoll_graph, graph_error, unit) outcome" where
  "remove_interest g k =
     (if gt_graph k \<noteq> gr_id g then (g, Inl GrStaleToken)
      else case vec_get (gr_edges g) (gt_slot k) of
        Some (Some e) \<Rightarrow>
          if ed_generation e \<noteq> gt_generation k then (g, Inl GrStaleToken)
          else (g\<lparr>gr_edges := (gr_edges g)[gt_slot k := None]\<rparr>, Inr ())
      | _ \<Rightarrow> (g, Inl GrStaleToken))"

definition parent_count :: "epoll_graph \<Rightarrow> node_token \<Rightarrow> graph_error + nat" where
  "parent_count g k =
     (case validate_node g k of Inl e \<Rightarrow> Inl e | Inr _ \<Rightarrow> Inr (distinct_parent_count g k))"

end
