(* ===== verification/Epoll_Graph_Walks.thy ===== *)
theory Epoll_Graph_Walks
  imports Epoll_Graph
begin

text \<open>
  Meaning of the three bounded walks. A walk that answers is exact: \<open>reaches\<close> decides
  reachability and the two depth walks return the length of the longest chain of interests
  below, respectively above, a node. On an acyclic graph whose edges join registered nodes
  the only possible error is an exhausted budget, and an explicit budget is enough.
\<close>

section \<open>The interest relation\<close>

definition epoll_edges :: "epoll_graph \<Rightarrow> (node_token \<times> node_token) set" where
  "epoll_edges g = {(p, c). \<exists>e \<in> set (live_edges g). ed_parent e = p \<and> ed_child e = Some c}"

text \<open>The same with non-epoll targets: all of them are the sink \<open>None\<close>.\<close>

definition watches :: "epoll_graph \<Rightarrow> (node_token option \<times> node_token option) set" where
  "watches g = {(p, c). \<exists>e \<in> set (live_edges g). p = Some (ed_parent e) \<and> c = ed_child e}"

lemma live_edges_iff: "e \<in> set (live_edges g) \<longleftrightarrow> Some e \<in> set (gr_edges g)"
  by (force simp: live_edges_def List.map_filter_def image_iff)

lemma watches_Some_iff: "(Some p, Some c) \<in> watches g \<longleftrightarrow> (p, c) \<in> epoll_edges g"
  by (auto simp: watches_def epoll_edges_def)

lemma watches_source: "(x, y) \<in> watches g \<Longrightarrow> \<exists>p. x = Some p"
  by (auto simp: watches_def)

lemma watches_relpow_Some:
  "(Some p, Some c) \<in> watches g ^^ n \<longleftrightarrow> (p, c) \<in> epoll_edges g ^^ n"
proof (induction n arbitrary: p)
  case 0
  then show ?case by simp
next
  case (Suc n)
  have "(None, Some c) \<notin> watches g ^^ n"
    using watches_source by (cases n) (force simp: relpow_Suc_left simp del: relpow.simps(2))+
  then show ?case
    using Suc.IH by (simp add: relpow_Suc_left watches_Some_iff del: relpow.simps(2)) (metis option.exhaust watches_Some_iff)
qed

lemma watches_rtrancl_Some: "(Some p, Some c) \<in> (watches g)\<^sup>* \<longleftrightarrow> (p, c) \<in> (epoll_edges g)\<^sup>*"
  by (meson relpow_imp_rtrancl rtrancl_imp_relpow watches_relpow_Some)

section \<open>Loops\<close>

lemma spending_Inr: "spending b k = (b', Inr r) \<Longrightarrow> 0 < b \<and> k (b - 1) = (b', Inr r)"
  by (simp add: spending_def split: if_splits)

lemma spending_Inl: "spending b k = (b', Inl e) \<Longrightarrow> e = GrWalkLimit \<or> (0 < b \<and> k (b - 1) = (b', Inl e))"
  by (auto simp: spending_def split: if_splits)

lemma any_edge_Inr:
  assumes "any_edge f es b = (b', Inr r)"
  shows "if r then \<exists>e \<in> set es. \<exists>c c'. f e c = (c', Inr True)
    else \<forall>e \<in> set es. \<exists>c c'. f e c = (c', Inr False)"
  using assms
proof (induction es arbitrary: b)
  case (Cons e es)
  then obtain b1 r1 where f: "f e b = (b1, Inr r1)"
    by (cases "f e b"; cases "snd (f e b)") auto
  show ?case
  proof (cases r1)
    case True
    with Cons.prems f show ?thesis by auto
  next
    case False
    with Cons.prems f have "any_edge f es b1 = (b', Inr r)" by simp
    from Cons.IH [OF this] f False show ?thesis by (auto split: if_splits)
  qed
qed auto

lemma any_edge_Inl:
  assumes "any_edge f es b = (b', Inl err)"
  shows "\<exists>e \<in> set es. \<exists>c c'. f e c = (c', Inl err)"
  using assms
proof (induction es arbitrary: b)
  case (Cons e es)
  obtain b1 x where f: "f e b = (b1, x)" by (cases "f e b")
  show ?case
  proof (cases "x = Inr False")
    case True
    with Cons.prems f have "any_edge f es b1 = (b', Inl err)" by simp
    from Cons.IH [OF this] show ?thesis by auto
  next
    case False
    with Cons.prems f show ?thesis by (auto split: sum.splits bool.splits)
  qed
qed simp

lemma scan_edges_Inl:
  assumes "scan_edges f es m b = (b', Inl err)"
  shows "\<exists>e \<in> set es. \<exists>n c c'. f e n c = (c', Inl err)"
  using assms
proof (induction es arbitrary: m b)
  case (Cons e es)
  obtain b1 x where f: "f e m b = (b1, x)" by (cases "f e m b")
  show ?case
  proof (cases x)
    case (Inl err')
    with Cons.prems f show ?thesis by auto
  next
    case (Inr m1)
    with Cons.prems f have "scan_edges f es m1 b1 = (b', Inl err)" by simp
    from Cons.IH [OF this] show ?thesis by auto
  qed
qed simp

lemma scan_edges_invariant:
  assumes "scan_edges f es m b = (b', Inr r)" and "I {} m"
    and "\<And>e D n c c' n'. e \<in> set es \<Longrightarrow> I D n \<Longrightarrow> f e n c = (c', Inr n') \<Longrightarrow> I (insert e D) n'"
  shows "I (set es) r"
proof -
  have "set es0 \<subseteq> set es \<Longrightarrow> I D m0 \<Longrightarrow> scan_edges f es0 m0 b0 = (b', Inr r) \<Longrightarrow> I (D \<union> set es0) r"
    for es0 D m0 b0
  proof (induction es0 arbitrary: D m0 b0)
    case Nil
    then show ?case by simp
  next
    case (Cons e es0)
    then obtain b1 m1 where "f e m0 b0 = (b1, Inr m1)" "scan_edges f es0 m1 b1 = (b', Inr r)"
      by (auto split: prod.splits sum.splits)
    with Cons show ?case using assms(3) [of e D m0 b0 b1 m1] Cons.IH [of "insert e D" m1 b1] by auto
  qed
  from this [of es "{}" m b] assms(1,2) show ?thesis by simp
qed

text \<open>
  The accumulating loop computes a height when each selected edge contributes the height of
  the node it leads to, plus one, and the other edges contribute nothing.
\<close>

lemma scan_edges_height:
  assumes scan: "scan_edges f es 0 b = (b', Inr r)"
    and succs: "\<And>z. (x, z) \<in> R \<longleftrightarrow> (\<exists>e \<in> set es. sel e = Some z)"
    and body: "\<And>e n c c' n'. e \<in> set es \<Longrightarrow> f e n c = (c', Inr n') \<Longrightarrow>
      case sel e of None \<Rightarrow> n' = n | Some z \<Rightarrow> \<exists>d. is_height R z d \<and> n' = max n (Suc d)"
  shows "is_height R x r"
proof (rule is_height_successors)
  let ?I = "\<lambda>D n. (\<forall>e \<in> D. \<forall>z. sel e = Some z \<longrightarrow> (\<exists>d. is_height R z d \<and> Suc d \<le> n)) \<and>
    (n = 0 \<or> (\<exists>e \<in> D. \<exists>z d. sel e = Some z \<and> is_height R z d \<and> n = Suc d))"
  have "?I (set es) r"
  proof (rule scan_edges_invariant [OF scan])
    show "?I {} 0" by simp
    fix e D n c c' n'
    assume e: "e \<in> set es" and inv: "?I D n" and step: "f e n c = (c', Inr n')"
    show "?I (insert e D) n'"
    proof (cases "sel e")
      case None
      with body [OF e step] inv show ?thesis by auto
    next
      case (Some z)
      with body [OF e step] obtain d where d: "is_height R z d" "n' = max n (Suc d)" by auto
      have "\<forall>e' \<in> D. \<forall>z. sel e' = Some z \<longrightarrow> (\<exists>d. is_height R z d \<and> Suc d \<le> n')"
        using inv d(2) by (meson max.coboundedI1)
      moreover have "\<exists>e' \<in> insert e D. \<exists>z d. sel e' = Some z \<and> is_height R z d \<and> n' = Suc d"
      proof (cases "n \<le> Suc d")
        case True
        then show ?thesis using Some d by (auto simp: max_def)
      next
        case False
        then show ?thesis using inv d(2) by (auto simp: max_def)
      qed
      ultimately show ?thesis using Some d by auto
    qed
  qed
  then show "\<forall>z. (x, z) \<in> R \<longrightarrow> (\<exists>d. is_height R z d \<and> Suc d \<le> r)"
    and "r = 0 \<or> (\<exists>z d. (x, z) \<in> R \<and> is_height R z d \<and> r = Suc d)"
    using succs by blast+
qed

lemma deeper_Inr: "deeper m r = (b, Inr n) \<Longrightarrow> \<exists>d. r = (b, Inr d) \<and> n = max m (Suc d)"
  by (auto simp: deeper_def checked_iffs split: prod.splits sum.splits option.splits)

section \<open>Answers are exact\<close>

lemma reaches_sound:
  "reaches g current target b n = (b', Inr r) \<Longrightarrow> r \<longleftrightarrow> (current, target) \<in> (epoll_edges g)\<^sup>*"
proof (induction g current target b n arbitrary: b' r rule: reaches.induct)
  case (1 g current target budget n)
  show ?case
  proof (cases "current = target")
    case True
    with 1(2) [unfolded reaches.simps [of g current]] show ?thesis by (auto dest!: spending_Inr)
  next
    case False
    let ?f = "\<lambda>e b. spending b (\<lambda>b. if ed_parent e = current then
      (case ed_child e of Some child \<Rightarrow> reaches g child target b (n + 1) | None \<Rightarrow> (b, Inr False))
      else (b, Inr False))"
    have guard: "\<not> length (gr_nodes g) < n" and
      loop: "any_edge ?f (live_edges g) (budget - 1) = (b', Inr r)"
      using 1(2) [unfolded reaches.simps [of g current]] False
      by (auto dest!: spending_Inr split: if_splits)
    have ih: "r' \<longleftrightarrow> (child, target) \<in> (epoll_edges g)\<^sup>*"
      if "e \<in> set (live_edges g)" "ed_parent e = current" "ed_child e = Some child"
        "reaches g child target c (n + 1) = (c', Inr r')" for e child c c' r'
      by (rule 1(1) [OF False guard that])
    have star: "(current, target) \<in> (epoll_edges g)\<^sup>* \<longleftrightarrow>
        (\<exists>c. (current, c) \<in> epoll_edges g \<and> (c, target) \<in> (epoll_edges g)\<^sup>*)"
      using False by (meson converse_rtranclE converse_rtrancl_into_rtrancl)
    show ?thesis
    proof (cases r)
      case True
      with any_edge_Inr [OF loop] obtain e c c' where
        e: "e \<in> set (live_edges g)" "?f e c = (c', Inr True)" by auto
      then obtain child where "ed_parent e = current" "ed_child e = Some child"
        "reaches g child target (c - 1) (n + 1) = (c', Inr True)"
        by (auto dest!: spending_Inr split: if_splits option.splits)
      with ih e True star show ?thesis by (auto simp: epoll_edges_def)
    next
      case nr: False
      have "(child, target) \<notin> (epoll_edges g)\<^sup>*" if "(current, child) \<in> epoll_edges g" for child
      proof -
        from that obtain e where e: "e \<in> set (live_edges g)" "ed_parent e = current"
          "ed_child e = Some child" by (auto simp: epoll_edges_def)
        with any_edge_Inr [OF loop] nr obtain c c' where "?f e c = (c', Inr False)" by auto
        with e have "reaches g child target (c - 1) (n + 1) = (c', Inr False)"
          by (auto dest!: spending_Inr)
        with ih [OF e] show ?thesis by blast
      qed
      with star nr show ?thesis by blast
    qed
  qed
qed

lemma max_descendant_depth_sound:
  "max_descendant_depth g current b n = (b', Inr r) \<Longrightarrow> is_height (watches g) (Some current) r"
proof (induction g current b n arbitrary: b' r rule: max_descendant_depth.induct)
  case (1 g current budget n)
  let ?f = "\<lambda>e m b. spending b (\<lambda>b. if ed_parent e \<noteq> current then (b, Inr m)
    else deeper m (case ed_child e of Some child \<Rightarrow> max_descendant_depth g child b (n + 1)
                   | None \<Rightarrow> (b, Inr 0)))"
  have guard: "\<not> length (gr_nodes g) < n" and
    loop: "scan_edges ?f (live_edges g) 0 (budget - 1) = (b', Inr r)"
    using 1(2) [unfolded max_descendant_depth.simps [of g current]]
    by (auto dest!: spending_Inr split: if_splits)
  let ?sel = "\<lambda>e. if ed_parent e = current then Some (ed_child e) else None"
  show ?case
  proof (rule scan_edges_height [OF loop, where sel = ?sel])
    show "(Some current, z) \<in> watches g \<longleftrightarrow> (\<exists>e \<in> set (live_edges g). ?sel e = Some z)" for z
      by (auto simp: watches_def)
    fix e m c c' m'
    assume e: "e \<in> set (live_edges g)" and f: "?f e m c = (c', Inr m')"
    show "case ?sel e of None \<Rightarrow> m' = m
      | Some z \<Rightarrow> \<exists>d. is_height (watches g) z d \<and> m' = max m (Suc d)"
    proof (cases "ed_parent e = current")
      case True
      with f obtain d where d: "m' = max m (Suc d)"
        "(case ed_child e of Some child \<Rightarrow> max_descendant_depth g child (c - 1) (n + 1)
          | None \<Rightarrow> (c - 1, Inr 0)) = (c', Inr d)"
        by (auto dest!: spending_Inr deeper_Inr)
      have "is_height (watches g) (ed_child e) d"
      proof (cases "ed_child e")
        case None
        moreover have "is_height (watches g) None 0"
          by (rule is_height_sink) (simp add: watches_def)
        ultimately show ?thesis using d(2) by simp
      next
        case (Some child)
        then have "max_descendant_depth g child (c - 1) (n + 1) = (c', Inr d)" using d(2) by simp
        from 1(1) [OF guard e _ Some this] True Some show ?thesis by simp
      qed
      with True d(1) show ?thesis by auto
    next
      case False
      with f show ?thesis by (auto dest!: spending_Inr)
    qed
  qed
qed

lemma max_parent_depth_sound:
  "max_parent_depth g current b n = (b', Inr r) \<Longrightarrow> is_height ((epoll_edges g)\<inverse>) current r"
proof (induction g current b n arbitrary: b' r rule: max_parent_depth.induct)
  case (1 g current budget n)
  let ?f = "\<lambda>e m b. spending b (\<lambda>b. if ed_child e \<noteq> Some current then (b, Inr m)
    else deeper m (max_parent_depth g (ed_parent e) b (n + 1)))"
  have guard: "\<not> length (gr_nodes g) < n" and
    loop: "scan_edges ?f (live_edges g) 0 (budget - 1) = (b', Inr r)"
    using 1(2) [unfolded max_parent_depth.simps [of g current]]
    by (auto dest!: spending_Inr split: if_splits)
  let ?sel = "\<lambda>e. if ed_child e = Some current then Some (ed_parent e) else None"
  show ?case
  proof (rule scan_edges_height [OF loop, where sel = ?sel])
    show "(current, z) \<in> (epoll_edges g)\<inverse> \<longleftrightarrow> (\<exists>e \<in> set (live_edges g). ?sel e = Some z)" for z
      by (auto simp: epoll_edges_def)
    fix e m c c' m'
    assume e: "e \<in> set (live_edges g)" and f: "?f e m c = (c', Inr m')"
    show "case ?sel e of None \<Rightarrow> m' = m
      | Some z \<Rightarrow> \<exists>d. is_height ((epoll_edges g)\<inverse>) z d \<and> m' = max m (Suc d)"
    proof (cases "ed_child e = Some current")
      case True
      with f obtain d where "m' = max m (Suc d)"
        "max_parent_depth g (ed_parent e) (c - 1) (n + 1) = (c', Inr d)"
        by (auto dest!: spending_Inr deeper_Inr)
      with True 1(1) [OF guard e] show ?thesis by auto
    next
      case False
      with f show ?thesis by (auto dest!: spending_Inr)
    qed
  qed
qed

section \<open>Enough budget\<close>

text \<open>
  A walk over a graph with \<open>m\<close> edges from a node of height \<open>d\<close> never spends more than
  \<open>walk_cost m d\<close>: one step for the node and, for each edge, one step and at most the walk
  below it.
\<close>

fun walk_cost :: "nat \<Rightarrow> nat \<Rightarrow> nat" where
  "walk_cost m 0 = 1 + m"
| "walk_cost m (Suc d) = 1 + m * (1 + walk_cost m d)"

lemma any_edge_budget:
  assumes "\<And>e c. e \<in> set es \<Longrightarrow> k \<le> c \<Longrightarrow> \<exists>c' r. f e c = (c', Inr r) \<and> c \<le> c' + k"
    and "length es * k \<le> b"
  shows "\<exists>b' r. any_edge f es b = (b', Inr r) \<and> b \<le> b' + length es * k"
  using assms
proof (induction es arbitrary: b)
  case (Cons e es)
  have "k \<le> b" using Cons.prems(2) by simp
  then obtain c r where c: "f e b = (c, Inr r)" "b \<le> c + k"
    using Cons.prems(1) [of e b] by auto
  show ?case
  proof (cases r)
    case True
    with c show ?thesis by (auto intro!: exI [of _ True])
  next
    case False
    have "length es * k \<le> c" using Cons.prems(2) c(2) by simp
    then obtain b' r' where "any_edge f es c = (b', Inr r')" "c \<le> b' + length es * k"
      using Cons.IH [of c] Cons.prems(1) by auto
    with False c show ?thesis by auto
  qed
qed auto

lemma scan_edges_budget:
  assumes "\<And>e n c. e \<in> set es \<Longrightarrow> k \<le> c \<Longrightarrow> \<exists>c' r. f e n c = (c', Inr r) \<and> c \<le> c' + k"
    and "length es * k \<le> b"
  shows "\<exists>b' r. scan_edges f es m b = (b', Inr r) \<and> b \<le> b' + length es * k"
  using assms
proof (induction es arbitrary: m b)
  case (Cons e es)
  have "k \<le> b" using Cons.prems(2) by simp
  then obtain c r where c: "f e m b = (c, Inr r)" "b \<le> c + k"
    using Cons.prems(1) [of e b m] by auto
  have "length es * k \<le> c" using Cons.prems(2) c(2) by simp
  then obtain b' r' where "scan_edges f es r c = (b', Inr r')" "c \<le> b' + length es * k"
    using Cons.IH [of c r] Cons.prems(1) by auto
  with c show ?case by simp
qed simp

definition bounded_height :: "('a \<times> 'a) set \<Rightarrow> 'a \<Rightarrow> nat \<Rightarrow> bool" where
  "bounded_height R x d \<longleftrightarrow> (\<forall>n y. (x, y) \<in> R ^^ n \<longrightarrow> n \<le> d)"

lemma bounded_height_0: "bounded_height R x 0 \<Longrightarrow> (x, z) \<notin> R"
  unfolding bounded_height_def by (metis le_zero_eq one_neq_zero relpow_1)

lemma bounded_height_pos: "bounded_height R x d \<Longrightarrow> (x, z) \<in> R \<Longrightarrow> \<exists>d'. d = Suc d'"
  using bounded_height_0 [of R x z] by (cases d) auto

lemma bounded_height_Suc: "bounded_height R x (Suc d) \<Longrightarrow> (x, z) \<in> R \<Longrightarrow> bounded_height R z d"
  unfolding bounded_height_def by (metis Suc_le_mono relpow_Suc_I2)

lemma bounded_heightD: "bounded_height R x d \<Longrightarrow> is_height R x n \<Longrightarrow> n \<le> d"
  by (auto simp: bounded_height_def is_height_def)

text \<open>One unit per edge pays for the loop of a sink, one unit and a sub-walk for any other.\<close>

definition edge_cost :: "nat \<Rightarrow> nat \<Rightarrow> nat" where
  "edge_cost m d = (case d of 0 \<Rightarrow> 1 | Suc d' \<Rightarrow> Suc (walk_cost m d'))"

lemma walk_cost_edge: "walk_cost m d = Suc (m * edge_cost m d)"
  by (cases d) (simp_all add: edge_cost_def)

lemma edge_cost_pos: "\<exists>k. edge_cost m d = Suc k"
  by (simp add: edge_cost_def split: nat.splits)

lemma deeper_ok: "n < usize_max \<Longrightarrow> deeper m (b, Inr n) = (b, Inr (max m (Suc n)))"
  by (simp add: deeper_def checked_add_def)

lemma spending_any_edge:
  assumes "\<And>e c. e \<in> set es \<Longrightarrow> k \<le> c \<Longrightarrow> \<exists>c' r. f e c = (c', Inr r) \<and> c \<le> c' + k"
    and "Suc (length es * k) \<le> b"
  shows "\<exists>b' r. spending b (any_edge f es) = (b', Inr r) \<and> b \<le> b' + Suc (length es * k)"
proof -
  obtain b' r where "any_edge f es (b - 1) = (b', Inr r)" "b - 1 \<le> b' + length es * k"
    using any_edge_budget [of es k f "b - 1"] assms by fastforce
  with assms(2) show ?thesis by (auto simp: spending_def intro!: exI [of _ b'] exI [of _ r])
qed

lemma spending_scan_edges:
  assumes "\<And>e n c. e \<in> set es \<Longrightarrow> k \<le> c \<Longrightarrow> \<exists>c' r. f e n c = (c', Inr r) \<and> c \<le> c' + k"
    and "Suc (length es * k) \<le> b"
  shows "\<exists>b' r. spending b (scan_edges f es m) = (b', Inr r) \<and> b \<le> b' + Suc (length es * k)"
proof -
  obtain b' r where "scan_edges f es m (b - 1) = (b', Inr r)" "b - 1 \<le> b' + length es * k"
    using scan_edges_budget [of es k f "b - 1" m] assms by fastforce
  with assms(2) show ?thesis by (auto simp: spending_def)
qed

lemma reaches_budget:
  assumes "bounded_height (epoll_edges g) current d" and "n + d \<le> length (gr_nodes g)"
    and "walk_cost (length (live_edges g)) d \<le> b"
  shows "\<exists>b' r. reaches g current target b n = (b', Inr r) \<and>
    b \<le> b' + walk_cost (length (live_edges g)) d"
  using assms
proof (induction d arbitrary: current b n rule: less_induct)
  case (less d)
  let ?m = "length (live_edges g)"
  let ?f = "\<lambda>e b. spending b (\<lambda>b. if ed_parent e = current then
    (case ed_child e of Some child \<Rightarrow> reaches g child target b (n + 1) | None \<Rightarrow> (b, Inr False))
    else (b, Inr False))"
  have edge: "\<exists>c' r. ?f e c = (c', Inr r) \<and> c \<le> c' + edge_cost ?m d"
    if e: "e \<in> set (live_edges g)" and c: "edge_cost ?m d \<le> c" for e c
  proof (cases "\<exists>child. ed_parent e = current \<and> ed_child e = Some child")
    case True
    then obtain child where ch: "ed_parent e = current" "ed_child e = Some child" by blast
    then have R: "(current, child) \<in> epoll_edges g" using e by (auto simp: epoll_edges_def)
    obtain d' where d: "d = Suc d'" using bounded_height_pos [OF less.prems(1) R] ..
    have c1: "walk_cost ?m d' \<le> c - 1" using c d by (simp add: edge_cost_def)
    from less.IH [of d' child "n + 1" "c - 1"] bounded_height_Suc [OF less.prems(1) [unfolded d] R]
      less.prems(2) c1 d
    obtain c' r where "reaches g child target (c - 1) (n + 1) = (c', Inr r)"
      "c - 1 \<le> c' + walk_cost ?m d'" by auto
    with ch c d show ?thesis by (auto simp: spending_def edge_cost_def)
  next
    case False
    with c edge_cost_pos [of ?m d] show ?thesis by (auto simp: spending_def split: option.splits)
  qed
  show ?case
  proof (cases "current = target")
    case True
    with less.prems(3) have "reaches g current target b n = (b - 1, Inr True)"
      by (subst reaches.simps) (simp add: spending_def walk_cost_edge)
    then show ?thesis by (auto simp: walk_cost_edge)
  next
    case False
    with less.prems(2) have "reaches g current target b n = spending b (any_edge ?f (live_edges g))"
      by (simp add: reaches.simps [of g current])
    with spending_any_edge [of "live_edges g" "edge_cost ?m d" ?f b, OF edge] less.prems(3) show ?thesis
      by (simp add: walk_cost_edge)
  qed
qed

lemma max_descendant_depth_budget:
  assumes "bounded_height (watches g) (Some current) d" and "n + d \<le> length (gr_nodes g)"
    and "walk_cost (length (live_edges g)) d \<le> b" and "length (gr_nodes g) < usize_max"
  shows "\<exists>b' r. max_descendant_depth g current b n = (b', Inr r) \<and>
    b \<le> b' + walk_cost (length (live_edges g)) d"
  using assms(1-3)
proof (induction d arbitrary: current b n rule: less_induct)
  case (less d)
  let ?m = "length (live_edges g)"
  let ?f = "\<lambda>e m b. spending b (\<lambda>b. if ed_parent e \<noteq> current then (b, Inr m)
    else deeper m (case ed_child e of Some child \<Rightarrow> max_descendant_depth g child b (n + 1)
                   | None \<Rightarrow> (b, Inr 0)))"
  have edge: "\<exists>c' r. ?f e x c = (c', Inr r) \<and> c \<le> c' + edge_cost ?m d"
    if e: "e \<in> set (live_edges g)" and c: "edge_cost ?m d \<le> c" for e x c
  proof (cases "\<exists>child. ed_parent e = current \<and> ed_child e = Some child")
    case True
    then obtain child where ch: "ed_parent e = current" "ed_child e = Some child" by blast
    then have R: "(Some current, Some child) \<in> watches g" using e by (auto simp: watches_def)
    obtain d' where d: "d = Suc d'" using bounded_height_pos [OF less.prems(1) R] ..
    have c1: "walk_cost ?m d' \<le> c - 1" using c d by (simp add: edge_cost_def)
    note bh = bounded_height_Suc [OF less.prems(1) [unfolded d] R]
    from less.IH [of d' child "n + 1" "c - 1"] bh less.prems(2) c1 d
    obtain c' r where r: "max_descendant_depth g child (c - 1) (n + 1) = (c', Inr r)"
      "c - 1 \<le> c' + walk_cost ?m d'" by auto
    have "r < usize_max"
      using bounded_heightD [OF bh max_descendant_depth_sound [OF r(1)]] less.prems(2) d assms(4)
      by simp
    with r ch c d show ?thesis by (auto simp: spending_def edge_cost_def deeper_ok)
  next
    case False
    moreover have "0 < usize_max" using assms(4) by simp
    ultimately show ?thesis using c edge_cost_pos [of ?m d]
      by (auto simp: spending_def deeper_ok split: option.splits)
  qed
  have "max_descendant_depth g current b n = spending b (scan_edges ?f (live_edges g) 0)"
    using less.prems(2) by (simp add: max_descendant_depth.simps [of g current])
  with spending_scan_edges [of "live_edges g" "edge_cost ?m d" ?f b 0, OF edge] less.prems(3) show ?case
    by (simp add: walk_cost_edge)
qed

lemma max_parent_depth_budget:
  assumes "bounded_height ((epoll_edges g)\<inverse>) current d" and "n + d \<le> length (gr_nodes g)"
    and "walk_cost (length (live_edges g)) d \<le> b" and "length (gr_nodes g) < usize_max"
  shows "\<exists>b' r. max_parent_depth g current b n = (b', Inr r) \<and>
    b \<le> b' + walk_cost (length (live_edges g)) d"
  using assms(1-3)
proof (induction d arbitrary: current b n rule: less_induct)
  case (less d)
  let ?m = "length (live_edges g)"
  let ?f = "\<lambda>e m b. spending b (\<lambda>b. if ed_child e \<noteq> Some current then (b, Inr m)
    else deeper m (max_parent_depth g (ed_parent e) b (n + 1)))"
  have edge: "\<exists>c' r. ?f e x c = (c', Inr r) \<and> c \<le> c' + edge_cost ?m d"
    if e: "e \<in> set (live_edges g)" and c: "edge_cost ?m d \<le> c" for e x c
  proof (cases "ed_child e = Some current")
    case True
    then have R: "(current, ed_parent e) \<in> (epoll_edges g)\<inverse>" using e by (auto simp: epoll_edges_def)
    obtain d' where d: "d = Suc d'" using bounded_height_pos [OF less.prems(1) R] ..
    have c1: "walk_cost ?m d' \<le> c - 1" using c d by (simp add: edge_cost_def)
    note bh = bounded_height_Suc [OF less.prems(1) [unfolded d] R]
    from less.IH [of d' "ed_parent e" "n + 1" "c - 1"] bh less.prems(2) c1 d
    obtain c' r where r: "max_parent_depth g (ed_parent e) (c - 1) (n + 1) = (c', Inr r)"
      "c - 1 \<le> c' + walk_cost ?m d'" by auto
    have "r < usize_max"
      using bounded_heightD [OF bh max_parent_depth_sound [OF r(1)]] less.prems(2) d assms(4)
      by simp
    with r True c d show ?thesis by (auto simp: spending_def edge_cost_def deeper_ok)
  next
    case False
    with c edge_cost_pos [of ?m d] show ?thesis by (auto simp: spending_def)
  qed
  have "max_parent_depth g current b n = spending b (scan_edges ?f (live_edges g) 0)"
    using less.prems(2) by (simp add: max_parent_depth.simps [of g current])
  with spending_scan_edges [of "live_edges g" "edge_cost ?m d" ?f b 0, OF edge] less.prems(3) show ?case
    by (simp add: walk_cost_edge)
qed

section \<open>The only error is an exhausted budget\<close>

lemma reaches_Inl:
  assumes "reaches g current target b n = (b', Inl err)"
    and "bounded_height (epoll_edges g) current d" and "n + d \<le> length (gr_nodes g)"
  shows "err = GrWalkLimit"
  using assms
proof (induction g current target b n arbitrary: b' d rule: reaches.induct)
  case (1 g current target budget n)
  let ?f = "\<lambda>e b. spending b (\<lambda>b. if ed_parent e = current then
    (case ed_child e of Some child \<Rightarrow> reaches g child target b (n + 1) | None \<Rightarrow> (b, Inr False))
    else (b, Inr False))"
  show ?case
  proof (rule ccontr)
    assume err: "err \<noteq> GrWalkLimit"
    have ne: "current \<noteq> target" and
      loop: "any_edge ?f (live_edges g) (budget - 1) = (b', Inl err)"
      using 1(2) [unfolded reaches.simps [of g current]] 1(4) err
      by (auto dest!: spending_Inl split: if_splits)
    from any_edge_Inl [OF loop] obtain e c c' where
      e: "e \<in> set (live_edges g)" "?f e c = (c', Inl err)" by blast
    then obtain child where ch: "ed_parent e = current" "ed_child e = Some child"
      "reaches g child target (c - 1) (n + 1) = (c', Inl err)"
      using err by (auto dest!: spending_Inl split: if_splits option.splits)
    then have R: "(current, child) \<in> epoll_edges g" using e(1) by (auto simp: epoll_edges_def)
    obtain d' where d: "d = Suc d'" using bounded_height_pos [OF 1(3) R] ..
    have "\<not> length (gr_nodes g) < n" using 1(4) by simp
    from 1(1) [OF ne this e(1) ch bounded_height_Suc [OF 1(3) [unfolded d] R]] 1(4) d err
    show False by simp
  qed
qed

lemma deeper_Inl:
  "deeper m r = (b, Inl err) \<Longrightarrow> err = GrNesting \<and> (\<exists>d. r = (b, Inr d) \<and> usize_max \<le> d) \<or> r = (b, Inl err)"
  by (auto simp: deeper_def checked_iffs split: prod.splits sum.splits option.splits)

lemma max_descendant_depth_Inl:
  assumes "max_descendant_depth g current b n = (b', Inl err)"
    and "bounded_height (watches g) (Some current) d" and "n + d \<le> length (gr_nodes g)"
    and "length (gr_nodes g) < usize_max"
  shows "err = GrWalkLimit"
  using assms
proof (induction g current b n arbitrary: b' d rule: max_descendant_depth.induct)
  case (1 g current budget n)
  let ?f = "\<lambda>e m b. spending b (\<lambda>b. if ed_parent e \<noteq> current then (b, Inr m)
    else deeper m (case ed_child e of Some child \<Rightarrow> max_descendant_depth g child b (n + 1)
                   | None \<Rightarrow> (b, Inr 0)))"
  show ?case
  proof (rule ccontr)
    assume err: "err \<noteq> GrWalkLimit"
    have guard: "\<not> length (gr_nodes g) < n" using 1(4) by simp
    then have loop: "scan_edges ?f (live_edges g) 0 (budget - 1) = (b', Inl err)"
      using 1(2) [unfolded max_descendant_depth.simps [of g current]] err
      by (auto dest!: spending_Inl)
    from scan_edges_Inl [OF loop] obtain e m c c' where
      e: "e \<in> set (live_edges g)" "?f e m c = (c', Inl err)" by blast
    then have p: "ed_parent e = current" and
      deep: "deeper m (case ed_child e of Some child \<Rightarrow> max_descendant_depth g child (c - 1) (n + 1)
        | None \<Rightarrow> (c - 1, Inr 0)) = (c', Inl err)"
      using err by (auto dest!: spending_Inl split: if_splits)
    obtain child where ch: "ed_child e = Some child"
      using deep 1(5) by (cases "ed_child e") (auto dest!: deeper_Inl)
    then have R: "(Some current, Some child) \<in> watches g" using e(1) p by (auto simp: watches_def)
    obtain d' where d: "d = Suc d'" using bounded_height_pos [OF 1(3) R] ..
    note bh = bounded_height_Suc [OF 1(3) [unfolded d] R]
    from deep ch consider (sub) "max_descendant_depth g child (c - 1) (n + 1) = (c', Inl err)"
      | (big) r where "max_descendant_depth g child (c - 1) (n + 1) = (c', Inr r)" "usize_max \<le> r"
      by (auto dest!: deeper_Inl)
    then show False
    proof cases
      case sub
      from 1(1) [OF guard e(1) _ ch sub bh] p 1(4,5) d err show False by simp
    next
      case big
      from bounded_heightD [OF bh max_descendant_depth_sound [OF big(1)]] big(2) 1(4,5) d
      show False by simp
    qed
  qed
qed

lemma max_parent_depth_Inl:
  assumes "max_parent_depth g current b n = (b', Inl err)"
    and "bounded_height ((epoll_edges g)\<inverse>) current d" and "n + d \<le> length (gr_nodes g)"
    and "length (gr_nodes g) < usize_max"
  shows "err = GrWalkLimit"
  using assms
proof (induction g current b n arbitrary: b' d rule: max_parent_depth.induct)
  case (1 g current budget n)
  let ?f = "\<lambda>e m b. spending b (\<lambda>b. if ed_child e \<noteq> Some current then (b, Inr m)
    else deeper m (max_parent_depth g (ed_parent e) b (n + 1)))"
  show ?case
  proof (rule ccontr)
    assume err: "err \<noteq> GrWalkLimit"
    have guard: "\<not> length (gr_nodes g) < n" using 1(4) by simp
    then have loop: "scan_edges ?f (live_edges g) 0 (budget - 1) = (b', Inl err)"
      using 1(2) [unfolded max_parent_depth.simps [of g current]] err
      by (auto dest!: spending_Inl)
    from scan_edges_Inl [OF loop] obtain e m c c' where
      e: "e \<in> set (live_edges g)" "?f e m c = (c', Inl err)" by blast
    then have p: "ed_child e = Some current" and
      deep: "deeper m (max_parent_depth g (ed_parent e) (c - 1) (n + 1)) = (c', Inl err)"
      using err by (auto dest!: spending_Inl split: if_splits)
    then have R: "(current, ed_parent e) \<in> (epoll_edges g)\<inverse>"
      using e(1) by (auto simp: epoll_edges_def)
    obtain d' where d: "d = Suc d'" using bounded_height_pos [OF 1(3) R] ..
    note bh = bounded_height_Suc [OF 1(3) [unfolded d] R]
    from deep consider (sub) "max_parent_depth g (ed_parent e) (c - 1) (n + 1) = (c', Inl err)"
      | (big) r where "max_parent_depth g (ed_parent e) (c - 1) (n + 1) = (c', Inr r)" "usize_max \<le> r"
      by (auto dest!: deeper_Inl)
    then show False
    proof cases
      case sub
      from 1(1) [OF guard e(1) _ sub bh] p 1(4,5) d err show False by simp
    next
      case big
      from bounded_heightD [OF bh max_parent_depth_sound [OF big(1)]] big(2) 1(4,5) d
      show False by simp
    qed
  qed
qed

end
