(* ===== verification/Epoll_Graph_Props.thy ===== *)
theory Epoll_Graph_Props
  imports Epoll_Graph_Walks
begin

text \<open>
  The invariant of the epoll graph and what its operations promise. The edges always join
  registered nodes and form an acyclic relation whose chains respect the nesting limit and
  whose fan-in respects the parent limit; node and edge tokens share one generation counter
  and are two instances of the generation contract.
\<close>

section \<open>Invariant\<close>

definition node_gen :: "node option \<Rightarrow> nat option" where
  "node_gen on = map_option nd_generation on"

definition edge_gen :: "edge option \<Rightarrow> nat option" where
  "edge_gen oe = map_option ed_generation oe"

definition node_live :: "epoll_graph \<Rightarrow> node_token \<Rightarrow> bool" where
  "node_live g k \<longleftrightarrow> (\<exists>s. validate_node g k = Inr s)"

definition edge_live :: "epoll_graph \<Rightarrow> edge_token \<Rightarrow> bool" where
  "edge_live g k \<longleftrightarrow> snd (remove_interest g k) = Inr ()"

definition counters_ok :: "epoll_graph \<Rightarrow> bool" where
  "counters_ok g \<longleftrightarrow>
     length (gr_nodes g) = gl_node_capacity (gr_limits g) \<and> length (gr_nodes g) < usize_max \<and>
     length (gr_edges g) = gl_edge_capacity (gr_limits g) \<and> gr_next_generation g \<le> u64_max \<and>
     gl_max_nesting (gr_limits g) \<le> usize_max \<and>
     keys_below node_gen (gr_next_generation g) (gr_nodes g) \<and>
     keys_below edge_gen (gr_next_generation g) (gr_edges g)"

definition topology_ok :: "epoll_graph \<Rightarrow> bool" where
  "topology_ok g \<longleftrightarrow>
     acyclic (epoll_edges g) \<and>
     (\<forall>p n y. (Some p, y) \<in> watches g ^^ n \<longrightarrow> n \<le> gl_max_nesting (gr_limits g)) \<and>
     (\<forall>c. card {p. (p, c) \<in> epoll_edges g} \<le> gl_max_parents (gr_limits g))"

definition endpoints_ok :: "epoll_graph \<Rightarrow> bool" where
  "endpoints_ok g \<longleftrightarrow>
     (\<forall>e \<in> set (live_edges g). node_live g (ed_parent e) \<and> (\<forall>c. ed_child e = Some c \<longrightarrow> node_live g c))"

definition graph_inv :: "epoll_graph \<Rightarrow> bool" where
  "graph_inv g \<longleftrightarrow> counters_ok g \<and> topology_ok g \<and> endpoints_ok g"

inductive gr_step :: "epoll_graph \<Rightarrow> epoll_graph \<Rightarrow> bool" where
  step_register: "gr_register g i = (g', r1) \<Longrightarrow> gr_step g g'"
| step_unregister: "gr_unregister g k = (g', r2) \<Longrightarrow> gr_step g g'"
| step_add_interest: "add_interest g p c = (g', r3) \<Longrightarrow> gr_step g g'"
| step_remove_interest: "remove_interest g x = (g', r4) \<Longrightarrow> gr_step g g'"

lemma node_gen_simps [simp]: "node_gen None = None" "node_gen (Some n) = Some (nd_generation n)"
  by (simp_all add: node_gen_def)

lemma edge_gen_simps [simp]: "edge_gen None = None" "edge_gen (Some e) = Some (ed_generation e)"
  by (simp_all add: edge_gen_def)

lemma node_live_iff:
  "node_live g k \<longleftrightarrow> nt_graph k = gr_id g \<and> nt_slot k < length (gr_nodes g) \<and>
     gr_nodes g ! nt_slot k = Some \<lparr>nd_epoll = nt_epoll k, nd_generation = nt_generation k\<rparr>"
  by (auto simp: node_live_def validate_node_def vec_get_def split: option.splits if_splits)

lemma validate_node_cases: "validate_node g k = (if node_live g k then Inr (nt_slot k) else Inl GrStaleToken)"
  by (auto simp: node_live_def validate_node_def split: option.splits)

lemma node_live_same_slot: "node_live g k \<Longrightarrow> node_live g k' \<Longrightarrow> nt_slot k = nt_slot k' \<Longrightarrow> k = k'"
  by (auto simp: node_live_iff)

lemma edge_live_iff:
  "edge_live g k \<longleftrightarrow> gt_graph k = gr_id g \<and> gt_slot k < length (gr_edges g) \<and>
     (\<exists>e. gr_edges g ! gt_slot k = Some e \<and> ed_generation e = gt_generation k)"
  by (auto simp: edge_live_def remove_interest_def vec_get_def split: option.splits if_splits)

lemma remove_interest_cases:
  "remove_interest g k =
     (if edge_live g k then (g\<lparr>gr_edges := (gr_edges g)[gt_slot k := None]\<rparr>, Inr ())
      else (g, Inl GrStaleToken))"
  by (auto simp: edge_live_def remove_interest_def split: option.splits)

section \<open>Heights are bounded\<close>

lemma finite_live_nodes: "finite {k. node_live g k} \<and> card {k. node_live g k} \<le> length (gr_nodes g)"
proof -
  have inj: "inj_on nt_slot {k. node_live g k}"
    by (auto intro!: inj_onI dest: node_live_same_slot)
  have sub: "nt_slot ` {k. node_live g k} \<subseteq> {..<length (gr_nodes g)}"
    by (auto simp: node_live_iff)
  then have "finite {k. node_live g k}"
    using finite_imageD [OF _ inj] finite_subset by blast
  moreover have "card {k. node_live g k} \<le> card {..<length (gr_nodes g)}"
    using card_inj_on_le [OF inj sub] by simp
  ultimately show ?thesis by simp
qed

lemma epoll_edges_live: "endpoints_ok g \<Longrightarrow> epoll_edges g \<subseteq> {k. node_live g k} \<times> {k. node_live g k}"
  by (auto simp: endpoints_ok_def epoll_edges_def)

lemma epoll_chain_bound:
  assumes "graph_inv g"
  shows "bounded_height (epoll_edges g) x (length (gr_nodes g))"
    and "bounded_height ((epoll_edges g)\<inverse>) x (length (gr_nodes g))"
proof -
  have ac: "acyclic (epoll_edges g)" "acyclic ((epoll_edges g)\<inverse>)" and
    sub: "epoll_edges g \<subseteq> {k. node_live g k} \<times> {k. node_live g k}"
      "(epoll_edges g)\<inverse> \<subseteq> {k. node_live g k} \<times> {k. node_live g k}"
    using assms epoll_edges_live by (auto simp: graph_inv_def topology_ok_def)
  note fin = finite_live_nodes [of g]
  show "bounded_height (epoll_edges g) x (length (gr_nodes g))"
    using acyclic_walk_bound [OF ac(1) sub(1)] fin unfolding bounded_height_def by fastforce
  show "bounded_height ((epoll_edges g)\<inverse>) x (length (gr_nodes g))"
    using acyclic_walk_bound [OF ac(2) sub(2)] fin unfolding bounded_height_def by fastforce
qed

lemma watches_init: "(Some p, y) \<in> watches g ^^ Suc n \<Longrightarrow> \<exists>q. (p, q) \<in> epoll_edges g ^^ n \<and> (Some q, y) \<in> watches g"
  by (metis relpow_Suc_E watches_relpow_Some watches_source)

lemma watch_chain_bound:
  assumes "graph_inv g"
  shows "bounded_height (watches g) (Some p) (length (gr_nodes g))"
  unfolding bounded_height_def
proof (intro allI impI)
  fix n y
  assume walk: "(Some p, y) \<in> watches g ^^ n"
  show "n \<le> length (gr_nodes g)"
  proof (cases n)
    case (Suc m)
    then obtain q where q: "(p, q) \<in> epoll_edges g ^^ m" "(Some q, y) \<in> watches g"
      using walk watches_init by blast
    then have "node_live g q"
      using assms by (auto simp: graph_inv_def endpoints_ok_def watches_def)
    then have "0 < card {k. node_live g k}"
      using finite_live_nodes [of g] by (auto simp: card_gt_0_iff)
    moreover have "m = 0 \<or> m < card {k. node_live g k}"
      using assms epoll_edges_live finite_live_nodes [of g] q(1)
      by (intro acyclic_walk_bound [of "epoll_edges g" _ p q]) (auto simp: graph_inv_def topology_ok_def)
    ultimately show ?thesis using Suc finite_live_nodes [of g] by linarith
  qed simp
qed

section \<open>Fan-in\<close>

lemma count_parents_card:
  "count_parents child earlier es =
     card ({ed_parent e |e. Some e \<in> set es \<and> ed_child e = Some child} -
           {ed_parent e |e. e \<in> set earlier \<and> ed_child e = Some child})"
proof (induction child earlier es rule: count_parents.induct)
  case (1 child earlier)
  then show ?case by simp
next
  case (2 child earlier es)
  then show ?case by simp
next
  case (3 child earlier e es)
  let ?P = "\<lambda>es. {ed_parent e |e. Some e \<in> set es \<and> ed_child e = Some child}"
  let ?Q = "\<lambda>es. {ed_parent e |e. e \<in> set es \<and> ed_child e = Some child}"
  have fin: "finite (?P es)"
    by (rule finite_subset [of _ "(\<lambda>x. ed_parent (the x)) ` set es"]) force+
  show ?case
  proof (cases "ed_child e = Some child")
    case True
    then have P: "?P (Some e # es) = insert (ed_parent e) (?P es)"
      and Q: "?Q (earlier @ [e]) = insert (ed_parent e) (?Q earlier)" by auto
    have seen: "list_ex (\<lambda>x. ed_child x = Some child \<and> ed_parent x = ed_parent e) earlier \<longleftrightarrow>
        ed_parent e \<in> ?Q earlier"
      by (auto simp: list_ex_iff) metis
    have "insert (ed_parent e) (?P es) - ?Q earlier =
        (if ed_parent e \<in> ?Q earlier then ?P es - insert (ed_parent e) (?Q earlier)
         else insert (ed_parent e) (?P es - insert (ed_parent e) (?Q earlier)))"
      by auto
    then show ?thesis
      using 3 fin seen True by (simp only: P Q count_parents.simps) simp
  next
    case False
    then have "?P (Some e # es) = ?P es" "?Q (earlier @ [e]) = ?Q earlier" by auto
    with 3 False show ?thesis by simp
  qed
qed

lemma distinct_parent_count_card: "distinct_parent_count g c = card {p. (p, c) \<in> epoll_edges g}"
proof -
  have "{ed_parent e |e. Some e \<in> set (gr_edges g) \<and> ed_child e = Some c} = {p. (p, c) \<in> epoll_edges g}"
    by (auto simp: epoll_edges_def live_edges_iff)
  then show ?thesis by (simp add: distinct_parent_count_def count_parents_card)
qed

lemma finite_parents: "finite {p. (p, c) \<in> epoll_edges g}"
  by (rule finite_subset [of _ "ed_parent ` set (live_edges g)"]) (auto simp: epoll_edges_def)

section \<open>Fewer edges\<close>

lemma topology_subset:
  assumes "topology_ok g" and "set (live_edges g') \<subseteq> set (live_edges g)" and "gr_limits g' = gr_limits g"
  shows "topology_ok g'"
proof -
  have E: "epoll_edges g' \<subseteq> epoll_edges g" and W: "watches g' \<subseteq> watches g"
    using assms(2) by (auto simp: epoll_edges_def watches_def)
  have "acyclic (epoll_edges g')"
    using assms(1) E by (auto simp: topology_ok_def intro: acyclic_subset)
  moreover have "(Some p, y) \<in> watches g' ^^ n \<Longrightarrow> n \<le> gl_max_nesting (gr_limits g')" for p n y
    using assms(1,3) relpow_subset [OF W, of n] by (auto simp: topology_ok_def)
  moreover have "card {p. (p, c) \<in> epoll_edges g'} \<le> gl_max_parents (gr_limits g')" for c
  proof -
    have "card {p. (p, c) \<in> epoll_edges g'} \<le> card {p. (p, c) \<in> epoll_edges g}"
      using E by (intro card_mono [OF finite_parents]) auto
    with assms(1,3) show ?thesis by (auto simp: topology_ok_def intro: order_trans)
  qed
  ultimately show ?thesis by (auto simp: topology_ok_def)
qed

lemma live_edges_cong: "gr_edges g' = gr_edges g \<Longrightarrow> live_edges g' = live_edges g"
  by (simp add: live_edges_def)

lemma live_edges_removed:
  "set (live_edges (g\<lparr>gr_edges := (gr_edges g)[i := None]\<rparr>)) \<subseteq> set (live_edges g)"
  by (auto simp: live_edges_iff dest: set_list_update_cases)

lemma live_edges_added:
  assumes "i < length (gr_edges g)" and "gr_edges g ! i = None" and "gr_edges g' = (gr_edges g)[i := Some e]"
  shows "set (live_edges g') = insert e (set (live_edges g))"
proof -
  have "Some x \<in> set ((gr_edges g)[i := Some e]) \<longleftrightarrow> x = e \<or> Some x \<in> set (gr_edges g)" for x
    using assms(1,2) by (auto simp: in_set_conv_nth nth_list_update) (metis option.distinct(1))
  then show ?thesis using assms(3) by (auto simp: live_edges_iff)
qed

section \<open>Admission\<close>

lemma check_walks_Inr:
  assumes "check_walks g p child = Inr u"
  shows "\<exists>a b. is_height ((epoll_edges g)\<inverse>) p a \<and> is_height (watches g) child b \<and>
    a + 1 + b \<le> gl_max_nesting (gr_limits g) \<and> (\<forall>c. child = Some c \<longrightarrow> (c, p) \<notin> (epoll_edges g)\<^sup>*)"
proof -
  have sink: "is_height (watches g) None 0"
    by (rule is_height_sink) (simp add: watches_def)
  show ?thesis
  proof (cases child)
    case None
    with assms obtain b1 a where "max_parent_depth g p (gl_max_walk_steps (gr_limits g)) 0 = (b1, Inr a)"
      "a + 1 + 0 \<le> gl_max_nesting (gr_limits g)"
      by (auto simp: check_walks_def checked_iffs bind_eq_Some_conv bind_eq_None_conv
          split: prod.splits sum.splits option.splits if_splits)
    with sink None max_parent_depth_sound show ?thesis by blast
  next
    case (Some c)
    with assms obtain b0 b1 b2 a d where
      "reaches g c p (gl_max_walk_steps (gr_limits g)) 0 = (b0, Inr False)"
      "max_parent_depth g p b0 0 = (b1, Inr a)" "max_descendant_depth g c b1 0 = (b2, Inr d)"
      "a + 1 + d \<le> gl_max_nesting (gr_limits g)"
      by (auto simp: check_walks_def checked_iffs bind_eq_Some_conv bind_eq_None_conv
          split: prod.splits sum.splits option.splits bool.splits if_splits)
    with reaches_sound [of g c p _ 0 b0 False] max_parent_depth_sound [of g p b0 0 b1 a]
      max_descendant_depth_sound [of g c b1 0 b2 d]
    show ?thesis unfolding Some by (intro exI [of _ a] exI [of _ d]) auto
  qed
qed

text \<open>Adding an admitted edge keeps the graph acyclic, shallow and narrow.\<close>

lemma topology_insert:
  assumes inv: "topology_ok g" and walks: "check_walks g p child = Inr u"
    and live: "set (live_edges g') = insert e (set (live_edges g))" and lim: "gr_limits g' = gr_limits g"
    and e: "ed_parent e = p" "ed_child e = child"
    and width: "\<And>c. child = Some c \<Longrightarrow> (p, c) \<in> epoll_edges g \<or>
      card {p. (p, c) \<in> epoll_edges g} < gl_max_parents (gr_limits g)"
  shows "topology_ok g'"
proof -
  from check_walks_Inr [OF walks] obtain a b where
    h: "is_height ((epoll_edges g)\<inverse>) p a" "is_height (watches g) child b" and
    sum: "a + 1 + b \<le> gl_max_nesting (gr_limits g)" and
    nocyc: "\<And>c. child = Some c \<Longrightarrow> (c, p) \<notin> (epoll_edges g)\<^sup>*" by blast
  have E: "epoll_edges g' = (case child of None \<Rightarrow> epoll_edges g | Some c \<Rightarrow> insert (p, c) (epoll_edges g))"
    using live e by (auto simp: epoll_edges_def split: option.splits)
  have W: "watches g' = insert (Some p, child) (watches g)"
    using live e by (auto simp: watches_def)
  have "acyclic (epoll_edges g')"
    using inv nocyc E by (auto simp: topology_ok_def acyclic_insert_iff split: option.splits)
  moreover have "n \<le> gl_max_nesting (gr_limits g')" if walk: "(Some q, y) \<in> watches g' ^^ n" for q n y
  proof -
    have "(child, Some p) \<notin> (watches g)\<^sup>*"
    proof (cases child)
      case None
      have "(None, z) \<notin> watches g" for z by (simp add: watches_def)
      then show ?thesis using None by (metis converse_rtranclE option.distinct(1))
    qed (use nocyc watches_rtrancl_Some in blast)
    from relpow_insert [OF this walk [unfolded W]] show ?thesis
    proof
      assume "(Some q, y) \<in> watches g ^^ n"
      then show ?thesis using inv lim by (auto simp: topology_ok_def)
    next
      assume "\<exists>i j. n = Suc (i + j) \<and> (Some q, Some p) \<in> watches g ^^ i \<and> (child, y) \<in> watches g ^^ j"
      then obtain i j where "n = Suc (i + j)" "(Some q, Some p) \<in> watches g ^^ i"
        "(child, y) \<in> watches g ^^ j" by blast
      moreover from this have "i \<le> a"
        using is_heightD [OF h(1)] by (simp add: watches_relpow_Some relpow_converse_iff)
      ultimately show ?thesis using is_heightD [OF h(2)] sum lim by fastforce
    qed
  qed
  moreover have "card {q. (q, c) \<in> epoll_edges g'} \<le> gl_max_parents (gr_limits g')" for c
  proof (cases "child = Some c \<and> (p, c) \<notin> epoll_edges g")
    case True
    then have "{q. (q, c) \<in> epoll_edges g'} = insert p {q. (q, c) \<in> epoll_edges g}"
      by (auto simp: E)
    with True width [of c] lim show ?thesis by (simp add: card_insert_if finite_parents)
  next
    case False
    then have "{q. (q, c) \<in> epoll_edges g'} = {q. (q, c) \<in> epoll_edges g}"
      by (auto simp: E split: option.splits)
    with inv lim show ?thesis by (simp add: topology_ok_def)
  qed
  ultimately show ?thesis by (auto simp: topology_ok_def)
qed

text \<open>For a target that is not an epoll only the chains above the watcher count.\<close>

lemma check_walks_leaf_Inl:
  assumes inv: "graph_inv g" and walks: "check_walks g p None = Inl err"
  shows "err = GrWalkLimit \<or>
    err = GrNesting \<and> (\<exists>i q. (q, p) \<in> epoll_edges g ^^ i \<and> gl_max_nesting (gr_limits g) < i + 1)"
proof -
  have big: "length (gr_nodes g) < usize_max" "gl_max_nesting (gr_limits g) \<le> usize_max"
    using inv by (auto simp: graph_inv_def counters_ok_def)
  obtain b1 r1 where up: "max_parent_depth g p (gl_max_walk_steps (gr_limits g)) 0 = (b1, r1)" by fastforce
  consider e where "r1 = Inl e" "err = e"
    | a where "r1 = Inr a" "err = GrNesting" "gl_max_nesting (gr_limits g) < a + 1"
    using walks up big(2) by (auto simp: check_walks_def checked_add_def split: sum.splits if_splits)
  then show ?thesis
  proof cases
    case 1
    with max_parent_depth_Inl [OF _ epoll_chain_bound(2) [OF inv]] up big(1) show ?thesis by simp
  next
    case 2
    then have "is_height ((epoll_edges g)\<inverse>) p a" using max_parent_depth_sound up by auto
    then obtain q where "(q, p) \<in> epoll_edges g ^^ a" by (auto simp: is_height_def relpow_converse_iff)
    with 2 show ?thesis by blast
  qed
qed

lemma check_walks_epoll_Inl:
  assumes inv: "graph_inv g" and walks: "check_walks g p (Some c) = Inl err"
  shows "err = GrWalkLimit \<or> err = GrCycle \<and> (c, p) \<in> (epoll_edges g)\<^sup>* \<or>
    err = GrNesting \<and> (\<exists>i j q y. (q, p) \<in> epoll_edges g ^^ i \<and> (Some c, y) \<in> watches g ^^ j \<and>
      gl_max_nesting (gr_limits g) < i + 1 + j)"
proof -
  have big: "length (gr_nodes g) < usize_max" "gl_max_nesting (gr_limits g) \<le> usize_max"
    using inv by (auto simp: graph_inv_def counters_ok_def)
  obtain b0 r0 where reach: "reaches g c p (gl_max_walk_steps (gr_limits g)) 0 = (b0, r0)" by fastforce
  obtain b1 r1 where up: "max_parent_depth g p b0 0 = (b1, r1)" by fastforce
  obtain b2 r2 where down: "max_descendant_depth g c b1 0 = (b2, r2)" by fastforce
  consider e where "r0 = Inl e" "err = e" | "r0 = Inr True" "err = GrCycle"
    | e where "r1 = Inl e" "err = e" | e where "r2 = Inl e" "err = e"
    | a d where "r1 = Inr a" "r2 = Inr d" "err = GrNesting" "gl_max_nesting (gr_limits g) < a + 1 + d"
    using walks reach up down big(2)
    by (auto simp: check_walks_def checked_add_def split: sum.splits bool.splits if_splits)
  then show ?thesis
  proof cases
    case 1
    with reaches_Inl [OF _ epoll_chain_bound(1) [OF inv]] reach show ?thesis by simp
  next
    case 2
    with reaches_sound reach show ?thesis by blast
  next
    case 3
    with max_parent_depth_Inl [OF _ epoll_chain_bound(2) [OF inv]] up big(1) show ?thesis by simp
  next
    case 4
    with max_descendant_depth_Inl [OF _ watch_chain_bound [OF inv]] down big(1) show ?thesis by simp
  next
    case 5
    then have "is_height ((epoll_edges g)\<inverse>) p a" "is_height (watches g) (Some c) d"
      using max_parent_depth_sound max_descendant_depth_sound up down by auto
    then obtain q y where "(q, p) \<in> epoll_edges g ^^ a" "(Some c, y) \<in> watches g ^^ d"
      by (auto simp: is_height_def relpow_converse_iff)
    with 5 show ?thesis by blast
  qed
qed

lemma check_walks_Inl:
  assumes inv: "graph_inv g" and walks: "check_walks g p child = Inl err"
  shows "err = GrWalkLimit \<or> err = GrCycle \<and> (\<exists>c. child = Some c \<and> (c, p) \<in> (epoll_edges g)\<^sup>*) \<or>
    err = GrNesting \<and> (\<exists>i j q y. (q, p) \<in> epoll_edges g ^^ i \<and> (child, y) \<in> watches g ^^ j \<and>
      gl_max_nesting (gr_limits g) < i + 1 + j)"
proof (cases child)
  case None
  have "(None, None) \<in> watches g ^^ 0" by simp
  with check_walks_leaf_Inl [OF inv walks [unfolded None]] show ?thesis
    unfolding None by (metis add_0_right)
next
  case (Some c)
  from check_walks_epoll_Inl [OF inv walks [unfolded Some]] show ?thesis unfolding Some by blast
qed

section \<open>Steps\<close>

lemma gr_allocate_generation_cases:
  "gr_allocate_generation g =
     (if gr_next_generation g < u64_max
      then (g\<lparr>gr_next_generation := Suc (gr_next_generation g)\<rparr>, Inr (gr_next_generation g))
      else (g, Inl GrGenerationExhausted))"
  by (simp add: gr_allocate_generation_def checked_add_def)

lemma gr_register_Inr_iff:
  "gr_register g i = (g', Inr k) \<longleftrightarrow>
     (\<forall>n. Some n \<in> set (gr_nodes g) \<longrightarrow> nd_epoll n \<noteq> i) \<and>
     position (\<lambda>n. n = None) (gr_nodes g) = Some (nt_slot k) \<and> gr_next_generation g < u64_max \<and>
     k = \<lparr>nt_graph = gr_id g, nt_slot = nt_slot k, nt_generation = gr_next_generation g, nt_epoll = i\<rparr> \<and>
     g' = g\<lparr>gr_next_generation := Suc (gr_next_generation g), gr_nodes := (gr_nodes g)[nt_slot k :=
       Some \<lparr>nd_epoll = i, nd_generation = gr_next_generation g\<rparr>]\<rparr>"
  by (auto simp: gr_register_def gr_allocate_generation_cases list_ex_iff List.map_filter_def
      image_iff split: if_splits option.splits)

lemma gr_register_Inl: "gr_register g i = (g', Inl e) \<Longrightarrow> g' = g"
  by (auto simp: gr_register_def gr_allocate_generation_cases split: if_splits option.splits)

lemma add_interest_Inl: "add_interest g p c = (g', Inl e) \<Longrightarrow> g' = g"
  by (auto simp: add_interest_def gr_allocate_generation_cases
      split: if_splits option.splits sum.splits)

definition new_edge :: "epoll_graph \<Rightarrow> node_token \<Rightarrow> node_token option \<Rightarrow> edge" where
  "new_edge g p c = \<lparr>ed_generation = gr_next_generation g, ed_parent = p, ed_child = c\<rparr>"

lemma new_edge_sel [simp]:
  "ed_generation (new_edge g p c) = gr_next_generation g" "ed_parent (new_edge g p c) = p"
  "ed_child (new_edge g p c) = c"
  by (simp_all add: new_edge_def)

lemma add_interest_Inr:
  assumes "add_interest g p c = (g', Inr k)"
  shows "node_live g p" and "check_child g p c = Inr ()" and "check_walks g p c = Inr ()"
    and "gt_slot k < length (gr_edges g)" and "gr_edges g ! gt_slot k = None"
    and "gr_next_generation g < u64_max"
    and "k = \<lparr>gt_graph = gr_id g, gt_slot = gt_slot k, gt_generation = gr_next_generation g\<rparr>"
    and "g' = g\<lparr>gr_next_generation := Suc (gr_next_generation g),
      gr_edges := (gr_edges g)[gt_slot k := Some (new_edge g p c)]\<rparr>"
  using assms
  by (auto simp: add_interest_def gr_allocate_generation_cases new_edge_def validate_node_cases
      dest: position_SomeD split: if_splits option.splits sum.splits)

lemma check_child_Inr:
  "check_child g p (Some c) = Inr () \<Longrightarrow>
   node_live g c \<and> p \<noteq> c \<and> ((p, c) \<in> epoll_edges g \<or>
     card {q. (q, c) \<in> epoll_edges g} < gl_max_parents (gr_limits g))"
  by (auto simp: check_child_def validate_node_cases list_ex_iff epoll_edges_def
      distinct_parent_count_card [unfolded epoll_edges_def] split: if_splits)

lemma node_live_cong:
  "gr_id g' = gr_id g \<Longrightarrow> gr_nodes g' = gr_nodes g \<Longrightarrow> node_live g' k = node_live g k"
  by (simp add: node_live_iff)

lemma edge_live_cong:
  "gr_id g' = gr_id g \<Longrightarrow> gr_edges g' = gr_edges g \<Longrightarrow> edge_live g' k = edge_live g k"
  by (simp add: edge_live_iff)

text \<open>The state after a step offers no token that it did not offer before or freshly issued.\<close>

definition gr_evolves :: "epoll_graph \<Rightarrow> epoll_graph \<Rightarrow> bool" where
  "gr_evolves g g' \<longleftrightarrow> gr_next_generation g \<le> gr_next_generation g' \<and> gr_limits g' = gr_limits g \<and>
     (\<forall>k. node_live g' k \<longrightarrow> node_live g k \<or> gr_next_generation g \<le> nt_generation k) \<and>
     (\<forall>k. edge_live g' k \<longrightarrow> edge_live g k \<or> gr_next_generation g \<le> gt_generation k)"

lemma gr_evolves_refl [simp]: "gr_evolves g g"
  by (simp add: gr_evolves_def)

lemma gr_register_step:
  assumes inv: "graph_inv g" and r: "gr_register g i = (g', Inr k)"
  shows "graph_inv g' \<and> gr_evolves g g'"
proof -
  note f = r [unfolded gr_register_Inr_iff]
  let ?n = "Some \<lparr>nd_epoll = i, nd_generation = gr_next_generation g\<rparr>"
  have slot: "nt_slot k < length (gr_nodes g)" "gr_nodes g ! nt_slot k = None"
    using f by (auto dest: position_SomeD)
  have g': "gr_edges g' = gr_edges g" "gr_limits g' = gr_limits g" "gr_id g' = gr_id g"
    "gr_nodes g' = (gr_nodes g)[nt_slot k := ?n]"
    "gr_next_generation g' = Suc (gr_next_generation g)" using f by simp_all
  note live = live_edges_cong [OF g'(1)]
  have nodes: "node_live g x \<Longrightarrow> node_live g' x"
    "node_live g' x \<Longrightarrow> node_live g x \<or> gr_next_generation g \<le> nt_generation x" for x
    using slot g' by (auto simp: node_live_iff nth_list_update split: if_splits)
  have "keys_below node_gen (gr_next_generation g') (gr_nodes g')"
    unfolding g' using inv by (intro keys_below_update)
      (auto simp: graph_inv_def counters_ok_def elim: keys_below_mono)
  moreover have "keys_below edge_gen (gr_next_generation g') (gr_edges g')"
    unfolding g' using inv by (auto simp: graph_inv_def counters_ok_def elim: keys_below_mono)
  ultimately have "counters_ok g'" using inv f g' by (simp add: graph_inv_def counters_ok_def)
  moreover have "topology_ok g'"
    using inv live g' by (auto simp: graph_inv_def intro: topology_subset [of g])
  moreover have "endpoints_ok g'"
    using inv nodes(1) by (auto simp: graph_inv_def endpoints_ok_def live)
  moreover have "gr_evolves g g'"
    using nodes(2) edge_live_cong [OF g'(3,1)] g' by (simp add: gr_evolves_def)
  ultimately show ?thesis by (simp add: graph_inv_def)
qed

lemma gr_unregister_step:
  assumes inv: "graph_inv g" and live: "node_live g k"
    and free: "\<not> list_ex (\<lambda>e. ed_parent e = k \<or> ed_child e = Some k) (live_edges g)"
  defines "g' \<equiv> g\<lparr>gr_nodes := (gr_nodes g)[nt_slot k := None]\<rparr>"
  shows "graph_inv g' \<and> gr_evolves g g'"
proof -
  have g': "gr_edges g' = gr_edges g" "gr_id g' = gr_id g" by (simp_all add: g'_def)
  note le = live_edges_cong [OF g'(1)]
  have nodes: "node_live g' x \<longleftrightarrow> node_live g x \<and> x \<noteq> k" for x
    using live by (auto simp: node_live_iff g'_def nth_list_update split: if_splits)
  have "counters_ok g'"
    using inv by (auto simp: graph_inv_def counters_ok_def g'_def intro!: keys_below_update)
  moreover have "topology_ok g'"
    using inv le by (auto simp: graph_inv_def g'_def intro: topology_subset [of g])
  moreover have "endpoints_ok g'"
    using inv free by (auto simp: graph_inv_def endpoints_ok_def le nodes list_ex_iff)
  moreover have "gr_evolves g g'"
    using edge_live_cong [OF g'(2,1)] by (simp add: gr_evolves_def nodes) (simp add: g'_def)
  ultimately show ?thesis by (simp add: graph_inv_def)
qed

lemma add_interest_step:
  assumes inv: "graph_inv g" and r: "add_interest g p c = (g', Inr k)"
  shows "graph_inv g' \<and> gr_evolves g g'"
proof -
  note f = add_interest_Inr [OF r]
  have g': "gr_nodes g' = gr_nodes g" "gr_limits g' = gr_limits g" "gr_id g' = gr_id g"
    "gr_edges g' = (gr_edges g)[gt_slot k := Some (new_edge g p c)]"
    "gr_next_generation g' = Suc (gr_next_generation g)" by (simp_all add: f(8))
  note live = live_edges_added [OF f(4,5) g'(4)]
  note nl = node_live_cong [OF g'(3,1)]
  have "keys_below edge_gen (gr_next_generation g') (gr_edges g')"
    unfolding g' using inv by (intro keys_below_update)
      (auto simp: graph_inv_def counters_ok_def elim: keys_below_mono)
  moreover have "keys_below node_gen (gr_next_generation g') (gr_nodes g')"
    unfolding g' using inv by (auto simp: graph_inv_def counters_ok_def elim: keys_below_mono)
  ultimately have "counters_ok g'" using inv f(6) g' by (simp add: graph_inv_def counters_ok_def)
  moreover have "topology_ok g'"
  proof (rule topology_insert [OF _ f(3) live g'(2)])
    show "\<And>x. c = Some x \<Longrightarrow> (p, x) \<in> epoll_edges g \<or>
        card {q. (q, x) \<in> epoll_edges g} < gl_max_parents (gr_limits g)"
      using f(2) check_child_Inr by blast
  qed (use inv in \<open>simp_all add: graph_inv_def\<close>)
  moreover have "endpoints_ok g'"
    using inv f(1,2) check_child_Inr by (auto simp: graph_inv_def endpoints_ok_def live nl)
  moreover have "edge_live g' x \<Longrightarrow> edge_live g x \<or> gr_next_generation g \<le> gt_generation x" for x
    using f(4) g' by (auto simp: edge_live_iff nth_list_update split: if_splits)
  then have "gr_evolves g g'" using g' nl by (simp add: gr_evolves_def)
  ultimately show ?thesis by (simp add: graph_inv_def)
qed

lemma remove_interest_step:
  assumes inv: "graph_inv g" and r: "remove_interest g k = (g', r)"
  shows "graph_inv g' \<and> gr_evolves g g'"
proof (cases "edge_live g k")
  case True
  then have g': "g' = g\<lparr>gr_edges := (gr_edges g)[gt_slot k := None]\<rparr>"
    using r by (simp add: remove_interest_cases)
  have sub: "set (live_edges g') \<subseteq> set (live_edges g)" using live_edges_removed g' by simp
  have nl: "node_live g' = node_live g" using node_live_cong [of g' g] g' by auto
  have "counters_ok g'"
    using inv g' by (auto simp: graph_inv_def counters_ok_def intro!: keys_below_update)
  moreover have "topology_ok g'"
    using inv sub g' by (auto simp: graph_inv_def intro: topology_subset [of g])
  moreover have "endpoints_ok g'"
    using inv sub by (auto simp: graph_inv_def endpoints_ok_def nl)
  moreover have "edge_live g' x \<Longrightarrow> edge_live g x" for x
    using g' by (cases "gt_slot x = gt_slot k") (auto simp: edge_live_iff)
  then have "gr_evolves g g'" using g' nl by (simp add: gr_evolves_def)
  ultimately show ?thesis by (simp add: graph_inv_def)
next
  case False
  then show ?thesis using inv r by (simp add: remove_interest_cases)
qed

lemma gr_step_inv:
  assumes "gr_step g g'" and inv: "graph_inv g"
  shows "graph_inv g' \<and> gr_evolves g g'"
  using assms(1)
proof cases
  case (step_register i r1)
  then show ?thesis
    using gr_register_step [OF inv] gr_register_Inl inv by (cases r1) fastforce+
next
  case (step_unregister k r2)
  then show ?thesis
    using gr_unregister_step [OF inv, of k] inv
    by (auto simp: gr_unregister_def validate_node_cases split: if_splits)
next
  case (step_add_interest p c r3)
  then show ?thesis
    using add_interest_step [OF inv] add_interest_Inl inv by (cases r3) fastforce+
next
  case (step_remove_interest x r4)
  then show ?thesis using remove_interest_step [OF inv] by blast
qed

interpretation gnodes: generation_domain graph_inv gr_step node_live nt_generation gr_next_generation
proof
  fix s t k
  assume inv: "graph_inv s"
  show "node_live s k \<Longrightarrow> nt_generation k < gr_next_generation s"
    using inv keys_below_nth [of node_gen "gr_next_generation s" "gr_nodes s" "nt_slot k"]
    by (auto simp: graph_inv_def counters_ok_def node_live_iff)
  assume "gr_step s t"
  note st = gr_step_inv [OF this inv]
  show "graph_inv t" "gr_next_generation s \<le> gr_next_generation t"
    "node_live t k \<Longrightarrow> node_live s k \<or> gr_next_generation s \<le> nt_generation k"
    using st by (simp_all add: gr_evolves_def)
qed

interpretation gedges: generation_domain graph_inv gr_step edge_live gt_generation gr_next_generation
proof
  fix s t k
  assume inv: "graph_inv s"
  show "edge_live s k \<Longrightarrow> gt_generation k < gr_next_generation s"
    using inv keys_below_nth [of edge_gen "gr_next_generation s" "gr_edges s" "gt_slot k"]
    by (auto simp: graph_inv_def counters_ok_def edge_live_iff)
  assume "gr_step s t"
  note st = gr_step_inv [OF this inv]
  show "graph_inv t" "gr_next_generation s \<le> gr_next_generation t"
    "edge_live t k \<Longrightarrow> edge_live s k \<or> gr_next_generation s \<le> gt_generation k"
    using st by (simp_all add: gr_evolves_def)
qed

lemma gr_try_new_inv:
  assumes "limits_try_new nodes edges parents nesting steps = Inr l" and "nodes \<le> usize_max" and "nesting \<le> usize_max"
    and "gr_try_new alloc_ok i l = Inr g"
  shows "graph_inv g"
proof -
  have g: "gr_nodes g = replicate nodes None" "gr_edges g = replicate edges None"
    "gr_next_generation g = 1" "gl_node_capacity (gr_limits g) = nodes"
    "gl_edge_capacity (gr_limits g) = edges" "nodes < usize_max"
    "gl_max_nesting (gr_limits g) \<le> usize_max"
    using assms by (auto simp: limits_try_new_def gr_try_new_def split: if_splits)
  have live: "live_edges g = []"
    using live_edges_iff [of _ g] g(2) by (cases "live_edges g") auto
  have "(x, y) \<in> watches g ^^ n \<Longrightarrow> n = 0" for x y n
    using live by (cases n) (auto simp: watches_def)
  then have "topology_ok g"
    using live by (auto simp: topology_ok_def epoll_edges_def acyclic_def)
  moreover have "counters_ok g" using g by (simp add: counters_ok_def int_max_numerals)
  moreover have "endpoints_ok g" using live by (simp add: endpoints_ok_def)
  ultimately show ?thesis by (simp add: graph_inv_def)
qed

section \<open>An example graph\<close>

definition ex_limits :: graph_limits where
  "ex_limits = \<lparr>gl_node_capacity = 2, gl_edge_capacity = 2, gl_max_parents = 1, gl_max_nesting = 3,
     gl_max_walk_steps = 100\<rparr>"

definition ex_node :: "nat \<Rightarrow> node_token" where
  "ex_node n = \<lparr>nt_graph = 5, nt_slot = n, nt_generation = Suc n, nt_epoll = (if n = 0 then 10 else 11)\<rparr>"

definition ex_graph :: epoll_graph where
  "ex_graph = \<lparr>gr_id = 5, gr_limits = ex_limits,
     gr_nodes = [Some \<lparr>nd_epoll = 10, nd_generation = 1\<rparr>, Some \<lparr>nd_epoll = 11, nd_generation = 2\<rparr>],
     gr_edges = [None, None], gr_next_generation = 3\<rparr>"

lemma ex_limits_eq: "limits_try_new 2 2 1 3 100 = Inr ex_limits"
  by (simp add: limits_try_new_def ex_limits_def int_max_numerals)

lemma ex_graph_steps:
  "\<exists>g0. gr_try_new (\<lambda>_. True) 5 ex_limits = Inr g0 \<and> gr_step\<^sup>*\<^sup>* g0 ex_graph"
proof -
  let ?g0 = "\<lparr>gr_id = 5, gr_limits = ex_limits, gr_nodes = [None, None], gr_edges = [None, None],
    gr_next_generation = 1\<rparr>"
  let ?g1 = "fst (gr_register ?g0 10)"
  note defs = gr_register_def gr_allocate_generation_def checked_add_def int_max_numerals
    List.map_filter_def ex_graph_def
  have "gr_try_new (\<lambda>_. True) 5 ex_limits = Inr ?g0"
    by (simp add: gr_try_new_def ex_limits_def numeral_2_eq_2)
  moreover have "gr_step ?g0 ?g1" by (rule step_register [OF prod.collapse [symmetric]])
  moreover have "fst (gr_register ?g1 11) = ex_graph" by (simp add: defs)
  then have "gr_step ?g1 ex_graph" by (metis step_register prod.collapse)
  ultimately show ?thesis by (meson converse_rtranclp_into_rtranclp r_into_rtranclp)
qed

lemma ex_graph_inv: "graph_inv ex_graph"
  using ex_graph_steps gnodes.inv_steps gr_try_new_inv [OF ex_limits_eq]
  by (auto simp: int_max_numerals)

lemma ex_add_interest:
  "add_interest ex_graph (ex_node 0) (Some (ex_node 1)) =
     (ex_graph\<lparr>gr_next_generation := 4,
        gr_edges := [Some \<lparr>ed_generation = 3, ed_parent = ex_node 0, ed_child = Some (ex_node 1)\<rparr>, None]\<rparr>,
      Inr \<lparr>gt_graph = 5, gt_slot = 0, gt_generation = 3\<rparr>)"
  by (simp add: add_interest_def validate_node_def check_child_def check_walks_def ex_graph_def
      ex_node_def ex_limits_def vec_get_def distinct_parent_count_def live_edges_def
      List.map_filter_def reaches.simps max_parent_depth.simps max_descendant_depth.simps
      spending_def gr_allocate_generation_def checked_add_def int_max_numerals)

section \<open>Properties\<close>

text \<open>
  C15. The published topology is always sound. In every graph reachable from a new one by any
  sequence of registrations, removals and interest changes, the epoll-to-epoll interests
  are acyclic, no chain of interests is longer than the configured nesting, no epoll has
  more distinct parents than configured, and both ends of every interest are registered.
\<close>

theorem graph_reachable_sound:
  assumes "limits_try_new nodes edges parents nesting steps = Inr l" and "nodes \<le> usize_max" and "nesting \<le> usize_max"
    and "gr_try_new alloc_ok i l = Inr g0" and "gr_step\<^sup>*\<^sup>* g0 g"
  shows "acyclic (epoll_edges g) \<and>
    (\<forall>p n y. (Some p, y) \<in> watches g ^^ n \<longrightarrow> n \<le> nesting) \<and>
    (\<forall>c. distinct_parent_count g c \<le> parents) \<and>
    (\<forall>e \<in> set (live_edges g). node_live g (ed_parent e) \<and> (\<forall>c. ed_child e = Some c \<longrightarrow> node_live g c))"
proof -
  have inv0: "graph_inv g0" by (rule gr_try_new_inv [OF assms(1-4)])
  have "gr_limits g = gr_limits g0"
    using assms(5)
  proof (induction rule: rtranclp_induct)
    case (step u v)
    then show ?case
      using gr_step_inv [OF step.hyps(2) gnodes.inv_steps [OF step.hyps(1) inv0]]
      by (simp add: gr_evolves_def)
  qed simp
  moreover have "gl_max_nesting (gr_limits g0) = nesting" "gl_max_parents (gr_limits g0) = parents"
    using assms(1,4) by (auto simp: limits_try_new_def gr_try_new_def split: if_splits)
  ultimately show ?thesis
    using gnodes.inv_steps [OF assms(5) inv0]
    by (auto simp: graph_inv_def topology_ok_def endpoints_ok_def distinct_parent_count_card)
qed

theorem graph_reachable_sound_witness:
  "acyclic (epoll_edges (fst (add_interest ex_graph (ex_node 0) (Some (ex_node 1)))))"
proof -
  obtain g0 where g0: "gr_try_new (\<lambda>_. True) 5 ex_limits = Inr g0" "gr_step\<^sup>*\<^sup>* g0 ex_graph"
    using ex_graph_steps by blast
  have "gr_step ex_graph (fst (add_interest ex_graph (ex_node 0) (Some (ex_node 1))))"
    by (rule step_add_interest [OF prod.collapse [symmetric]])
  with g0(2) have "gr_step\<^sup>*\<^sup>* g0 (fst (add_interest ex_graph (ex_node 0) (Some (ex_node 1))))"
    by (rule rtranclp.rtrancl_into_rtrancl)
  from graph_reachable_sound [OF ex_limits_eq _ _ g0(1) this] show ?thesis
    by (simp add: int_max_numerals)
qed

text \<open>
  C16. Admission verdicts are exact, for an epoll target and for any other target. An interest
  that is admitted is published as one new edge in a vacant slot, from the watcher to the
  target and under the generation of the returned token, and no other slot changes; the edge
  closes no cycle and creates no chain beyond the nesting limit. A refusal changes nothing;
  \<open>Cycle\<close> is only reported when the target is an epoll that already reaches the watcher, and
  \<open>Nesting\<close> only when the new edge would complete a chain that is too long.
\<close>

theorem add_interest_verdict:
  assumes inv: "graph_inv g" and add: "add_interest g p child = (g', r)"
  shows "case r of
      Inr k \<Rightarrow> gt_slot k < length (gr_edges g) \<and> gr_edges g ! gt_slot k = None \<and>
        g' = g\<lparr>gr_next_generation := Suc (gt_generation k), gr_edges := (gr_edges g)[gt_slot k :=
          Some \<lparr>ed_generation = gt_generation k, ed_parent = p, ed_child = child\<rparr>]\<rparr> \<and>
        watches g' = insert (Some p, child) (watches g) \<and>
        (\<forall>c. child = Some c \<longrightarrow> (c, p) \<notin> (epoll_edges g)\<^sup>*) \<and>
        (\<forall>i j q y. (q, p) \<in> epoll_edges g ^^ i \<and> (child, y) \<in> watches g ^^ j \<longrightarrow>
           i + 1 + j \<le> gl_max_nesting (gr_limits g))
    | Inl err \<Rightarrow> g' = g \<and>
        (err = GrCycle \<longrightarrow> (\<exists>c. child = Some c \<and> (c, p) \<in> (epoll_edges g)\<^sup>*)) \<and>
        (err = GrNesting \<longrightarrow> (\<exists>i j q y. (q, p) \<in> epoll_edges g ^^ i \<and> (child, y) \<in> watches g ^^ j \<and>
           gl_max_nesting (gr_limits g) < i + 1 + j))"
proof (cases r)
  case (Inr k)
  note f = add_interest_Inr [OF add [unfolded Inr]]
  from check_walks_Inr [OF f(3)] obtain a b where
    h: "is_height ((epoll_edges g)\<inverse>) p a" "is_height (watches g) child b"
      "a + 1 + b \<le> gl_max_nesting (gr_limits g)" "\<forall>c. child = Some c \<longrightarrow> (c, p) \<notin> (epoll_edges g)\<^sup>*"
    by blast
  have gen: "gt_generation k = gr_next_generation g" using f(7) by (metis edge_token.select_convs(3))
  have live: "set (live_edges g') = insert (new_edge g p child) (set (live_edges g))"
    by (rule live_edges_added [OF f(4,5)]) (simp add: f(8))
  then have "watches g' = insert (Some p, child) (watches g)" by (auto simp: watches_def)
  moreover have "i + 1 + j \<le> gl_max_nesting (gr_limits g)"
    if "(q, p) \<in> epoll_edges g ^^ i" "(child, y) \<in> watches g ^^ j" for i j q y
    using is_heightD [OF h(1), of q i] is_heightD [OF h(2) that(2)] that(1) h(3)
    by (simp add: relpow_converse_iff)
  moreover have "g' = g\<lparr>gr_next_generation := Suc (gt_generation k), gr_edges := (gr_edges g)[gt_slot k :=
      Some \<lparr>ed_generation = gt_generation k, ed_parent = p, ed_child = child\<rparr>]\<rparr>"
    unfolding gen by (rule f(8) [unfolded new_edge_def])
  ultimately show ?thesis unfolding Inr sum.case using h(4) f(4,5) by blast
next
  case (Inl err)
  then have "check_walks g p child = Inl err \<or> err \<notin> {GrCycle, GrNesting}"
    using add by (auto simp: add_interest_def check_child_def validate_node_cases
        gr_allocate_generation_cases split: if_splits option.splits sum.splits)
  moreover have "g' = g" using add Inl add_interest_Inl by blast
  ultimately show ?thesis using check_walks_Inl [OF inv, of p child err] Inl by auto
qed

theorem add_interest_verdict_witness:
  "watches (fst (add_interest ex_graph (ex_node 0) (Some (ex_node 1)))) =
     insert (Some (ex_node 0), Some (ex_node 1)) (watches ex_graph)"
  unfolding ex_add_interest fst_conv
  using add_interest_verdict [OF ex_graph_inv ex_add_interest] unfolding sum.case by blast

text \<open>
  C17. The walk budget is a real bound, not a lottery. If the configured budget covers three
  exhaustive walks of the graph at hand, then every admission check completes: \<open>WalkLimit\<close> is
  never reported, whatever the endpoints.
\<close>

theorem add_interest_budget:
  assumes inv: "graph_inv g"
    and budget: "3 * walk_cost (edge_count g) (length (gr_nodes g)) \<le> gl_max_walk_steps (gr_limits g)"
  shows "snd (add_interest g p child) \<noteq> Inl GrWalkLimit"
proof -
  let ?w = "walk_cost (length (live_edges g)) (length (gr_nodes g))"
  have big: "length (gr_nodes g) < usize_max" using inv by (auto simp: graph_inv_def counters_ok_def)
  have up: "\<exists>b' r. max_parent_depth g p b 0 = (b', Inr r) \<and> b \<le> b' + ?w" if "?w \<le> b" for b
    using max_parent_depth_budget [OF epoll_chain_bound(2) [OF inv] _ that big] by simp
  have down: "\<exists>b' r. max_descendant_depth g c b 0 = (b', Inr r) \<and> b \<le> b' + ?w" if "?w \<le> b" for c b
    using max_descendant_depth_budget [OF watch_chain_bound [OF inv] _ that big] by simp
  have reach: "\<exists>b' r. reaches g c p b 0 = (b', Inr r) \<and> b \<le> b' + ?w" if "?w \<le> b" for c b
    using reaches_budget [OF epoll_chain_bound(1) [OF inv] _ that] by simp
  let ?s = "gl_max_walk_steps (gr_limits g)"
  have b: "3 * ?w \<le> ?s" using budget by (simp add: edge_count_def)
  have "check_walks g p child \<noteq> Inl GrWalkLimit"
  proof (cases child)
    case None
    from up [of ?s] b obtain b1 r1 where "max_parent_depth g p ?s 0 = (b1, Inr r1)" by auto
    with None show ?thesis by (simp add: check_walks_def checked_add_def)
  next
    case (Some c)
    from reach [of ?s c] b obtain b0 r0 where 0: "reaches g c p ?s 0 = (b0, Inr r0)" "2 * ?w \<le> b0"
      by auto
    from up [of b0] 0 obtain b1 r1 where 1: "max_parent_depth g p b0 0 = (b1, Inr r1)" "?w \<le> b1" by auto
    from down [of b1 c] 1 obtain b2 r2 where "max_descendant_depth g c b1 0 = (b2, Inr r2)" by auto
    with Some 0 1 show ?thesis by (cases r0) (simp_all add: check_walks_def checked_add_def)
  qed
  then show ?thesis
    by (auto simp: add_interest_def check_child_def validate_node_cases gr_allocate_generation_cases
        split: if_splits option.splits sum.splits)
qed

theorem add_interest_budget_witness:
  "snd (add_interest ex_graph (ex_node 1) (Some (ex_node 0))) \<noteq> Inl GrWalkLimit"
  by (rule add_interest_budget [OF ex_graph_inv])
    (simp add: edge_count_def live_edges_def List.map_filter_def ex_graph_def ex_limits_def
      numeral_2_eq_2)

text \<open>
  C18. Node and edge tokens are never resurrected. Once an epoll is unregistered or an interest
  removed, its token is refused after every further sequence of operations, although both
  kinds of slot are reused.
\<close>

theorem graph_tokens_stale:
  assumes inv: "graph_inv g" and steps: "gr_step\<^sup>*\<^sup>* g' g2"
  shows "(gr_unregister g k = (g', Inr ()) \<longrightarrow>
      gr_unregister g2 k = (g2, Inl GrStaleToken) \<and> snd (add_interest g2 k c) = Inl GrStaleToken) \<and>
    (remove_interest g x = (g', Inr ()) \<longrightarrow> remove_interest g2 x = (g2, Inl GrStaleToken))"
proof (intro conjI impI)
  assume "gr_unregister g k = (g', Inr ())"
  then have live: "node_live g k" and g': "g' = g\<lparr>gr_nodes := (gr_nodes g)[nt_slot k := None]\<rparr>"
    and step: "gr_step g g'"
    by (auto simp: gr_unregister_def validate_node_cases intro: step_unregister split: if_splits)
  have "nt_generation k < gr_next_generation g'"
    using gnodes.issued [OF inv live] g' by simp
  moreover have "\<not> node_live g' k" using live g' by (simp add: node_live_iff)
  ultimately have "\<not> node_live g2 k"
    using gnodes.stale_forever [OF steps] gnodes.inv_step [OF inv step] by blast
  then show "gr_unregister g2 k = (g2, Inl GrStaleToken)"
    and "snd (add_interest g2 k c) = Inl GrStaleToken"
    by (simp_all add: gr_unregister_def add_interest_def validate_node_cases)
next
  assume r: "remove_interest g x = (g', Inr ())"
  then have live: "edge_live g x" and g': "g' = g\<lparr>gr_edges := (gr_edges g)[gt_slot x := None]\<rparr>"
    by (auto simp: remove_interest_cases split: if_splits)
  have "gt_generation x < gr_next_generation g'"
    using gedges.issued [OF inv live] g' by simp
  moreover have "\<not> edge_live g' x" using live g' by (simp add: edge_live_iff)
  ultimately have "\<not> edge_live g2 x"
    using gedges.stale_forever [OF steps] gedges.inv_step [OF inv step_remove_interest [OF r]] by blast
  then show "remove_interest g2 x = (g2, Inl GrStaleToken)" by (simp add: remove_interest_cases)
qed

theorem graph_tokens_stale_witness:
  "let g1 = fst (gr_unregister ex_graph (ex_node 1)); g2 = fst (gr_register g1 11)
   in gr_unregister g2 (ex_node 1) = (g2, Inl GrStaleToken)"
proof -
  let ?g1 = "fst (gr_unregister ex_graph (ex_node 1))"
  have "gr_unregister ex_graph (ex_node 1) = (?g1, Inr ())"
    by (simp add: gr_unregister_def validate_node_def vec_get_def ex_graph_def ex_node_def
        live_edges_def List.map_filter_def)
  moreover have "gr_step\<^sup>*\<^sup>* ?g1 (fst (gr_register ?g1 11))"
    by (rule r_into_rtranclp) (rule step_register [OF prod.collapse [symmetric]])
  ultimately show ?thesis
    unfolding Let_def
    by (rule graph_tokens_stale [OF ex_graph_inv, THEN conjunct1, THEN mp, THEN conjunct1, rotated])
qed

end
