(* ===== verification/Bounded_Account.thy ===== *)
theory Bounded_Account
  imports Abi_Prelude "HOL-Library.Multiset"
begin

text \<open>
  Bounded credit accounts. The compare-and-exchange retry loop that the crates use on an
  atomic counter is modelled with its interference: every attempt meets some value in memory
  and may fail spuriously. The locale states what an account promises its clients, and proves
  once that under every sequence of charges and refunds of outstanding charges the counter is
  the sum of the outstanding charges and never exceeds the limit.
\<close>

section \<open>The retry loop\<close>

text \<open>
  \<open>attempts\<close> lists what the successive \<open>compare_exchange_weak\<close> calls meet: the value in
  memory and whether the call fails spuriously. The loop answers \<open>Inl\<close> with the value that
  \<open>update\<close> refused, or \<open>Inr (previous, next)\<close> for the exchange it made; \<open>None\<close> stands for a
  loop that has not returned within the listed attempts.
\<close>

fun try_atomic_update ::
  "(nat \<Rightarrow> nat option) \<Rightarrow> nat \<Rightarrow> (nat \<times> bool) list \<Rightarrow> (nat + nat \<times> nat) option" where
  "try_atomic_update update current [] =
     (case update current of None \<Rightarrow> Some (Inl current) | Some new \<Rightarrow> None)"
| "try_atomic_update update current ((actual, spurious) # rest) =
     (case update current of
        None \<Rightarrow> Some (Inl current)
      | Some new \<Rightarrow>
          if actual = current \<and> \<not> spurious then Some (Inr (current, new))
          else try_atomic_update update actual rest)"

text \<open>An exchange happens at one instant, on the value that is in memory at that instant.\<close>

lemma try_atomic_update_Inr:
  "try_atomic_update update current attempts = Some (Inr (previous, new)) \<Longrightarrow>
   update previous = Some new \<and> (previous, False) \<in> set attempts"
  by (induction update current attempts rule: try_atomic_update.induct)
    (auto split: option.splits if_splits)

lemma try_atomic_update_Inl:
  "try_atomic_update update current attempts = Some (Inl seen) \<Longrightarrow>
   update seen = None \<and> (seen = current \<or> seen \<in> fst ` set attempts)"
  by (induction update current attempts rule: try_atomic_update.induct)
    (auto split: option.splits if_splits)

text \<open>
  A loop that has not returned met, at every attempt, another value than the one it expected or a
  spurious failure; it expects the value its previous attempt met.
\<close>

lemma try_atomic_update_None:
  "try_atomic_update update current attempts = None \<Longrightarrow> i < length attempts \<Longrightarrow>
   attempts ! i \<noteq> ((current # map fst attempts) ! i, False)"
proof (induction update current attempts arbitrary: i rule: try_atomic_update.induct)
  case (2 update current actual spurious rest)
  then show ?case by (cases i) (auto split: option.splits if_splits)
qed simp

section \<open>The account contract\<close>

locale bounded_account =
  fixes used :: "'a \<Rightarrow> nat"
    and limit :: "'a \<Rightarrow> nat"
    and charge :: "'a \<Rightarrow> nat \<Rightarrow> 'a option"
    and refund :: "'a \<Rightarrow> nat \<Rightarrow> 'a"
  assumes charge_ok: "charge a n = Some b \<Longrightarrow> used b = used a + n \<and> used b \<le> limit b \<and> limit b = limit a"
    and charge_refused: "charge a n = None \<Longrightarrow> limit a \<le> usize_max \<Longrightarrow> limit a < used a + n"
    and refund_ok: "n \<le> used a \<Longrightarrow> used (refund a n) = used a - n \<and> limit (refund a n) = limit a"
begin

text \<open>Clients hold a multiset of outstanding charges.\<close>

inductive account_step :: "'a \<times> nat multiset \<Rightarrow> 'a \<times> nat multiset \<Rightarrow> bool" where
  charged: "charge a n = Some b \<Longrightarrow> account_step (a, held) (b, add_mset n held)"
| refunded: "account_step (a, add_mset n held) (refund a n, held)"

definition balanced :: "'a \<times> nat multiset \<Rightarrow> bool" where
  "balanced s \<longleftrightarrow> used (fst s) = sum_mset (snd s) \<and> used (fst s) \<le> limit (fst s)"

lemma balanced_step: "account_step s t \<Longrightarrow> balanced s \<Longrightarrow> balanced t \<and> limit (fst t) = limit (fst s)"
proof (induction rule: account_step.induct)
  case (charged a n b held)
  then show ?case using charge_ok [of a n b] by (simp add: balanced_def)
next
  case (refunded a n held)
  then have "n \<le> used a" by (simp add: balanced_def)
  then show ?case using refunded refund_ok [of n a] by (simp add: balanced_def)
qed

lemma balanced_steps: "account_step\<^sup>*\<^sup>* s t \<Longrightarrow> balanced s \<Longrightarrow> balanced t \<and> limit (fst t) = limit (fst s)"
  by (induction rule: rtranclp_induct) (use balanced_step in auto)

lemma all_refunded: "account_step\<^sup>*\<^sup>* s (a, {#}) \<Longrightarrow> balanced s \<Longrightarrow> used a = 0"
  using balanced_steps by (fastforce simp: balanced_def)

lemma charge_then_refund:
  "charge a n = Some b \<Longrightarrow> used (refund b n) = used a \<and> limit (refund b n) = limit a"
  using charge_ok [of a n b] refund_ok [of n b] by simp

end

end
