(* ===== verification/Watch_Subscription.thy ===== *)
theory Watch_Subscription
  imports Bounded_Account
begin

text \<open>
  Source subscriptions (\<^verbatim>\<open>crates/fd/src/subscription.rs\<close>): the watch account, the two-phase
  aggregate registration and the published subscription. The low-level registrations are
  supplied by the caller through the trait \<open>RetainedRegistration\<close>; their \<open>update\<close> and
  \<open>cancel\<close> are parameters here, functions from a registration to the registration after the
  call and its answer. An operation that consumes its owner returns the account after every
  refund and the registrations after every cancellation it made.
\<close>

section \<open>Account\<close>

record watch_account =
  wa_limit :: nat
  wa_used :: u64

datatype watch_charge_error = WcLimit | WcUnbounded

definition wa_try_new :: "nat \<Rightarrow> watch_charge_error + watch_account" where
  "wa_try_new limit =
     (if limit = usize_max then Inl WcUnbounded else Inr \<lparr>wa_limit = limit, wa_used = 0\<rparr>)"

definition charge_update :: "nat \<Rightarrow> nat \<Rightarrow> nat \<Rightarrow> nat option" where
  "charge_update limit amount used =
     (case checked_add usize_max used amount of
        None \<Rightarrow> None
      | Some new \<Rightarrow> if new \<le> limit then Some new else None)"

text \<open>A charge without interference; \<open>Inr\<close> carries the amount of the returned charge.\<close>

definition try_charge :: "watch_account \<Rightarrow> nat \<Rightarrow> (watch_account, watch_charge_error, nat) outcome" where
  "try_charge a amount =
     (case try_atomic_update (charge_update (wa_limit a) amount) (unat (wa_used a))
             [(unat (wa_used a), False)] of
        Some (Inr (_, new)) \<Rightarrow> (a\<lparr>wa_used := of_nat new\<rparr>, Inr amount)
      | _ \<Rightarrow> (a, Inl WcLimit))"

text \<open>\<open>fetch_sub\<close> on the 64-bit counter; it wraps around.\<close>

definition wa_refund :: "watch_account \<Rightarrow> nat \<Rightarrow> watch_account" where
  "wa_refund a amount = a\<lparr>wa_used := wa_used a - of_nat amount\<rparr>"

datatype commit_subscription_error = CsInvalidState

definition reduce_to ::
  "watch_account \<Rightarrow> nat \<Rightarrow> nat \<Rightarrow> (watch_account \<times> nat, commit_subscription_error, unit) outcome" where
  "reduce_to a held amount =
     (if amount > held then ((a, held), Inl CsInvalidState)
      else ((wa_refund a (held - amount), amount), Inr ()))"

definition charge_drop :: "watch_account \<Rightarrow> nat option \<Rightarrow> watch_account" where
  "charge_drop a held = (case held of None \<Rightarrow> a | Some n \<Rightarrow> wa_refund a n)"

section \<open>Registrations\<close>

datatype cancel_state = Cancelled | AlreadyInactive

datatype 'e aggregate_error = AggregateError (ae_index: nat) (ae_error: 'e)

datatype 'e arm_error = ArmCapacity nat | ArmSource "'e aggregate_error" | ArmInvalidState

datatype prepare_subscription_error = PsQuota | PsNoMemory

type_synonym ('r, 'e) cancel_fn = "'r \<Rightarrow> 'r \<times> ('e + cancel_state)"
type_synonym ('r, 'e) update_fn = "'r \<Rightarrow> 'r \<times> ('e + unit)"

definition cancel_all :: "('r, 'e) cancel_fn \<Rightarrow> 'r list \<Rightarrow> 'r list" where
  "cancel_all cancel rs = map (\<lambda>r. fst (cancel r)) rs"

text \<open>The loop shared by \<open>cancel_all_result\<close> and \<open>update_all\<close>: every source is tried, the first error is kept.\<close>

fun try_each ::
  "('r \<Rightarrow> 'r \<times> ('e + 'a)) \<Rightarrow> nat \<Rightarrow> 'e aggregate_error option \<Rightarrow> 'r list \<Rightarrow>
   'r list \<times> 'e aggregate_error option" where
  "try_each f index first [] = ([], first)"
| "try_each f index first (r # rs) =
     (let first' = (case snd (f r) of
          Inl e \<Rightarrow> if first = None then Some (AggregateError index e) else first
        | Inr _ \<Rightarrow> first)
      in case try_each f (index + 1) first' rs of (rs', last_first) \<Rightarrow> (fst (f r) # rs', last_first))"

definition first_result :: "'e aggregate_error option \<Rightarrow> 'e aggregate_error + unit" where
  "first_result first = (case first of None \<Rightarrow> Inr () | Some e \<Rightarrow> Inl e)"

definition cancel_all_result ::
  "('r, 'e) cancel_fn \<Rightarrow> 'r list \<Rightarrow> 'r list \<times> ('e aggregate_error + unit)" where
  "cancel_all_result cancel rs =
     (case try_each cancel 0 None rs of (rs', first) \<Rightarrow> (rs', first_result first))"

section \<open>Prepared subscriptions\<close>

record 'r prepared_subscription =
  ps_registrations :: "'r list option"
  ps_charge :: "nat option"
  ps_maximum :: nat

record 'r subscription =
  su_registrations :: "'r list option"
  su_charge :: "nat option"

definition ps_try_new ::
  "(nat \<Rightarrow> bool) \<Rightarrow> watch_account \<Rightarrow> nat \<Rightarrow>
   (watch_account, prepare_subscription_error, 'r prepared_subscription) outcome" where
  "ps_try_new alloc_ok a maximum_sources =
     (case try_charge a maximum_sources of
        (a1, Inl _) \<Rightarrow> (a1, Inl PsQuota)
      | (a1, Inr charge) \<Rightarrow>
          if \<not> alloc_ok maximum_sources then (charge_drop a1 (Some charge), Inl PsNoMemory)
          else (a1, Inr \<lparr>ps_registrations = Some [], ps_charge = Some charge,
                         ps_maximum = maximum_sources\<rparr>))"

definition armed_sources :: "'r prepared_subscription \<Rightarrow> nat" where
  "armed_sources p = (case ps_registrations p of None \<Rightarrow> 0 | Some rs \<Rightarrow> length rs)"

text \<open>\<open>arm\<close> is the answer of the caller's closure, which only runs while there is room.\<close>

definition arm_with ::
  "'r prepared_subscription \<Rightarrow> ('e + 'r) \<Rightarrow> ('r prepared_subscription, 'e arm_error, unit) outcome" where
  "arm_with p arm =
     (case ps_registrations p of
        None \<Rightarrow> (p, Inl ArmInvalidState)
      | Some rs \<Rightarrow>
          if length rs \<ge> ps_maximum p then (p, Inl (ArmCapacity (ps_maximum p)))
          else case arm of
            Inr r \<Rightarrow> (p\<lparr>ps_registrations := Some (rs @ [r])\<rparr>, Inr ())
          | Inl e \<Rightarrow> (p, Inl (ArmSource (AggregateError (length rs) e))))"

text \<open>Arming a source that the caller's closure registers.\<close>

definition arm_ok :: "'r \<Rightarrow> 'r prepared_subscription \<Rightarrow> 'r prepared_subscription" where
  "arm_ok r p = fst (arm_with p (Inr r :: unit + 'r))"

text \<open>
  \<open>commit\<close> consumes the prepared owner. On the error paths the taken registrations are
  cancelled, a taken charge is dropped with the local that holds it, and what is still in the
  owner is released by its destructor.
\<close>

definition ps_commit ::
  "('r, 'e) cancel_fn \<Rightarrow> watch_account \<Rightarrow> 'r prepared_subscription \<Rightarrow>
   (watch_account \<times> 'r list, commit_subscription_error, 'r subscription) outcome" where
  "ps_commit cancel a p =
     (case ps_registrations p of
        None \<Rightarrow> ((charge_drop a (ps_charge p), []), Inl CsInvalidState)
      | Some rs \<Rightarrow>
          (case ps_charge p of
             None \<Rightarrow> ((a, cancel_all cancel rs), Inl CsInvalidState)
           | Some held \<Rightarrow>
               (case reduce_to a held (length rs) of
                  ((a1, held1), Inl e) \<Rightarrow> ((wa_refund a1 held1, cancel_all cancel rs), Inl e)
                | ((a1, held1), Inr _) \<Rightarrow>
                    ((a1, []), Inr \<lparr>su_registrations = Some rs, su_charge = Some held1\<rparr>))))"

definition ps_drop ::
  "('r, 'e) cancel_fn \<Rightarrow> watch_account \<Rightarrow> 'r prepared_subscription \<Rightarrow> watch_account \<times> 'r list" where
  "ps_drop cancel a p =
     (charge_drop a (ps_charge p),
      case ps_registrations p of None \<Rightarrow> [] | Some rs \<Rightarrow> cancel_all cancel rs)"

section \<open>Published subscriptions\<close>

definition source_count :: "'r subscription \<Rightarrow> nat" where
  "source_count s = (case su_registrations s of None \<Rightarrow> 0 | Some rs \<Rightarrow> length rs)"

definition update_all ::
  "('r, 'e) update_fn \<Rightarrow> 'r subscription \<Rightarrow> 'r subscription \<times> ('e aggregate_error + unit)" where
  "update_all update s =
     (case su_registrations s of
        None \<Rightarrow> (s, first_result None)
      | Some rs \<Rightarrow>
          (case try_each update 0 None rs of
             (rs', first) \<Rightarrow> (s\<lparr>su_registrations := Some rs'\<rparr>, first_result first)))"

definition su_cancel ::
  "('r, 'e) cancel_fn \<Rightarrow> watch_account \<Rightarrow> 'r subscription \<Rightarrow>
   (watch_account \<times> 'r list, 'e aggregate_error, unit) outcome" where
  "su_cancel cancel a s =
     (case (case su_registrations s of None \<Rightarrow> ([], Inr ()) | Some rs \<Rightarrow> cancel_all_result cancel rs) of
        (rs', result) \<Rightarrow> ((charge_drop a (su_charge s), rs'), result))"

definition su_drop ::
  "('r, 'e) cancel_fn \<Rightarrow> watch_account \<Rightarrow> 'r subscription \<Rightarrow> watch_account \<times> 'r list" where
  "su_drop cancel a s =
     (charge_drop a (su_charge s),
      case su_registrations s of None \<Rightarrow> [] | Some rs \<Rightarrow> cancel_all cancel rs)"

section \<open>The account keeps the contract\<close>

definition accepted :: "('s, 'e, 'a) outcome \<Rightarrow> 's option" where
  "accepted r = (case snd r of Inl _ \<Rightarrow> None | Inr _ \<Rightarrow> Some (fst r))"

lemma charge_update_Some_iff:
  "charge_update l n u = Some v \<longleftrightarrow> v = u + n \<and> u + n \<le> l \<and> u + n \<le> usize_max"
  by (auto simp: charge_update_def checked_iffs split: option.splits if_splits)

lemma charge_update_None_iff: "charge_update l n u = None \<longleftrightarrow> l < u + n \<or> usize_max < u + n"
  using charge_update_Some_iff [of l n u "u + n"] by (cases "charge_update l n u") (auto simp: charge_update_Some_iff)

lemma try_charge_cases:
  "try_charge a n =
     (if unat (wa_used a) + n \<le> wa_limit a \<and> unat (wa_used a) + n \<le> usize_max
      then (a\<lparr>wa_used := of_nat (unat (wa_used a) + n)\<rparr>, Inr n) else (a, Inl WcLimit))"
proof (cases "charge_update (wa_limit a) n (unat (wa_used a))")
  case None
  then show ?thesis using charge_update_None_iff [of "wa_limit a" n "unat (wa_used a)"]
    by (auto simp: try_charge_def)
next
  case (Some v)
  then show ?thesis using charge_update_Some_iff [of "wa_limit a" n "unat (wa_used a)" v]
    by (simp add: try_charge_def)
qed

interpretation watch: bounded_account "\<lambda>a. unat (wa_used a)" wa_limit "\<lambda>a n. accepted (try_charge a n)" wa_refund
proof
  fix a b n
  show "accepted (try_charge a n) = Some b \<Longrightarrow>
    unat (wa_used b) = unat (wa_used a) + n \<and> unat (wa_used b) \<le> wa_limit b \<and> wa_limit b = wa_limit a"
    by (auto simp: try_charge_cases accepted_def unat_plus_usize split: if_splits)
  show "accepted (try_charge a n) = None \<Longrightarrow> wa_limit a \<le> usize_max \<Longrightarrow> wa_limit a < unat (wa_used a) + n"
    by (auto simp: try_charge_cases accepted_def split: if_splits)
  show "n \<le> unat (wa_used a) \<Longrightarrow>
    unat (wa_used (wa_refund a n)) = unat (wa_used a) - n \<and> wa_limit (wa_refund a n) = wa_limit a"
    by (simp add: wa_refund_def unat_minus_usize)
qed

section \<open>Properties\<close>

lemma try_each_spec:
  "try_each f i first rs =
     (map (\<lambda>r. fst (f r)) rs,
      case first of
        Some e \<Rightarrow> Some e
      | None \<Rightarrow>
          map_option (\<lambda>k. AggregateError (i + k) (projl (snd (f (rs ! k)))))
            (position (\<lambda>r. isl (snd (f r))) rs))"
proof (induction f i first rs rule: try_each.induct)
  case (1 f i first)
  then show ?case by (simp split: option.splits)
next
  case (2 f i first r rs)
  show ?case
  proof (cases first)
    case (Some e)
    then show ?thesis using 2 by (auto simp: Let_def split: sum.splits)
  next
    case None
    then show ?thesis using 2
      by (cases "snd (f r)") (auto simp: Let_def option.map_comp comp_def)
  qed
qed

text \<open>
  C19. Contention is harmless. Whatever values and spurious failures the retry loop of a charge
  meets, if it succeeds it moved the counter, at one instant, from a value that was in memory
  to that value plus the amount, within the limit, exactly as an undisturbed charge on that
  value would. If it is refused, the amount did not fit on a value it saw: the sum exceeds the
  limit of the account or the range of the counter; an undisturbed charge on that value is
  refused too and changes nothing. It returns as soon as one attempt meets the value it
  expects, which is the value its previous attempt met.
\<close>

theorem charge_linearizable:
  assumes "current \<le> usize_max" and "\<forall>p \<in> set attempts. fst p \<le> usize_max"
  shows "case try_atomic_update (charge_update (wa_limit a) n) current attempts of
     Some (Inr (previous, new)) \<Rightarrow>
       (previous, False) \<in> set attempts \<and> new = previous + n \<and> new \<le> wa_limit a \<and>
       try_charge (a\<lparr>wa_used := of_nat previous\<rparr>) n = (a\<lparr>wa_used := of_nat new\<rparr>, Inr n)
   | Some (Inl seen) \<Rightarrow>
       (seen = current \<or> seen \<in> fst ` set attempts) \<and>
       (wa_limit a < seen + n \<or> usize_max < seen + n) \<and>
       try_charge (a\<lparr>wa_used := of_nat seen\<rparr>) n = (a\<lparr>wa_used := of_nat seen\<rparr>, Inl WcLimit)
   | None \<Rightarrow> (\<forall>i < length attempts. attempts ! i \<noteq> ((current # map fst attempts) ! i, False))"
proof (cases "try_atomic_update (charge_update (wa_limit a) n) current attempts")
  case None
  then show ?thesis using try_atomic_update_None by simp
next
  case (Some r)
  show ?thesis
  proof (cases r)
    case (Inl seen)
    with Some have seen: "charge_update (wa_limit a) n seen = None"
      "seen = current \<or> seen \<in> fst ` set attempts" by (auto dest: try_atomic_update_Inl)
    then have "seen \<le> usize_max" using assms by auto
    with Some Inl seen show ?thesis
      by (auto simp: try_charge_cases charge_update_None_iff unat_of_nat_usize)
  next
    case (Inr q)
    obtain previous new where q: "q = (previous, new)" by (cases q)
    with Some Inr have "charge_update (wa_limit a) n previous = Some new" "(previous, False) \<in> set attempts"
      by (auto dest: try_atomic_update_Inr)
    with Some Inr q show ?thesis
      by (simp add: try_charge_cases charge_update_Some_iff unat_of_nat_usize)
  qed
qed

theorem charge_linearizable_witness:
  "try_atomic_update (charge_update 10 4) 0 [(3, False), (3, True), (5, False), (5, False)] =
     Some (Inr (5, 9)) \<and>
   try_charge \<lparr>wa_limit = 10, wa_used = of_nat 5\<rparr> 4 = (\<lparr>wa_limit = 10, wa_used = of_nat 9\<rparr>, Inr 4)"
proof -
  have r: "try_atomic_update (charge_update 10 4) 0 [(3, False), (3, True), (5, False), (5, False)] =
      Some (Inr (5, 9))"
    by (simp add: charge_update_def checked_add_def int_max_numerals)
  show ?thesis
    using charge_linearizable [of 0 "[(3, False), (3, True), (5, False), (5, False)]"
        "\<lparr>wa_limit = 10, wa_used = 0\<rparr>" 4] r
    by (simp add: int_max_numerals)
qed

lemma arm_all:
  assumes "ps_registrations p = Some qs" and "length qs + length rs \<le> ps_maximum p"
  shows "fold arm_ok rs p = p\<lparr>ps_registrations := Some (qs @ rs)\<rparr>"
  using assms
proof (induction rs arbitrary: p qs)
  case Nil
  then show ?case by (cases p) simp
next
  case (Cons r rs)
  have "arm_ok r p = p\<lparr>ps_registrations := Some (qs @ [r])\<rparr>"
    using Cons.prems by (simp add: arm_ok_def arm_with_def)
  then show ?case
    using Cons.IH [of "p\<lparr>ps_registrations := Some (qs @ [r])\<rparr>" "qs @ [r]"] Cons.prems by simp
qed

text \<open>
  C20. Credits and sources are conserved over the whole life of a subscription. After preparing
  for at most \<open>m\<close> sources and arming the sources \<open>rs\<close>: committing succeeds, cancels nothing
  and leaves charged exactly one credit per armed source; cancelling or dropping the published
  subscription, and equally dropping the prepared one instead of committing, cancels every
  armed source once, in order, and returns the account to what it was before preparation.
  An explicit cancellation reports the first source that failed, after trying them all.
\<close>

theorem subscription_conserves:
  fixes cancel :: "'r \<Rightarrow> 'r \<times> ('e + cancel_state)"
  assumes prep: "ps_try_new alloc_ok a m = (a1, Inr p0)" and len: "length rs \<le> m"
  defines "p \<equiv> fold arm_ok rs p0"
    and "gone \<equiv> map (\<lambda>r. fst (cancel r)) rs"
  shows "ps_drop cancel a1 p = (a, gone) \<and>
    (\<exists>a2 s. ps_commit cancel a1 p = ((a2, []), Inr s) \<and> source_count s = length rs \<and>
      unat (wa_used a2) = unat (wa_used a) + length rs \<and>
      su_drop cancel a2 s = (a, gone) \<and>
      su_cancel cancel a2 s = ((a, gone),
        case position (\<lambda>r. isl (snd (cancel r))) rs of
          None \<Rightarrow> Inr ()
        | Some k \<Rightarrow> Inl (AggregateError k (projl (snd (cancel (rs ! k)))))))"
proof -
  from prep have fits: "unat (wa_used a) + m \<le> usize_max"
    and a1: "a1 = a\<lparr>wa_used := wa_used a + of_nat m\<rparr>"
    and p0: "p0 = \<lparr>ps_registrations = Some [], ps_charge = Some m, ps_maximum = m\<rparr>"
    by (auto simp: ps_try_new_def try_charge_cases split: if_splits)
  have p: "p = \<lparr>ps_registrations = Some rs, ps_charge = Some m, ps_maximum = m\<rparr>"
    using arm_all [of p0 "[]" rs] len by (simp add: p_def p0)
  have word: "wa_used a + of_nat m - of_nat (m - length rs) = wa_used a + of_nat (length rs)"
    using len by (simp add: of_nat_diff)
  have drop: "ps_drop cancel a1 p = (a, gone)"
    by (simp add: ps_drop_def p charge_drop_def wa_refund_def a1 cancel_all_def gone_def)
  let ?a2 = "a\<lparr>wa_used := wa_used a + of_nat (length rs)\<rparr>"
  let ?s = "\<lparr>su_registrations = Some rs, su_charge = Some (length rs)\<rparr>"
  have "ps_commit cancel a1 p = ((?a2, []), Inr ?s)"
    using len word by (simp add: ps_commit_def p reduce_to_def wa_refund_def a1)
  moreover have "unat (wa_used ?a2) = unat (wa_used a) + length rs"
    using fits len by (simp add: unat_plus_usize)
  moreover have "su_drop cancel ?a2 ?s = (a, gone)"
    by (simp add: su_drop_def charge_drop_def wa_refund_def cancel_all_def gone_def)
  moreover have "su_cancel cancel ?a2 ?s = ((a, gone),
      case position (\<lambda>r. isl (snd (cancel r))) rs of
        None \<Rightarrow> Inr () | Some k \<Rightarrow> Inl (AggregateError k (projl (snd (cancel (rs ! k))))))"
    by (simp add: su_cancel_def cancel_all_result_def try_each_spec charge_drop_def wa_refund_def
        gone_def first_result_def split: option.splits)
  ultimately show ?thesis using drop by (auto simp: source_count_def intro!: exI [of _ ?a2] exI [of _ ?s])
qed

theorem subscription_conserves_witness:
  "let a = \<lparr>wa_limit = 8, wa_used = 2\<rparr>;
       cancel = (\<lambda>r :: nat. (r + 100, if even r then Inl r else Inr Cancelled));
       (a1, r) = ps_try_new (\<lambda>_. True) a 5;
       p = fold arm_ok [1, 2, 4] (projr r)
   in ps_drop cancel a1 p = (a, [101, 102, 104])"
proof -
  let ?a = "\<lparr>wa_limit = 8, wa_used = 2\<rparr>"
  have "ps_try_new (\<lambda>_. True) ?a 5 = (\<lparr>wa_limit = 8, wa_used = 7\<rparr>,
      Inr \<lparr>ps_registrations = Some [] :: nat list option, ps_charge = Some 5, ps_maximum = 5\<rparr>)"
    by (simp add: ps_try_new_def try_charge_cases int_max_numerals)
  from subscription_conserves [OF this, of "[1, 2, 4]"
      "\<lambda>r :: nat. (r + 100, if even r then Inl r else Inr Cancelled)"] this
  show ?thesis by simp
qed

end
