(* ===== verification/Seccomp_Filter.thy ===== *)
theory Seccomp_Filter
  imports Abi_Prelude
begin

text \<open>
  Seccomp actions and programs (\<^verbatim>\<open>crates/seccomp/src/uapi.rs\<close>, \<^verbatim>\<open>action.rs\<close>, \<^verbatim>\<open>bpf.rs\<close>):
  action words and their signed precedence, the \<open>seccomp_data\<close> image a filter reads, the
  admission profile for classic-BPF programs and their migration charge. The verifier and the
  interpreter live in the separate package \<open>axcbpf\<close>: the opcode encodings, the instruction
  limit and the verifier are parameters of the definitions that use them.
\<close>

unbundle bit_operations_syntax

section \<open>Constants\<close>

definition SECCOMP_RET_ACTION_FULL :: u32 where "SECCOMP_RET_ACTION_FULL = 0xffff0000"
definition SECCOMP_RET_DATA :: u32 where "SECCOMP_RET_DATA = 0x0000ffff"
definition SECCOMP_RET_KILL_PROCESS :: u32 where "SECCOMP_RET_KILL_PROCESS = 0x80000000"
definition SECCOMP_RET_KILL_THREAD :: u32 where "SECCOMP_RET_KILL_THREAD = 0x00000000"
definition SECCOMP_RET_TRAP :: u32 where "SECCOMP_RET_TRAP = 0x00030000"
definition SECCOMP_RET_ERRNO :: u32 where "SECCOMP_RET_ERRNO = 0x00050000"
definition SECCOMP_RET_USER_NOTIF :: u32 where "SECCOMP_RET_USER_NOTIF = 0x7fc00000"
definition SECCOMP_RET_TRACE :: u32 where "SECCOMP_RET_TRACE = 0x7ff00000"
definition SECCOMP_RET_LOG :: u32 where "SECCOMP_RET_LOG = 0x7ffc0000"
definition SECCOMP_RET_ALLOW :: u32 where "SECCOMP_RET_ALLOW = 0x7fff0000"

lemmas seccomp_ret_defs = SECCOMP_RET_ACTION_FULL_def SECCOMP_RET_DATA_def
  SECCOMP_RET_KILL_PROCESS_def SECCOMP_RET_KILL_THREAD_def SECCOMP_RET_TRAP_def
  SECCOMP_RET_ERRNO_def SECCOMP_RET_USER_NOTIF_def SECCOMP_RET_TRACE_def SECCOMP_RET_LOG_def
  SECCOMP_RET_ALLOW_def

definition MAX_INSNS_PER_PATH :: nat where "MAX_INSNS_PER_PATH = 32768"
definition FILTER_PATH_PENALTY :: nat where "FILTER_PATH_PENALTY = 4"
definition SECCOMP_DATA_SIZE :: nat where "SECCOMP_DATA_SIZE = 64"
definition MAX_ERRNO :: u16 where "MAX_ERRNO = 4095"

section \<open>Actions\<close>

type_synonym action = u32

datatype action_class =
    KillProcess
  | KillThread
  | Trap u16
  | Errno u16
  | UserNotification u16
  | Trace u16
  | Log
  | Allow
  | Unknown u32

definition action_bits :: "action \<Rightarrow> u32" where
  "action_bits a = a AND SECCOMP_RET_ACTION_FULL"

definition action_data :: "action \<Rightarrow> u16" where
  "action_data a = ucast (a AND SECCOMP_RET_DATA)"

text \<open>\<open>action_bits() as i32\<close>: the signed reading of the action field.\<close>

definition precedence :: "action \<Rightarrow> int" where
  "precedence a = sint (action_bits a)"

definition classify :: "action \<Rightarrow> action_class" where
  "classify a =
     (if action_bits a = SECCOMP_RET_KILL_PROCESS then KillProcess
      else if action_bits a = SECCOMP_RET_KILL_THREAD then KillThread
      else if action_bits a = SECCOMP_RET_TRAP then Trap (action_data a)
      else if action_bits a = SECCOMP_RET_ERRNO then
        Errno (if action_data a > MAX_ERRNO then MAX_ERRNO else action_data a)
      else if action_bits a = SECCOMP_RET_USER_NOTIF then UserNotification (action_data a)
      else if action_bits a = SECCOMP_RET_TRACE then Trace (action_data a)
      else if action_bits a = SECCOMP_RET_LOG then Log
      else if action_bits a = SECCOMP_RET_ALLOW then Allow
      else Unknown a)"

section \<open>Syscall data\<close>

record seccomp_data =
  sd_number :: u32
  sd_architecture :: u32
  sd_instruction_pointer :: u64
  sd_arguments :: "u64 list"

text \<open>The target is little-endian: \<open>to_ne_bytes\<close> lists the least significant byte first.\<close>

definition u32_bytes :: "u32 \<Rightarrow> u8 list" where
  "u32_bytes w = map (\<lambda>i. ucast (drop_bit (8 * i) w)) [0..<4]"

definition u64_bytes :: "u64 \<Rightarrow> u8 list" where
  "u64_bytes w = map (\<lambda>i. ucast (drop_bit (8 * i) w)) [0..<8]"

definition native_bytes :: "seccomp_data \<Rightarrow> u8 list" where
  "native_bytes d = u32_bytes (sd_number d) @ u32_bytes (sd_architecture d) @
     u64_bytes (sd_instruction_pointer d) @ concat (map u64_bytes (sd_arguments d))"

definition native_u64_word :: "u64 \<Rightarrow> nat \<Rightarrow> u32" where
  "native_u64_word v byte_offset = (if byte_offset = 0 then ucast v else ucast (drop_bit 32 v))"

definition load_word :: "seccomp_data \<Rightarrow> nat \<Rightarrow> u32 option" where
  "load_word d offset =
     (if offset mod 4 \<noteq> 0 \<or> offset \<ge> SECCOMP_DATA_SIZE then None
      else if offset = 0 then Some (sd_number d)
      else if offset = 4 then Some (sd_architecture d)
      else if offset = 8 \<or> offset = 12 then
        Some (native_u64_word (sd_instruction_pointer d) (offset - 8))
      else if 16 \<le> offset \<and> offset \<le> 60 then
        Some (native_u64_word (sd_arguments d ! ((offset - 16) div 8)) ((offset - 16) mod 8))
      else None)"

datatype load_width = Byte | Half | Word

definition input_load :: "seccomp_data \<Rightarrow> u32 \<Rightarrow> load_width \<Rightarrow> u32 option" where
  "input_load d offset width = (if width \<noteq> Word then None else load_word d (unat offset))"

section \<open>Programs\<close>

text \<open>The opcode names of the mechanism crate; their 16-bit encodings are a parameter.\<close>

datatype opcode =
    LD_W_ABS | LD_LEN | LDX_LEN | RET_K | RET_A
  | ALU_ADD_K | ALU_ADD_X | ALU_SUB_K | ALU_SUB_X | ALU_MUL_K | ALU_MUL_X
  | ALU_DIV_K | ALU_DIV_X | ALU_AND_K | ALU_AND_X | ALU_OR_K | ALU_OR_X
  | ALU_XOR_K | ALU_XOR_X | ALU_LSH_K | ALU_LSH_X | ALU_RSH_K | ALU_RSH_X | ALU_NEG
  | LD_IMM | LDX_IMM | MISC_TAX | MISC_TXA | LD_MEM | LDX_MEM | ST | STX
  | JMP_JA | JMP_JEQ_K | JMP_JEQ_X | JMP_JGE_K | JMP_JGE_X | JMP_JGT_K | JMP_JGT_X
  | JMP_JSET_K | JMP_JSET_X

record instruction =
  in_code :: u16
  in_jt :: u8
  in_jf :: u8
  in_k :: u32

datatype program_error =
    PeEmpty
  | PeTooLong
  | PeNoMemory
  | PeInvalidOpcode nat u16
  | PeDivisionByZero nat
  | PeShiftOutOfRange nat
  | PeScratchOutOfRange nat
  | PeJumpOutOfRange nat
  | PeDataOffsetUnaligned nat
  | PeDataOffsetOutOfRange nat
  | PeUninitializedScratch nat
  | PeMissingReturn
  | PeMechanismRejected

text \<open>The rejections of the mechanism crate, as far as \<open>map_mechanism_error\<close> tells them apart.\<close>

datatype verify_error =
    VeEmpty
  | VeTooLong
  | VeNoMemory
  | VeUnsupportedOpcode nat u16
  | VeImmediateDivisionByZero nat
  | VeImmediateShiftOutOfRange nat
  | VeScratchOutOfRange nat
  | VeScratchUninitialized nat
  | VeJumpOutOfRange nat
  | VeMissingFinalReturn
  | VeUnsupportedAncillaryLoad
  | VeOther

fun map_mechanism_error :: "verify_error \<Rightarrow> program_error" where
  "map_mechanism_error VeEmpty = PeEmpty"
| "map_mechanism_error VeTooLong = PeTooLong"
| "map_mechanism_error VeNoMemory = PeNoMemory"
| "map_mechanism_error (VeUnsupportedOpcode pc code) = PeInvalidOpcode pc code"
| "map_mechanism_error (VeImmediateDivisionByZero pc) = PeDivisionByZero pc"
| "map_mechanism_error (VeImmediateShiftOutOfRange pc) = PeShiftOutOfRange pc"
| "map_mechanism_error (VeScratchOutOfRange pc) = PeScratchOutOfRange pc"
| "map_mechanism_error (VeScratchUninitialized pc) = PeUninitializedScratch pc"
| "map_mechanism_error (VeJumpOutOfRange pc) = PeJumpOutOfRange pc"
| "map_mechanism_error VeMissingFinalReturn = PeMissingReturn"
| "map_mechanism_error VeUnsupportedAncillaryLoad = PeMechanismRejected"
| "map_mechanism_error VeOther = PeMechanismRejected"

definition allowed_opcodes :: "opcode list" where
  "allowed_opcodes =
     [LD_W_ABS, LD_LEN, LDX_LEN, RET_K, RET_A, ALU_ADD_K, ALU_ADD_X, ALU_SUB_K, ALU_SUB_X,
      ALU_MUL_K, ALU_MUL_X, ALU_DIV_K, ALU_DIV_X, ALU_AND_K, ALU_AND_X, ALU_OR_K, ALU_OR_X,
      ALU_XOR_K, ALU_XOR_X, ALU_LSH_K, ALU_LSH_X, ALU_RSH_K, ALU_RSH_X, ALU_NEG, LD_IMM, LDX_IMM,
      MISC_TAX, MISC_TXA, LD_MEM, LDX_MEM, ST, STX, JMP_JA, JMP_JEQ_K, JMP_JEQ_X, JMP_JGE_K,
      JMP_JGE_X, JMP_JGT_K, JMP_JGT_X, JMP_JSET_K, JMP_JSET_X]"

definition allowed_seccomp_opcode :: "(opcode \<Rightarrow> u16) \<Rightarrow> u16 \<Rightarrow> bool" where
  "allowed_seccomp_opcode enc code \<longleftrightarrow> list_ex (\<lambda>c. enc c = code) allowed_opcodes"

definition converted_conditional_jump_charge :: "(opcode \<Rightarrow> u16) \<Rightarrow> instruction \<Rightarrow> nat" where
  "converted_conditional_jump_charge enc i =
     (if in_jf i = 0 \<or> (in_jt i = 0 \<and> \<not> (in_code i = enc JMP_JSET_K \<or> in_code i = enc JMP_JSET_X))
      then 1 else 2)"

definition instruction_charge :: "(opcode \<Rightarrow> u16) \<Rightarrow> instruction \<Rightarrow> nat" where
  "instruction_charge enc i =
     (if in_code i = enc ALU_DIV_X then 5
      else if in_code i = enc RET_K then 2
      else if in_code i \<in> {enc JMP_JEQ_K, enc JMP_JGE_K, enc JMP_JGT_K, enc JMP_JSET_K} then
        (if sint (in_k i) < 0 then 1 else 0) + converted_conditional_jump_charge enc i
      else if in_code i \<in> {enc JMP_JEQ_X, enc JMP_JGE_X, enc JMP_JGT_X, enc JMP_JSET_X} then
        converted_conditional_jump_charge enc i
      else 1)"

definition MIGRATION_PROLOGUE :: nat where "MIGRATION_PROLOGUE = 3"

definition migration_charge :: "(opcode \<Rightarrow> u16) \<Rightarrow> instruction list \<Rightarrow> nat" where
  "migration_charge enc is = MIGRATION_PROLOGUE + sum_list (map (instruction_charge enc) is)"

fun verify_from :: "(opcode \<Rightarrow> u16) \<Rightarrow> nat \<Rightarrow> instruction list \<Rightarrow> program_error + unit" where
  "verify_from enc pc [] = Inr ()"
| "verify_from enc pc (i # is) =
     (if \<not> allowed_seccomp_opcode enc (in_code i) then Inl (PeInvalidOpcode pc (in_code i))
      else if in_code i = enc LD_W_ABS \<and> in_k i AND 3 \<noteq> 0 then Inl (PeDataOffsetUnaligned pc)
      else if in_code i = enc LD_W_ABS \<and> unat (in_k i) \<ge> SECCOMP_DATA_SIZE then
        Inl (PeDataOffsetOutOfRange pc)
      else verify_from enc (pc + 1) is)"

definition verify_seccomp_profile ::
  "(opcode \<Rightarrow> u16) \<Rightarrow> nat \<Rightarrow> instruction list \<Rightarrow> program_error + unit" where
  "verify_seccomp_profile enc max_insns is =
     (if is = [] then Inl PeEmpty
      else if length is > max_insns then Inl PeTooLong
      else verify_from enc 0 is)"

text \<open>A verified program keeps its instructions, which the mechanism owns, and its charge.\<close>

record verified_program =
  vp_instructions :: "instruction list"
  vp_path_charge :: nat

definition program_try_from_vec ::
  "(opcode \<Rightarrow> u16) \<Rightarrow> nat \<Rightarrow> (instruction list \<Rightarrow> verify_error + unit) \<Rightarrow> instruction list \<Rightarrow>
   program_error + verified_program" where
  "program_try_from_vec enc max_insns mech_verify is =
     (case verify_seccomp_profile enc max_insns is of
        Inl e \<Rightarrow> Inl e
      | Inr _ \<Rightarrow>
          (case mech_verify is of
             Inl e \<Rightarrow> Inl (map_mechanism_error e)
           | Inr _ \<Rightarrow> Inr \<lparr>vp_instructions = is, vp_path_charge = migration_charge enc is\<rparr>))"

end
