(* ===== verification/Seccomp_Filter_Props.thy ===== *)
theory Seccomp_Filter_Props
  imports Seccomp_Filter
begin

text \<open>
  Facts about single seccomp actions and programs: the action order, the agreement of word
  loads with the byte image, and what the admission profile guarantees.
\<close>

unbundle bit_operations_syntax

section \<open>Action order\<close>

lemma action_bits_multiple: "uint (action_bits a) mod 65536 = 0"
proof -
  have "SECCOMP_RET_ACTION_FULL = push_bit 16 (mask 16)"
    by (simp add: SECCOMP_RET_ACTION_FULL_def mask_eq_exp_minus_1 push_bit_eq_mult)
  then have "take_bit 16 (action_bits a) = 0"
    unfolding action_bits_def by (simp add: bit_eq_iff bit_simps)
  then have "take_bit 16 (uint (action_bits a)) = 0" by (metis unsigned_0 unsigned_take_bit_eq)
  then show ?thesis by (simp add: take_bit_eq_mod)
qed

lemma sint_u32: "sint (w :: u32) = (if bit w 31 then uint w - 2 ^ 32 else uint w)"
  by (simp add: sint_uint signed_take_bit_eq_take_bit_minus bit_uint_iff take_bit_int_eq_self_iff
      uint_lt2p [where 'a = 32, simplified])

lemma precedence_le_allow: "precedence a \<le> precedence SECCOMP_RET_ALLOW"
proof -
  have allow: "precedence SECCOMP_RET_ALLOW = 0x7fff0000"
    by (simp add: precedence_def action_bits_def seccomp_ret_defs)
  let ?w = "action_bits a"
  have "sint ?w < 2 ^ 31" using sint_lt [of ?w] by simp
  moreover have "uint ?w < 2 ^ 32" using uint_lt2p [of ?w] by simp
  moreover obtain k where "uint ?w = 65536 * k" using action_bits_multiple [of a] by (auto elim: dvdE)
  ultimately have "sint ?w \<le> 65536 * 32767" using sint_u32 [of ?w] by (simp split: if_splits)
  then have "precedence a \<le> 65536 * 32767" by (simp add: precedence_def)
  with allow show ?thesis by simp
qed

section \<open>Word loads\<close>

text \<open>\<open>u32::from_le_bytes\<close> of the four bytes at an offset of the native image.\<close>

definition word_at :: "u8 list \<Rightarrow> nat \<Rightarrow> u32" where
  "word_at bs i = ucast (bs ! i) OR push_bit 8 (ucast (bs ! (i + 1))) OR
     push_bit 16 (ucast (bs ! (i + 2))) OR push_bit 24 (ucast (bs ! (i + 3)))"

lemma byte_split32:
  "ucast (ucast w :: u8) OR push_bit 8 (ucast (ucast (drop_bit 8 w) :: u8)) OR
     push_bit 16 (ucast (ucast (drop_bit 16 w) :: u8)) OR
     push_bit 24 (ucast (ucast (drop_bit 24 w) :: u8)) = (w :: u32)"
  by (rule bit_word_eqI, rename_tac n, case_tac "n < 8"; case_tac "n < 16"; case_tac "n < 24")
    (auto simp: bit_simps)

lemma byte_split64_low:
  "ucast (ucast w :: u8) OR push_bit 8 (ucast (ucast (drop_bit 8 w) :: u8)) OR
     push_bit 16 (ucast (ucast (drop_bit 16 w) :: u8)) OR
     push_bit 24 (ucast (ucast (drop_bit 24 w) :: u8)) = (ucast (w :: u64) :: u32)"
  by (rule bit_word_eqI, rename_tac n, case_tac "n < 8"; case_tac "n < 16"; case_tac "n < 24")
    (auto simp: bit_simps)

lemma byte_split64_high:
  "ucast (ucast (drop_bit 32 w) :: u8) OR push_bit 8 (ucast (ucast (drop_bit 40 w) :: u8)) OR
     push_bit 16 (ucast (ucast (drop_bit 48 w) :: u8)) OR
     push_bit 24 (ucast (ucast (drop_bit 56 w) :: u8)) = (ucast (drop_bit 32 (w :: u64)) :: u32)"
  by (rule bit_word_eqI, rename_tac n, case_tac "n < 8"; case_tac "n < 16"; case_tac "n < 24")
    (auto simp: bit_simps)

lemma u32_bytes_unfold:
  "u32_bytes w = [ucast w, ucast (drop_bit 8 w), ucast (drop_bit 16 w), ucast (drop_bit 24 w)]"
  by (simp add: u32_bytes_def upt_conv_Cons)

lemma u64_bytes_unfold:
  "u64_bytes w = [ucast w, ucast (drop_bit 8 w), ucast (drop_bit 16 w), ucast (drop_bit 24 w),
     ucast (drop_bit 32 w), ucast (drop_bit 40 w), ucast (drop_bit 48 w), ucast (drop_bit 56 w)]"
  by (simp add: u64_bytes_def upt_conv_Cons)

lemma word_at_skip:
  "length xs \<le> i \<Longrightarrow> word_at (xs @ ys) i = word_at ys (i - length xs)"
  by (simp add: word_at_def nth_append Suc_diff_le)

lemma word_at_u32: "word_at (u32_bytes w @ ys) 0 = w"
  using byte_split32 [of w] by (simp add: word_at_def u32_bytes_unfold)

lemma word_at_u64:
  "word_at (u64_bytes w @ ys) 0 = native_u64_word w 0"
  "word_at (u64_bytes w @ ys) 4 = native_u64_word w 4"
  using byte_split64_low [of w] byte_split64_high [of w]
  by (simp_all add: word_at_def u64_bytes_unfold native_u64_word_def)

lemma length_word_bytes [simp]: "length (u32_bytes w) = 4" "length (u64_bytes v) = 8"
  by (simp_all add: u32_bytes_def u64_bytes_def)

lemma length_concat_u64_bytes: "length (concat (map u64_bytes vs)) = 8 * length vs"
  by (induction vs) simp_all

lemma word_at_arguments:
  assumes "i < length vs" and "j = 0 \<or> j = 4"
  shows "word_at (concat (map u64_bytes vs)) (8 * i + j) = native_u64_word (vs ! i) j"
  using assms(1)
proof (induction vs arbitrary: i)
  case (Cons v vs)
  show ?case
  proof (cases i)
    case 0
    then show ?thesis using assms(2) word_at_u64 [of v] by auto
  next
    case (Suc k)
    then show ?thesis using Cons by (simp add: word_at_skip)
  qed
qed simp

text \<open>
  C21. Word loads agree with the byte image. For every offset a filter can ask for, the
  structured word load returns exactly the four native-endian bytes at that offset of the
  64-byte image handed to a native executor; unaligned or out-of-range offsets load nothing.
\<close>

theorem load_word_native_bytes:
  assumes "length (sd_arguments d) = 6"
  shows "length (native_bytes d) = SECCOMP_DATA_SIZE \<and>
    load_word d offset = (if offset mod 4 = 0 \<and> offset < SECCOMP_DATA_SIZE
      then Some (word_at (native_bytes d) offset) else None)"
proof
  show "length (native_bytes d) = SECCOMP_DATA_SIZE"
    using assms by (simp add: native_bytes_def length_concat_u64_bytes SECCOMP_DATA_SIZE_def)
  show "load_word d offset = (if offset mod 4 = 0 \<and> offset < SECCOMP_DATA_SIZE
      then Some (word_at (native_bytes d) offset) else None)"
  proof (cases "offset mod 4 = 0 \<and> offset < SECCOMP_DATA_SIZE")
    case True
    show ?thesis
    proof (cases "offset < 16")
      case small: True
      moreover have "offset mod 4 = 0" using True by simp
      ultimately have "offset = 0 \<or> offset = 4 \<or> offset = 8 \<or> offset = 12" by presburger
      then show ?thesis
        by (elim disjE) (simp_all add: load_word_def SECCOMP_DATA_SIZE_def native_bytes_def word_at_u32
            word_at_skip word_at_u64)
    next
      case False
      define i j where "i = (offset - 16) div 8" and "j = (offset - 16) mod 8"
      have m: "offset mod 4 = 0" using True by simp
      then have j: "j = 0 \<or> j = 4" using False unfolding j_def by presburger
      have i: "i < length (sd_arguments d)"
        using True [THEN conjunct2] False assms
        unfolding i_def SECCOMP_DATA_SIZE_def by (simp add: div_less_iff_less_mult)
      have off: "offset - 16 = 8 * i + j" by (simp add: i_def j_def)
      have "word_at (native_bytes d) offset = native_u64_word (sd_arguments d ! i) j"
        using word_at_arguments [OF i j] False by (simp add: native_bytes_def word_at_skip flip: off)
      moreover have "offset \<le> 60" using True m unfolding SECCOMP_DATA_SIZE_def by presburger
      ultimately show ?thesis
        using True False by (auto simp: load_word_def i_def j_def)
    qed
  qed (auto simp: load_word_def)
qed

theorem load_word_native_bytes_witness:
  "word_at (native_bytes \<lparr>sd_number = 59, sd_architecture = 0xc000003e,
     sd_instruction_pointer = 0x1122334455667788, sd_arguments = [1, 2, 3, 4, 5, 0xdeadbeef]\<rparr>) 12 =
   0x11223344"
  using load_word_native_bytes [of "\<lparr>sd_number = 59, sd_architecture = 0xc000003e,
    sd_instruction_pointer = 0x1122334455667788, sd_arguments = [1, 2, 3, 4, 5, 0xdeadbeef]\<rparr>" 12]
  by (simp add: SECCOMP_DATA_SIZE_def load_word_def native_u64_word_def)

section \<open>Admission\<close>

lemma verify_from_Inr:
  "verify_from enc pc is = Inr u \<Longrightarrow> i \<in> set is \<Longrightarrow>
   allowed_seccomp_opcode enc (in_code i) \<and>
   (in_code i = enc LD_W_ABS \<longrightarrow> in_k i AND 3 = 0 \<and> unat (in_k i) < SECCOMP_DATA_SIZE)"
  by (induction enc pc "is" rule: verify_from.induct) (auto split: if_splits)

lemma unat_and_3: "unat ((w :: u32) AND 3) = unat w mod 4"
proof -
  have "w AND 3 = take_bit 2 w" by (simp add: take_bit_eq_mask mask_eq_exp_minus_1)
  then show ?thesis by (simp add: unat_mod take_bit_eq_mod)
qed

lemma instruction_charge_bounds: "1 \<le> instruction_charge enc i \<and> instruction_charge enc i \<le> 5"
  by (simp add: instruction_charge_def converted_conditional_jump_charge_def)

lemma sum_list_bounds:
  "\<forall>x \<in> set xs. l \<le> f x \<and> f x \<le> (u :: nat) \<Longrightarrow>
   l * length xs \<le> sum_list (map f xs) \<and> sum_list (map f xs) \<le> u * length xs"
  by (induction xs) auto

text \<open>
  C22. What the admission profile guarantees. An accepted program is not empty and not longer
  than the instruction limit, contains only opcodes of the seccomp subset, and every absolute
  load in it succeeds on every syscall image; its path charge lies between one and five
  converted instructions per instruction plus the fixed prologue. With the limit of 4096
  instructions, no single accepted program can exceed the path budget on its own.
\<close>

theorem accepted_program_profile:
  assumes "program_try_from_vec enc max_insns mech_verify is = Inr p"
  shows "vp_instructions p = is \<and> 0 < length is \<and> length is \<le> max_insns \<and>
    list_all (\<lambda>i. allowed_seccomp_opcode enc (in_code i) \<and>
      (in_code i = enc LD_W_ABS \<longrightarrow> input_load d (in_k i) Word \<noteq> None)) is \<and>
    MIGRATION_PROLOGUE + length is \<le> vp_path_charge p \<and>
    vp_path_charge p \<le> MIGRATION_PROLOGUE + 5 * length is \<and>
    (max_insns = 4096 \<longrightarrow> vp_path_charge p \<le> MAX_INSNS_PER_PATH)"
proof -
  from assms have v: "verify_from enc 0 is = Inr ()" "is \<noteq> []" "length is \<le> max_insns"
    and p: "p = \<lparr>vp_instructions = is, vp_path_charge = migration_charge enc is\<rparr>"
    by (auto simp: program_try_from_vec_def verify_seccomp_profile_def split: sum.splits if_splits)
  have "input_load d (in_k i) Word \<noteq> None" if "i \<in> set is" "in_code i = enc LD_W_ABS" for i
  proof -
    have "unat (in_k i) mod 4 = 0" "unat (in_k i) < SECCOMP_DATA_SIZE"
      using verify_from_Inr [OF v(1) that(1)] that(2) unat_and_3 [of "in_k i"] by auto
    then show ?thesis by (auto simp: input_load_def load_word_def SECCOMP_DATA_SIZE_def)
  qed
  moreover have "1 * length is \<le> sum_list (map (instruction_charge enc) is) \<and>
      sum_list (map (instruction_charge enc) is) \<le> 5 * length is"
    by (rule sum_list_bounds) (use instruction_charge_bounds in auto)
  ultimately show ?thesis
    using v verify_from_Inr [OF v(1)]
    by (auto simp: p migration_charge_def list_all_iff MIGRATION_PROLOGUE_def MAX_INSNS_PER_PATH_def)
qed

definition ex_enc :: "opcode \<Rightarrow> u16" where
  "ex_enc c = (case c of LD_W_ABS \<Rightarrow> 0x20 | RET_K \<Rightarrow> 0x06 | ALU_DIV_X \<Rightarrow> 0x3c | JMP_JEQ_K \<Rightarrow> 0x15 | _ \<Rightarrow> 0xffff)"

theorem accepted_program_profile_witness:
  "\<exists>p. program_try_from_vec ex_enc 4096 (\<lambda>_. Inr ())
     [\<lparr>in_code = 0x20, in_jt = 0, in_jf = 0, in_k = 60\<rparr>,
      \<lparr>in_code = 0x06, in_jt = 0, in_jf = 0, in_k = 0x7fff0000\<rparr>] = Inr p \<and>
     vp_path_charge p \<le> MAX_INSNS_PER_PATH"
proof -
  let ?is = "[\<lparr>in_code = 0x20, in_jt = 0, in_jf = 0, in_k = 60\<rparr>,
      \<lparr>in_code = 0x06, in_jt = 0, in_jf = 0, in_k = 0x7fff0000\<rparr>]"
  have "program_try_from_vec ex_enc 4096 (\<lambda>_. Inr ()) ?is =
      Inr \<lparr>vp_instructions = ?is, vp_path_charge = migration_charge ex_enc ?is\<rparr>"
    by (simp add: program_try_from_vec_def verify_seccomp_profile_def allowed_seccomp_opcode_def
        allowed_opcodes_def ex_enc_def SECCOMP_DATA_SIZE_def)
  with accepted_program_profile [OF this] show ?thesis by simp
qed

end
