(* ===== verification/Seccomp_Chain.thy ===== *)
theory Seccomp_Chain
  imports Seccomp_Filter_Props Bounded_Account
begin

text \<open>
  Filter budgets, immutable filter chains and task state (\<^verbatim>\<open>crates/seccomp/src/budget.rs\<close>,
  \<^verbatim>\<open>chain.rs\<close>, \<^verbatim>\<open>state.rs\<close>). A node is reference counted: its identity is the address the
  allocator gave it, its contents never change, and the store keeps the strong count of every
  address, the next fresh address and the budgets. The interpreter of the mechanism crate and
  native executors are parameters.
\<close>

section \<open>Budgets\<close>

record filter_budget =
  fb_limit :: nat
  fb_used :: u64

definition budget_try_new :: "bool \<Rightarrow> nat \<Rightarrow> filter_budget option" where
  "budget_try_new alloc limit = (if alloc then Some \<lparr>fb_limit = limit, fb_used = 0\<rparr> else None)"

definition reserve_update :: "nat \<Rightarrow> nat \<Rightarrow> nat \<Rightarrow> nat option" where
  "reserve_update limit bytes current =
     (case checked_add usize_max current bytes of
        None \<Rightarrow> None
      | Some new \<Rightarrow> if new > limit then None else Some new)"

definition budget_try_reserve :: "filter_budget \<Rightarrow> nat \<Rightarrow> filter_budget option" where
  "budget_try_reserve b bytes =
     (case try_atomic_update (reserve_update (fb_limit b) bytes) (unat (fb_used b))
             [(unat (fb_used b), False)] of
        Some (Inr (_, new)) \<Rightarrow> Some (b\<lparr>fb_used := of_nat new\<rparr>)
      | _ \<Rightarrow> None)"

definition budget_release :: "filter_budget \<Rightarrow> nat \<Rightarrow> filter_budget" where
  "budget_release b bytes = b\<lparr>fb_used := fb_used b - of_nat bytes\<rparr>"

section \<open>Nodes and chains\<close>

record filter_metadata =
  fm_log :: bool
  fm_spec_allow :: bool

text \<open>A charge names its budget by address and the bytes it holds.\<close>

record filter_charge =
  ch_budget :: nat
  ch_bytes :: nat

datatype 'x filter_node = FilterNode
  (fn_addr: nat)
  (fn_program: verified_program)
  (fn_executor: "'x option")
  (fn_metadata: filter_metadata)
  (fn_previous: "'x filter_node option")
  (fn_path_cost: nat)
  (fn_filter_count: nat)
  (fn_charge: filter_charge)

type_synonym 'x filter_chain = "'x filter_node option"

record filter_store =
  fs_refs :: "nat \<Rightarrow> nat"
  fs_next :: nat
  fs_budgets :: "filter_budget list"

definition chain_filter_count :: "'x filter_chain \<Rightarrow> nat" where
  "chain_filter_count c = (case c of None \<Rightarrow> 0 | Some leaf \<Rightarrow> fn_filter_count leaf)"

definition chain_path_cost :: "'x filter_chain \<Rightarrow> nat" where
  "chain_path_cost c = (case c of None \<Rightarrow> 0 | Some leaf \<Rightarrow> fn_path_cost leaf)"

fun same_identity :: "'x filter_chain \<Rightarrow> 'x filter_chain \<Rightarrow> bool" where
  "same_identity None None \<longleftrightarrow> True"
| "same_identity (Some l) (Some r) \<longleftrightarrow> fn_addr l = fn_addr r"
| "same_identity _ _ \<longleftrightarrow> False"

text \<open>The cursor loops visit a leaf and then its \<open>previous\<close> nodes.\<close>

fun ancestry :: "'x filter_node \<Rightarrow> 'x filter_node list" where
  "ancestry (FilterNode a p x m prev c n ch) =
     FilterNode a p x m prev c n ch # (case prev of None \<Rightarrow> [] | Some node \<Rightarrow> ancestry node)"

definition chain_nodes :: "'x filter_chain \<Rightarrow> 'x filter_node list" where
  "chain_nodes c = (case c of None \<Rightarrow> [] | Some leaf \<Rightarrow> ancestry leaf)"

definition is_ancestor_of :: "'x filter_chain \<Rightarrow> 'x filter_chain \<Rightarrow> bool" where
  "is_ancestor_of c descendant =
     (case c of
        None \<Rightarrow> True
      | Some leaf \<Rightarrow> list_ex (\<lambda>node. fn_addr leaf = fn_addr node) (chain_nodes descendant))"

definition directly_extends :: "'x filter_chain \<Rightarrow> 'x filter_chain \<Rightarrow> bool" where
  "directly_extends c previous =
     (case c of None \<Rightarrow> False | Some leaf \<Rightarrow> same_identity (fn_previous leaf) previous)"

datatype filter_install_error = FiNoMemory | FiPathTooLong | FiBudgetExceeded | FiBudgetMismatch

definition INSTRUCTION_SIZE :: nat where "INSTRUCTION_SIZE = 8"

definition new_path_cost :: "'x filter_chain \<Rightarrow> verified_program \<Rightarrow> nat option" where
  "new_path_cost c p =
     (if c = None then Some (vp_path_charge p)
      else Option.bind (checked_add usize_max (vp_path_charge p) (chain_path_cost c))
             (\<lambda>cost. checked_add usize_max cost FILTER_PATH_PENALTY))"

definition charge_bytes :: "nat \<Rightarrow> verified_program \<Rightarrow> nat option" where
  "charge_bytes node_size p =
     Option.bind (checked_mul usize_max (length (vp_instructions p)) INSTRUCTION_SIZE)
       (\<lambda>bytes. checked_add usize_max bytes node_size)"

definition add_ref :: "nat \<Rightarrow> filter_store \<Rightarrow> filter_store" where
  "add_ref a s = s\<lparr>fs_refs := (fs_refs s)(a := fs_refs s a + 1)\<rparr>"

definition set_budget :: "nat \<Rightarrow> filter_budget \<Rightarrow> filter_store \<Rightarrow> filter_store" where
  "set_budget b fb s = s\<lparr>fs_budgets := (fs_budgets s)[b := fb]\<rparr>"

text \<open>
  \<open>node_size\<close> is \<open>size_of::<FilterNode>()\<close> and \<open>alloc\<close> the allocator's answer for the new
  node. When the allocation fails, the charge held by the node under construction is dropped.
\<close>

definition try_append_with_executor ::
  "nat \<Rightarrow> bool \<Rightarrow> filter_store \<Rightarrow> 'x filter_chain \<Rightarrow> verified_program \<Rightarrow> filter_metadata \<Rightarrow> nat \<Rightarrow>
   'x option \<Rightarrow> (filter_store, filter_install_error, 'x filter_chain) outcome" where
  "try_append_with_executor node_size alloc s c program metadata budget executor =
     (case new_path_cost c program of
        None \<Rightarrow> (s, Inl FiPathTooLong)
      | Some path_cost \<Rightarrow>
          if path_cost > MAX_INSNS_PER_PATH then (s, Inl FiPathTooLong)
          else case checked_add usize_max (chain_filter_count c) 1 of
            None \<Rightarrow> (s, Inl FiPathTooLong)
          | Some filter_count \<Rightarrow>
              if (case c of None \<Rightarrow> False | Some leaf \<Rightarrow> ch_budget (fn_charge leaf) \<noteq> budget)
              then (s, Inl FiBudgetMismatch)
              else case charge_bytes node_size program of
                None \<Rightarrow> (s, Inl FiBudgetExceeded)
              | Some bytes \<Rightarrow>
                  (case budget_try_reserve (fs_budgets s ! budget) bytes of
                     None \<Rightarrow> (s, Inl FiBudgetExceeded)
                   | Some fb \<Rightarrow>
                       let s1 = set_budget budget fb s in
                       if \<not> alloc then (set_budget budget (budget_release fb bytes) s1, Inl FiNoMemory)
                       else
                         let s2 = (case c of None \<Rightarrow> s1 | Some leaf \<Rightarrow> add_ref (fn_addr leaf) s1);
                             addr = fs_next s2;
                             node = FilterNode addr program executor metadata c path_cost filter_count
                                      \<lparr>ch_budget = budget, ch_bytes = bytes\<rparr>
                         in ((add_ref addr s2)\<lparr>fs_next := addr + 1\<rparr>, Inr (Some node))))"

definition try_append ::
  "nat \<Rightarrow> bool \<Rightarrow> filter_store \<Rightarrow> 'x filter_chain \<Rightarrow> verified_program \<Rightarrow> filter_metadata \<Rightarrow> nat \<Rightarrow>
   (filter_store, filter_install_error, 'x filter_chain) outcome" where
  "try_append node_size alloc s c program metadata budget =
     try_append_with_executor node_size alloc s c program metadata budget None"

definition chain_clone :: "filter_store \<Rightarrow> 'x filter_chain \<Rightarrow> filter_store" where
  "chain_clone s c = (case c of None \<Rightarrow> s | Some leaf \<Rightarrow> add_ref (fn_addr leaf) s)"

text \<open>
  Dropping one reference to a node. The last reference frees the node, whose destructor walks
  the ancestry iteratively: while it holds the only reference to the previous node it unwraps
  and frees that node as well, otherwise it drops its reference and stops. A freed node
  returns its charge.
\<close>

fun node_drop :: "filter_store \<Rightarrow> 'x filter_node \<Rightarrow> filter_store" where
  "node_drop s (FilterNode a p x m prev c n ch) =
     (if fs_refs s a = 1 then
        let s1 = s\<lparr>fs_refs := (fs_refs s)(a := 0)\<rparr>;
            s2 = set_budget (ch_budget ch) (budget_release (fs_budgets s1 ! ch_budget ch) (ch_bytes ch)) s1
        in case prev of None \<Rightarrow> s2 | Some node \<Rightarrow> node_drop s2 node
      else s\<lparr>fs_refs := (fs_refs s)(a := fs_refs s a - 1)\<rparr>)"

definition chain_drop :: "filter_store \<Rightarrow> 'x filter_chain \<Rightarrow> filter_store" where
  "chain_drop s c = (case c of None \<Rightarrow> s | Some leaf \<Rightarrow> node_drop s leaf)"

section \<open>Evaluation\<close>

record filter_decision =
  fd_action :: action
  fd_matched :: "filter_metadata option"
  fd_native :: nat
  fd_interpreter :: nat

text \<open>
  \<open>execute\<close> runs a native executor on the byte image, \<open>interp\<close> the mechanism's interpreter.
\<close>

definition node_action ::
  "('x \<Rightarrow> u8 list \<Rightarrow> u32) \<Rightarrow> (verified_program \<Rightarrow> seccomp_data \<Rightarrow> u32) \<Rightarrow> seccomp_data \<Rightarrow>
   'x filter_node \<Rightarrow> action" where
  "node_action execute interp d node =
     (case fn_executor node of
        Some x \<Rightarrow> execute x (native_bytes d)
      | None \<Rightarrow> interp (fn_program node) d)"

definition decide_step ::
  "('x \<Rightarrow> u8 list \<Rightarrow> u32) \<Rightarrow> (verified_program \<Rightarrow> seccomp_data \<Rightarrow> u32) \<Rightarrow> seccomp_data \<Rightarrow>
   'x filter_node \<Rightarrow> filter_decision \<Rightarrow> filter_decision" where
  "decide_step execute interp d node dec =
     (let dec1 = (if fn_executor node \<noteq> None
                  then dec\<lparr>fd_native := saturating_add usize_max (fd_native dec) 1\<rparr>
                  else dec\<lparr>fd_interpreter := saturating_add usize_max (fd_interpreter dec) 1\<rparr>);
          current = node_action execute interp d node
      in if precedence current < precedence (fd_action dec1)
         then dec1\<lparr>fd_action := current, fd_matched := Some (fn_metadata node)\<rparr>
         else dec1)"

definition chain_evaluate ::
  "('x \<Rightarrow> u8 list \<Rightarrow> u32) \<Rightarrow> (verified_program \<Rightarrow> seccomp_data \<Rightarrow> u32) \<Rightarrow> 'x filter_chain \<Rightarrow>
   seccomp_data \<Rightarrow> filter_decision" where
  "chain_evaluate execute interp c d =
     fold (decide_step execute interp d) (chain_nodes c)
       \<lparr>fd_action = SECCOMP_RET_ALLOW, fd_matched = None, fd_native = 0, fd_interpreter = 0\<rparr>"

section \<open>Task state\<close>

datatype seccomp_mode = Disabled | Strict | Filter

record 'x seccomp_state =
  ss_mode :: seccomp_mode
  ss_filters :: "'x filter_chain"

datatype sync_eligibility = Eligible | CallerNotFiltered | SyncModeConflict | DivergentFilter

datatype state_transition_error = StModeConflict | StStale | StInvalidPreparedState

definition seccomp_disabled :: "'x seccomp_state" where
  "seccomp_disabled = \<lparr>ss_mode = Disabled, ss_filters = None\<rparr>"

definition try_enter_strict ::
  "'x seccomp_state \<Rightarrow> ('x seccomp_state, state_transition_error, unit) outcome" where
  "try_enter_strict st =
     (if ss_mode st \<noteq> Disabled \<or> ss_filters st \<noteq> None then (st, Inl StModeConflict)
      else (st\<lparr>ss_mode := Strict\<rparr>, Inr ()))"

text \<open>Publication replaces the task's reference: the prepared leaf is cloned, the old one dropped.\<close>

definition try_publish_filter ::
  "filter_store \<times> 'x seccomp_state \<Rightarrow> 'x filter_chain \<Rightarrow> 'x filter_chain \<Rightarrow>
   (filter_store \<times> 'x seccomp_state, state_transition_error, unit) outcome" where
  "try_publish_filter w expected prepared =
     (case w of (s, st) \<Rightarrow>
      if ss_mode st = Strict then (w, Inl StModeConflict)
      else if \<not> same_identity (ss_filters st) expected then (w, Inl StStale)
      else if \<not> directly_extends prepared expected then (w, Inl StInvalidPreparedState)
      else ((chain_drop (chain_clone s prepared) (ss_filters st),
             st\<lparr>ss_filters := prepared, ss_mode := Filter\<rparr>), Inr ()))"

definition sync_eligibility :: "'x seccomp_state \<Rightarrow> 'x seccomp_state \<Rightarrow> sync_eligibility" where
  "sync_eligibility st caller =
     (if ss_mode caller \<noteq> Filter \<or> ss_filters caller = None then CallerNotFiltered
      else case ss_mode st of
        Disabled \<Rightarrow> Eligible
      | Filter \<Rightarrow> if is_ancestor_of (ss_filters st) (ss_filters caller) then Eligible else DivergentFilter
      | Strict \<Rightarrow> SyncModeConflict)"

definition prepare_synchronized_from ::
  "filter_store \<Rightarrow> 'x seccomp_state \<Rightarrow> 'x seccomp_state \<Rightarrow>
   (filter_store, state_transition_error, 'x seccomp_state) outcome" where
  "prepare_synchronized_from s st caller =
     (case sync_eligibility st caller of
        Eligible \<Rightarrow> (chain_clone s (ss_filters caller), Inr caller)
      | CallerNotFiltered \<Rightarrow> (s, Inl StInvalidPreparedState)
      | _ \<Rightarrow> (s, Inl StModeConflict))"

end
