(* ===== verification/Seccomp_Chain_Props.thy ===== *)
theory Seccomp_Chain_Props
  imports Seccomp_Chain
begin

text \<open>
  What a filter chain decides, that its cost is bounded and its memory accounted for exactly,
  and that no transition of a task's seccomp state ever makes it more permissive.
\<close>

section \<open>Budgets keep the account contract\<close>

lemma reserve_update_Some_iff:
  "reserve_update l n u = Some v \<longleftrightarrow> v = u + n \<and> u + n \<le> l \<and> u + n \<le> usize_max"
  by (auto simp: reserve_update_def checked_iffs split: option.splits if_splits)

lemma reserve_update_None_iff: "reserve_update l n u = None \<longleftrightarrow> l < u + n \<or> usize_max < u + n"
  by (auto simp: reserve_update_def checked_add_def)

lemma budget_try_reserve_Some_iff:
  "budget_try_reserve b n = Some b' \<longleftrightarrow>
     unat (fb_used b) + n \<le> fb_limit b \<and> unat (fb_used b) + n \<le> usize_max \<and>
     b' = b\<lparr>fb_used := fb_used b + of_nat n\<rparr>"
proof (cases "reserve_update (fb_limit b) n (unat (fb_used b))")
  case None
  then show ?thesis using reserve_update_None_iff [of "fb_limit b" n "unat (fb_used b)"]
    by (auto simp: budget_try_reserve_def)
next
  case (Some v)
  then show ?thesis using reserve_update_Some_iff [of "fb_limit b" n "unat (fb_used b)" v]
    by (auto simp: budget_try_reserve_def)
qed

interpretation filter_mem: bounded_account "\<lambda>b. unat (fb_used b)" fb_limit budget_try_reserve budget_release
proof
  fix a b n
  show "budget_try_reserve a n = Some b \<Longrightarrow>
    unat (fb_used b) = unat (fb_used a) + n \<and> unat (fb_used b) \<le> fb_limit b \<and> fb_limit b = fb_limit a"
    by (auto simp: budget_try_reserve_Some_iff unat_plus_usize)
  show "budget_try_reserve a n = None \<Longrightarrow> fb_limit a \<le> usize_max \<Longrightarrow> fb_limit a < unat (fb_used a) + n"
    using budget_try_reserve_Some_iff [of a n "a\<lparr>fb_used := fb_used a + of_nat n\<rparr>"] by auto
  show "n \<le> unat (fb_used a) \<Longrightarrow>
    unat (fb_used (budget_release a n)) = unat (fb_used a) - n \<and> fb_limit (budget_release a n) = fb_limit a"
    by (simp add: budget_release_def unat_minus_usize)
qed

section \<open>A small example\<close>

text \<open>One budget of 1000 bytes, a program of one \<open>RET\<close> instruction and a chain holding it.\<close>

definition ex_store :: filter_store where
  "ex_store = \<lparr>fs_refs = (\<lambda>_. 0), fs_next = 0, fs_budgets = [\<lparr>fb_limit = 1000, fb_used = 0\<rparr>]\<rparr>"

definition ex_program :: verified_program where
  "ex_program = \<lparr>vp_instructions = [\<lparr>in_code = 6, in_jt = 0, in_jf = 0, in_k = 0x50001\<rparr>], vp_path_charge = 5\<rparr>"

definition ex_meta :: filter_metadata where "ex_meta = \<lparr>fm_log = True, fm_spec_allow = False\<rparr>"

definition ex_data :: seccomp_data where
  "ex_data = \<lparr>sd_number = 59, sd_architecture = 0xc000003e, sd_instruction_pointer = 0x1000,
     sd_arguments = [1, 2, 3, 4, 5, 6]\<rparr>"

definition ex_node :: "unit filter_node" where
  "ex_node = FilterNode 0 ex_program None ex_meta None 5 1 \<lparr>ch_budget = 0, ch_bytes = 108\<rparr>"

definition ex_store1 :: filter_store where
  "ex_store1 = \<lparr>fs_refs = (\<lambda>_. 0)(0 := 1), fs_next = 1, fs_budgets = [\<lparr>fb_limit = 1000, fb_used = 108\<rparr>]\<rparr>"

lemma ex_append:
  "try_append_with_executor 100 True ex_store None ex_program ex_meta 0 None = (ex_store1, Inr (Some ex_node))"
  by (simp add: try_append_with_executor_def new_path_cost_def charge_bytes_def checked_add_def checked_mul_def
      usize_max_def chain_filter_count_def ex_store_def ex_program_def ex_meta_def ex_node_def ex_store1_def
      MAX_INSNS_PER_PATH_def INSTRUCTION_SIZE_def budget_try_reserve_def reserve_update_def set_budget_def
      add_ref_def Let_def)

section \<open>Decisions\<close>

lemma decide_step_action:
  "precedence (fd_action (decide_step x p d n dec)) =
     min (precedence (node_action x p d n)) (precedence (fd_action dec))"
  by (auto simp: decide_step_def Let_def)

lemma fold_decide_precedence:
  "precedence (fd_action (fold (decide_step x p d) ns dec)) =
     Min (insert (precedence (fd_action dec)) ((\<lambda>n. precedence (node_action x p d n)) ` set ns))"
proof (induction ns arbitrary: dec)
  case (Cons n ns)
  let ?f = "\<lambda>n. precedence (node_action x p d n)"
  have "Min (insert (min (?f n) (precedence (fd_action dec))) (?f ` set ns)) =
      Min (insert (precedence (fd_action dec)) (insert (?f n) (?f ` set ns)))"
    by (cases "set ns = {}") (simp_all add: Min_insert min.assoc min.commute min.left_commute)
  then show ?case by (simp add: Cons.IH decide_step_action)
qed simp

lemma fold_decide_keeps:
  assumes "\<forall>n \<in> set ns. precedence (fd_action dec) \<le> precedence (node_action x p d n)"
  shows "fd_action (fold (decide_step x p d) ns dec) = fd_action dec \<and>
    fd_matched (fold (decide_step x p d) ns dec) = fd_matched dec"
  using assms
proof (induction ns arbitrary: dec)
  case (Cons n ns)
  have "fd_action (decide_step x p d n dec) = fd_action dec \<and>
      fd_matched (decide_step x p d n dec) = fd_matched dec"
    using Cons.prems by (auto simp: decide_step_def Let_def)
  with Cons show ?case by simp
qed simp

lemma fold_decide_first:
  assumes "i < length ns" and "precedence (node_action x p d (ns ! i)) < precedence (fd_action dec)"
    and "\<forall>j < length ns. precedence (node_action x p d (ns ! i)) \<le> precedence (node_action x p d (ns ! j))"
    and "\<forall>j < i. precedence (node_action x p d (ns ! i)) < precedence (node_action x p d (ns ! j))"
  shows "fd_action (fold (decide_step x p d) ns dec) = node_action x p d (ns ! i) \<and>
    fd_matched (fold (decide_step x p d) ns dec) = Some (fn_metadata (ns ! i))"
proof -
  let ?f = "\<lambda>n. precedence (node_action x p d n)"
  let ?d0 = "fold (decide_step x p d) (take i ns) dec"
  let ?d1 = "decide_step x p d (ns ! i) ?d0"
  have "?f (ns ! i) < Min (insert (precedence (fd_action dec)) (?f ` set (take i ns)))"
    using assms by (auto simp: in_set_conv_nth)
  then have "?f (ns ! i) < precedence (fd_action ?d0)" by (simp only: fold_decide_precedence)
  then have d1: "fd_action ?d1 = node_action x p d (ns ! i) \<and> fd_matched ?d1 = Some (fn_metadata (ns ! i))"
    by (auto simp: decide_step_def Let_def)
  have "fold (decide_step x p d) ns dec = fold (decide_step x p d) (drop (Suc i) ns) ?d1"
    using assms(1) by (subst id_take_nth_drop [OF assms(1)]) simp
  moreover have "\<forall>n \<in> set (drop (Suc i) ns). precedence (fd_action ?d1) \<le> ?f n"
    using assms(3) d1 by (auto simp: in_set_conv_nth)
  ultimately show ?thesis using fold_decide_keeps d1 by metis
qed

lemma fold_decide_counts:
  "fd_native dec + fd_interpreter dec + length ns \<le> usize_max \<Longrightarrow>
   fd_native (fold (decide_step x p d) ns dec) = fd_native dec + length (filter (\<lambda>n. fn_executor n \<noteq> None) ns) \<and>
   fd_interpreter (fold (decide_step x p d) ns dec) =
     fd_interpreter dec + length (filter (\<lambda>n. fn_executor n = None) ns)"
proof (induction ns arbitrary: dec)
  case (Cons n ns)
  let ?d = "decide_step x p d n dec"
  have "fd_native ?d = fd_native dec + (if fn_executor n \<noteq> None then 1 else 0) \<and>
      fd_interpreter ?d = fd_interpreter dec + (if fn_executor n = None then 1 else 0)"
    using Cons.prems by (auto simp: decide_step_def Let_def saturating_add_def)
  then show ?case using Cons.IH [of ?d] Cons.prems by auto
qed simp

text \<open>
  C23. A chain decides by its most restrictive filter. The chosen action has the least signed
  precedence among \<open>ALLOW\<close> and the actions of all filters, however the filters are executed.
  When some filter is stricter than \<open>ALLOW\<close>, the newest filter that attains the minimum
  supplies the action with its data and its metadata; otherwise the decision is plain
  \<open>ALLOW\<close> with no matched filter.
\<close>

theorem evaluate_most_restrictive:
  "let dec = chain_evaluate execute interp c d; ns = chain_nodes c;
       f = (\<lambda>n. precedence (node_action execute interp d n)) in
    precedence (fd_action dec) = Min (insert (precedence SECCOMP_RET_ALLOW) (f ` set ns)) \<and>
    (fd_matched dec = None \<longleftrightarrow> (\<forall>n \<in> set ns. f n = precedence SECCOMP_RET_ALLOW)) \<and>
    (fd_matched dec = None \<longrightarrow> fd_action dec = SECCOMP_RET_ALLOW) \<and>
    (\<forall>i < length ns. f (ns ! i) < precedence SECCOMP_RET_ALLOW \<and>
       (\<forall>j < length ns. f (ns ! i) \<le> f (ns ! j)) \<and> (\<forall>j < i. f (ns ! i) < f (ns ! j)) \<longrightarrow>
       fd_action dec = node_action execute interp d (ns ! i) \<and>
       fd_matched dec = Some (fn_metadata (ns ! i)))"
proof -
  let ?f = "\<lambda>n. precedence (node_action execute interp d n)" and ?ns = "chain_nodes c"
  let ?d0 = "\<lparr>fd_action = SECCOMP_RET_ALLOW, fd_matched = None, fd_native = 0, fd_interpreter = 0\<rparr>"
  let ?dec = "chain_evaluate execute interp c d"
  have first: "fd_action ?dec = node_action execute interp d (?ns ! i) \<and>
      fd_matched ?dec = Some (fn_metadata (?ns ! i))"
    if "i < length ?ns" "?f (?ns ! i) < precedence SECCOMP_RET_ALLOW"
      "\<forall>j < length ?ns. ?f (?ns ! i) \<le> ?f (?ns ! j)" "\<forall>j < i. ?f (?ns ! i) < ?f (?ns ! j)" for i
    using fold_decide_first [of i ?ns execute interp d ?d0] that by (simp add: chain_evaluate_def)
  have plain: "fd_action ?dec = SECCOMP_RET_ALLOW \<and> fd_matched ?dec = None"
    if "\<forall>n \<in> set ?ns. ?f n = precedence SECCOMP_RET_ALLOW"
    using fold_decide_keeps [of ?ns ?d0 execute interp d] that by (simp add: chain_evaluate_def)
  have matched: "\<exists>m. fd_matched ?dec = Some m" if n: "n \<in> set ?ns" "?f n \<noteq> precedence SECCOMP_RET_ALLOW" for n
  proof -
    let ?m = "Min (?f ` set ?ns)"
    have ex: "\<exists>i < length ?ns. ?f (?ns ! i) = ?m"
    proof -
      have "?m \<in> ?f ` set ?ns" using n(1) by (intro Min_in) auto
      then obtain v where "v \<in> set ?ns" "?f v = ?m" by force
      then show ?thesis by (metis in_set_conv_nth)
    qed
    define i where "i = (LEAST i. i < length ?ns \<and> ?f (?ns ! i) = ?m)"
    have i: "i < length ?ns" "?f (?ns ! i) = ?m" using LeastI_ex [OF ex] by (auto simp: i_def)
    have min: "\<forall>j < length ?ns. ?f (?ns ! i) \<le> ?f (?ns ! j)" using i by auto
    have below: "?f (?ns ! i) < ?f (?ns ! j)" if "j < i" for j
    proof -
      have "?f (?ns ! j) \<noteq> ?m"
        using not_less_Least [OF that [unfolded i_def]] that i(1) by simp
      moreover have "?m \<le> ?f (?ns ! j)" using that i(1) by simp
      ultimately show ?thesis using i(2) by simp
    qed
    have "?m \<le> ?f n" using n(1) by simp
    then have "?f (?ns ! i) < precedence SECCOMP_RET_ALLOW"
      using n(2) i(2) precedence_le_allow [of "node_action execute interp d n"] by linarith
    with first [OF i(1)] min below show ?thesis by blast
  qed
  have "precedence (fd_action ?dec) = Min (insert (precedence SECCOMP_RET_ALLOW) (?f ` set ?ns))"
    using fold_decide_precedence [of execute interp d ?ns ?d0] by (simp add: chain_evaluate_def)
  moreover have "fd_matched ?dec = None \<longleftrightarrow> (\<forall>n \<in> set ?ns. ?f n = precedence SECCOMP_RET_ALLOW)"
    using matched plain by (metis option.distinct(1))
  ultimately show ?thesis using first plain unfolding Let_def by blast
qed

theorem evaluate_most_restrictive_witness:
  "let dec = chain_evaluate (\<lambda>_ _. 0) (\<lambda>_ _. 0x50001) (Some ex_node) ex_data in
    fd_action dec = 0x50001 \<and> fd_matched dec = Some ex_meta"
proof -
  have nodes: "chain_nodes (Some ex_node) = [ex_node]" by (simp add: chain_nodes_def ex_node_def)
  have act: "node_action (\<lambda>_ _. 0) (\<lambda>_ _. 0x50001) d ex_node = 0x50001" for d
    by (simp add: node_action_def ex_node_def)
  have "precedence 0x50001 < precedence SECCOMP_RET_ALLOW"
    by (simp add: precedence_def action_bits_def seccomp_ret_defs)
  then show ?thesis
    using evaluate_most_restrictive [of "\<lambda>_ _. 0" "\<lambda>_ _. 0x50001" "Some ex_node" ex_data]
    by (simp add: Let_def nodes act) (simp add: ex_node_def)
qed

section \<open>Live nodes and reference counts\<close>

text \<open>The nodes of \<open>L\<close> that hold a reference to address \<open>a\<close>.\<close>

definition pointers :: "'x filter_node set \<Rightarrow> nat \<Rightarrow> 'x filter_node set" where
  "pointers L a = {n \<in> L. \<exists>q. fn_previous n = Some q \<and> fn_addr q = a}"

definition charged_to :: "'x filter_node set \<Rightarrow> nat \<Rightarrow> 'x filter_node set" where
  "charged_to L b = {n \<in> L. ch_budget (fn_charge n) = b}"

definition live_ok :: "filter_store \<Rightarrow> 'x filter_node set \<Rightarrow> bool" where
  "live_ok s L \<longleftrightarrow> finite L \<and> inj_on fn_addr L \<and>
     (\<forall>n \<in> L. \<forall>q. fn_previous n = Some q \<longrightarrow> q \<in> L) \<and>
     (\<forall>n \<in> L. fn_addr n < fs_next s \<and> ch_budget (fn_charge n) < length (fs_budgets s))"

definition refs_ok :: "filter_store \<Rightarrow> 'x filter_node set \<Rightarrow> 'x filter_node multiset \<Rightarrow> bool" where
  "refs_ok s L H \<longleftrightarrow> set_mset H \<subseteq> L \<and>
     (\<forall>a. fs_refs s a = count (image_mset fn_addr H) a + card (pointers L a)) \<and>
     (\<forall>n \<in> L. 0 < fs_refs s (fn_addr n))"

definition memory_ok :: "filter_store \<Rightarrow> 'x filter_node set \<Rightarrow> bool" where
  "memory_ok s L \<longleftrightarrow> (\<forall>b < length (fs_budgets s).
     unat (fb_used (fs_budgets s ! b)) = (\<Sum>n \<in> charged_to L b. ch_bytes (fn_charge n)) \<and>
     unat (fb_used (fs_budgets s ! b)) \<le> fb_limit (fs_budgets s ! b))"

definition heap_ok :: "filter_store \<Rightarrow> 'x filter_node set \<Rightarrow> 'x filter_node multiset \<Rightarrow> bool" where
  "heap_ok s L H \<longleftrightarrow> live_ok s L \<and> refs_ok s L H \<and> memory_ok s L"

lemma previous_ne: "fn_previous n \<noteq> Some n"
proof
  assume self: "fn_previous n = Some n"
  have "size_option size (fn_previous n) < size n" by (cases n) simp
  then show False by (simp add: self)
qed

lemma pointers_remove:
  "n \<in> L \<Longrightarrow> pointers (L - {n}) a =
    (if \<exists>q. fn_previous n = Some q \<and> fn_addr q = a then pointers L a - {n} else pointers L a)"
  by (auto simp: pointers_def)

lemma charged_to_remove: "charged_to (L - {n}) b = charged_to L b - {n}"
  by (auto simp: charged_to_def)

lemma heap_ok_unref:
  assumes ok: "heap_ok s L (add_mset n H)" and more: "fs_refs s (fn_addr n) \<noteq> 1"
  shows "heap_ok (s\<lparr>fs_refs := (fs_refs s)(fn_addr n := fs_refs s (fn_addr n) - 1)\<rparr>) L H"
proof -
  have "n \<in> L" "0 < fs_refs s (fn_addr n)" using ok by (auto simp: heap_ok_def refs_ok_def)
  moreover have "fs_refs s a = count (image_mset fn_addr (add_mset n H)) a + card (pointers L a)" for a
    using ok by (simp add: heap_ok_def refs_ok_def)
  ultimately show ?thesis
    using ok more by (auto simp: heap_ok_def live_ok_def refs_ok_def memory_ok_def)
qed

text \<open>Freeing a node whose only reference is dropped: its own reference passes to the caller.\<close>

lemma heap_ok_free:
  assumes ok: "heap_ok s L (add_mset n H)" and one: "fs_refs s (fn_addr n) = 1"
  defines "b \<equiv> ch_budget (fn_charge n)"
  defines "s1 \<equiv> set_budget b (budget_release (fs_budgets s ! b) (ch_bytes (fn_charge n)))
    (s\<lparr>fs_refs := (fs_refs s)(fn_addr n := 0)\<rparr>)"
  shows "heap_ok s1 (L - {n}) (case fn_previous n of None \<Rightarrow> H | Some q \<Rightarrow> add_mset q H)"
proof -
  let ?H = "case fn_previous n of None \<Rightarrow> H | Some q \<Rightarrow> add_mset q H"
  have n: "n \<in> L" and fin: "finite L" and inj: "inj_on fn_addr L" and b: "b < length (fs_budgets s)"
    and closed: "\<And>m q. m \<in> L \<Longrightarrow> fn_previous m = Some q \<Longrightarrow> q \<in> L"
    using ok by (auto simp: heap_ok_def live_ok_def refs_ok_def b_def)
  have refs: "fs_refs s a = count (image_mset fn_addr (add_mset n H)) a + card (pointers L a)" for a
    using ok by (simp add: heap_ok_def refs_ok_def)
  have none: "pointers L (fn_addr n) = {}" "fn_addr n \<notin> fn_addr ` set_mset H"
  proof -
    have "count (image_mset fn_addr H) (fn_addr n) = 0 \<and> card (pointers L (fn_addr n)) = 0"
      using refs [of "fn_addr n"] one by simp
    then show "pointers L (fn_addr n) = {}" "fn_addr n \<notin> fn_addr ` set_mset H"
      using fin by (auto simp: pointers_def count_eq_zero_iff)
  qed
  have live: "live_ok s1 (L - {n})"
    using ok none(1) by (auto simp: heap_ok_def live_ok_def s1_def set_budget_def pointers_def
        intro: inj_on_diff)
  have sub: "set_mset ?H \<subseteq> L - {n}"
    using ok none(2) closed [OF n] previous_ne [of n]
    by (auto simp: heap_ok_def refs_ok_def split: option.splits)
  have cnt: "fs_refs s1 a = count (image_mset fn_addr ?H) a + card (pointers (L - {n}) a)" for a
  proof (cases "a = fn_addr n")
    case True
    then have "fs_refs s1 a = 0" by (simp add: s1_def set_budget_def)
    moreover have "a \<notin> fn_addr ` set_mset ?H"
      using sub n inj True by (auto dest!: inj_onD)
    moreover have "pointers (L - {n}) a = {}" using none(1) True by (auto simp: pointers_def)
    ultimately show ?thesis by (simp add: count_eq_zero_iff)
  next
    case False
    then have "fs_refs s1 a = count (image_mset fn_addr H) a + card (pointers L a)"
      using refs [of a] by (simp add: s1_def set_budget_def)
    moreover have "finite (pointers L a)" using fin by (simp add: pointers_def)
    moreover have "n \<in> pointers L a \<longleftrightarrow> (\<exists>q. fn_previous n = Some q \<and> fn_addr q = a)"
      using n by (auto simp: pointers_def)
    ultimately show ?thesis
      using card_Suc_Diff1 [of "pointers L a" n]
      by (auto simp: pointers_remove [OF n] split: option.splits)
  qed
  have "0 < fs_refs s1 (fn_addr m)" if "m \<in> L - {n}" for m
    using that ok n inj by (auto simp: heap_ok_def refs_ok_def s1_def set_budget_def dest: inj_onD)
  with sub cnt have "refs_ok s1 (L - {n}) ?H" by (simp add: refs_ok_def)
  moreover have "memory_ok s1 (L - {n})"
  proof -
    have finb: "finite (charged_to L x)" for x using fin by (simp add: charged_to_def)
    have nb: "n \<in> charged_to L x \<longleftrightarrow> x = b" for x using n by (auto simp: charged_to_def b_def)
    have used: "unat (fb_used (fs_budgets s ! x)) = (\<Sum>m \<in> charged_to L x. ch_bytes (fn_charge m))"
      "unat (fb_used (fs_budgets s ! x)) \<le> fb_limit (fs_budgets s ! x)" if "x < length (fs_budgets s)" for x
      using ok that by (auto simp: heap_ok_def memory_ok_def)
    have le: "ch_bytes (fn_charge n) \<le> unat (fb_used (fs_budgets s ! b))"
      using used(1) [OF b] nb finb by (simp add: sum.remove [of _ n])
    show ?thesis
      unfolding memory_ok_def
    proof (intro allI impI)
      fix x assume x: "x < length (fs_budgets s1)"
      then have x: "x < length (fs_budgets s)" by (simp add: s1_def set_budget_def)
      have "(\<Sum>m \<in> charged_to (L - {n}) x. ch_bytes (fn_charge m)) =
          unat (fb_used (fs_budgets s ! x)) - (if x = b then ch_bytes (fn_charge n) else 0)"
        using used(1) [OF x] nb [of x] finb [of x] by (simp add: charged_to_remove sum_diff1_nat)
      then show "unat (fb_used (fs_budgets s1 ! x)) =
          (\<Sum>m \<in> charged_to (L - {n}) x. ch_bytes (fn_charge m)) \<and>
          unat (fb_used (fs_budgets s1 ! x)) \<le> fb_limit (fs_budgets s1 ! x)"
        using filter_mem.refund_ok [OF le] used(2) [OF x] b
        by (auto simp: s1_def set_budget_def nth_list_update)
    qed
  qed
  ultimately show ?thesis using live by (simp add: heap_ok_def)
qed

lemma node_drop_ok:
  "heap_ok s L (add_mset n H) \<Longrightarrow> \<exists>L' \<subseteq> L. heap_ok (node_drop s n) L' H"
proof (induction s n arbitrary: L H rule: node_drop.induct)
  case (1 s a p x m prev c k ch)
  let ?n = "FilterNode a p x m prev c k ch"
  show ?case
  proof (cases "fs_refs s a = 1")
    case False
    then show ?thesis using heap_ok_unref [OF 1(2)] by auto
  next
    case True
    let ?s1 = "set_budget (ch_budget ch) (budget_release (fs_budgets s ! ch_budget ch) (ch_bytes ch))
      (s\<lparr>fs_refs := (fs_refs s)(a := 0)\<rparr>)"
    have ok: "heap_ok ?s1 (L - {?n}) (case prev of None \<Rightarrow> H | Some q \<Rightarrow> add_mset q H)"
      using heap_ok_free [OF 1(2)] True by simp
    show ?thesis
    proof (cases prev)
      case None
      then show ?thesis using ok True by (auto simp: Let_def)
    next
      case (Some q)
      then have "\<exists>L' \<subseteq> L - {?n}. heap_ok (node_drop ?s1 q) L' H"
        using 1(1) [OF True refl _ Some, of ?s1 "L - {?n}" H] ok by simp
      then show ?thesis using Some True by (auto simp: Let_def)
    qed
  qed
qed

lemma heap_ok_clone:
  assumes "heap_ok s L H" and "n \<in> L"
  shows "heap_ok (add_ref (fn_addr n) s) L (add_mset n H)"
  using assms by (auto simp: heap_ok_def live_ok_def refs_ok_def memory_ok_def add_ref_def)

lemma append_Inr:
  assumes "try_append_with_executor node_size alloc s c p m b x = (s', Inr c')"
  shows "\<exists>bytes path_cost fb.
    c' = Some (FilterNode (fs_next s) p x m c path_cost (Suc (chain_filter_count c))
      \<lparr>ch_budget = b, ch_bytes = bytes\<rparr>) \<and>
    path_cost = vp_path_charge p + (if c = None then 0 else chain_path_cost c + FILTER_PATH_PENALTY) \<and>
    path_cost \<le> MAX_INSNS_PER_PATH \<and> budget_try_reserve (fs_budgets s ! b) bytes = Some fb \<and>
    (\<forall>leaf. c = Some leaf \<longrightarrow> ch_budget (fn_charge leaf) = b) \<and>
    s' = (add_ref (fs_next s) (chain_clone (set_budget b fb s) c))\<lparr>fs_next := Suc (fs_next s)\<rparr>"
  using assms
  by (auto simp: try_append_with_executor_def new_path_cost_def checked_iffs bind_eq_Some_conv Let_def
      chain_clone_def add_ref_def set_budget_def split: option.splits if_splits)

lemma append_Inl:
  assumes "try_append_with_executor node_size alloc s c p m b x = (s', Inl e)"
  shows "s' = s"
proof -
  have "set_budget b (budget_release fb n) (set_budget b fb s) = s"
    if "budget_try_reserve (fs_budgets s ! b) n = Some fb" for fb n
  proof -
    have "budget_release fb n = fs_budgets s ! b"
      using that by (auto simp: budget_try_reserve_Some_iff budget_release_def)
    then show ?thesis by (simp add: set_budget_def)
  qed
  with assms show ?thesis
    by (auto simp: try_append_with_executor_def Let_def split: option.splits if_splits)
qed

lemma heap_ok_append:
  assumes ok: "heap_ok s L H" and c: "set_option c \<subseteq> L" and b: "b < length (fs_budgets s)"
    and app: "try_append_with_executor node_size alloc s c p m b x = (s', Inr (Some n))"
  shows "heap_ok s' (insert n L) (add_mset n H) \<and> n \<notin> L"
proof -
  from append_Inr [OF app] obtain bytes fb where
    n: "fn_addr n = fs_next s" "fn_previous n = c" "fn_charge n = \<lparr>ch_budget = b, ch_bytes = bytes\<rparr>" and
    fb: "budget_try_reserve (fs_budgets s ! b) bytes = Some fb" and
    s': "s' = (add_ref (fs_next s) (chain_clone (set_budget b fb s) c))\<lparr>fs_next := Suc (fs_next s)\<rparr>"
    by auto
  have fresh: "\<forall>m \<in> L. fn_addr m \<noteq> fs_next s" using ok by (auto simp: heap_ok_def live_ok_def)
  then have notin: "n \<notin> L" using n by auto
  have budgets: "fs_budgets s' = (fs_budgets s)[b := fb]"
    by (auto simp: s' add_ref_def chain_clone_def set_budget_def split: option.splits)
  have live: "live_ok s' (insert n L)"
    using ok c n fresh notin b budgets
    by (auto simp: heap_ok_def live_ok_def s' inj_on_insert less_Suc_eq)
  have fin: "finite (pointers L a)" for a using ok by (simp add: heap_ok_def live_ok_def pointers_def)
  have ptr: "pointers (insert n L) a =
      (if \<exists>q. c = Some q \<and> fn_addr q = a then insert n (pointers L a) else pointers L a)" for a
    using n by (auto simp: pointers_def)
  have old: "fs_refs s a = count (image_mset fn_addr H) a + card (pointers L a)" for a
    using ok by (simp add: heap_ok_def refs_ok_def)
  have new: "fs_refs s' a = fs_refs s a + (if a = fs_next s then 1 else 0) +
      (if \<exists>q. c = Some q \<and> fn_addr q = a then 1 else 0)" for a
    using c fresh by (auto simp: s' add_ref_def chain_clone_def set_budget_def split: option.splits)
  have np: "n \<notin> pointers L a" for a using notin by (simp add: pointers_def)
  have "fs_refs s' a = count (image_mset fn_addr (add_mset n H)) a + card (pointers (insert n L) a)" for a
    by (simp add: new old ptr card_insert_disjoint [OF fin np] n)
  moreover have "\<forall>m \<in> insert n L. 0 < fs_refs s' (fn_addr m)"
    using ok n by (auto simp: heap_ok_def refs_ok_def new)
  ultimately have "refs_ok s' (insert n L) (add_mset n H)"
    using ok by (auto simp: heap_ok_def refs_ok_def)
  moreover have "memory_ok s' (insert n L)"
    unfolding memory_ok_def
  proof (intro allI impI)
    fix x assume "x < length (fs_budgets s')"
    then have x: "x < length (fs_budgets s)" by (simp add: budgets)
    have "charged_to (insert n L) x = (if x = b then insert n (charged_to L x) else charged_to L x)"
      using n by (auto simp: charged_to_def)
    moreover have "finite (charged_to L x)" "n \<notin> charged_to L x"
      using ok notin by (auto simp: heap_ok_def live_ok_def charged_to_def)
    moreover have "unat (fb_used (fs_budgets s ! x)) = (\<Sum>m \<in> charged_to L x. ch_bytes (fn_charge m))"
      "unat (fb_used (fs_budgets s ! x)) \<le> fb_limit (fs_budgets s ! x)"
      using ok x by (auto simp: heap_ok_def memory_ok_def)
    ultimately show "unat (fb_used (fs_budgets s' ! x)) =
        (\<Sum>m \<in> charged_to (insert n L) x. ch_bytes (fn_charge m)) \<and>
        unat (fb_used (fs_budgets s' ! x)) \<le> fb_limit (fs_budgets s' ! x)"
      using filter_mem.charge_ok [OF fb] x n by (auto simp: budgets nth_list_update)
  qed
  ultimately show ?thesis using live notin by (simp add: heap_ok_def)
qed

text \<open>
  The store under any use: installing a filter on a chain a client holds, cloning and dropping
  held chains. The second component is the multiset of held leaves.
\<close>

inductive chain_step ::
  "filter_store \<times> 'x filter_node multiset \<Rightarrow> filter_store \<times> 'x filter_node multiset \<Rightarrow> bool" where
  chain_append: "set_option c \<subseteq> set_mset H \<Longrightarrow> b < length (fs_budgets s) \<Longrightarrow>
    try_append_with_executor node_size alloc s c p m b x = (s', r) \<Longrightarrow>
    chain_step (s, H) (s', case r of Inr (Some n) \<Rightarrow> add_mset n H | _ \<Rightarrow> H)"
| chain_share: "n \<in># H \<Longrightarrow> chain_step (s, H) (chain_clone s (Some n), add_mset n H)"
| chain_release: "chain_step (s, add_mset n H) (chain_drop s (Some n), H)"

lemma chain_step_ok:
  assumes "chain_step w w'" and "heap_ok (fst w) L (snd w)"
  shows "\<exists>L'. heap_ok (fst w') L' (snd w')"
  using assms
proof (induction rule: chain_step.induct)
  case (chain_append c H b s node_size alloc p m x s' r)
  show ?case
  proof (cases "\<exists>n. r = Inr (Some n)")
    case True
    then obtain n where r: "r = Inr (Some n)" by blast
    have "set_option c \<subseteq> L" using chain_append by (auto simp: heap_ok_def refs_ok_def)
    with chain_append r show ?thesis using heap_ok_append [of s L H c b node_size alloc p m x s' n] by auto
  next
    case False
    moreover have "\<exists>n. r = Inr (Some n) \<or> (\<exists>e. r = Inl e)"
      using chain_append(3) append_Inr [of node_size alloc s c p m b x s'] by (cases r) fastforce+
    ultimately obtain e where "r = Inl e" by blast
    with chain_append append_Inl show ?thesis by fastforce
  qed
next
  case (chain_share n H s)
  then have "n \<in> L" by (auto simp: heap_ok_def refs_ok_def)
  with chain_share heap_ok_clone show ?case by (fastforce simp: chain_clone_def)
next
  case (chain_release s n H)
  then show ?case using node_drop_ok by (fastforce simp: chain_drop_def)
qed

lemma chain_steps_ok:
  "chain_step\<^sup>*\<^sup>* w w' \<Longrightarrow> heap_ok (fst w) L (snd w) \<Longrightarrow> \<exists>L'. heap_ok (fst w') L' (snd w')"
proof (induction rule: rtranclp_induct)
  case (step u v)
  then show ?case using chain_step_ok by blast
qed blast

text \<open>
  Exactly the nodes on the ancestry of a held leaf are live: a live node outside would be
  referenced only by larger nodes outside.
\<close>

lemma ancestry_self [simp]: "n \<in> set (ancestry n)"
  by (cases n) simp

lemma ancestry_unfold:
  "ancestry n = n # (case fn_previous n of None \<Rightarrow> [] | Some q \<Rightarrow> ancestry q)"
  by (cases n) simp

lemma ancestry_previous: "m \<in> set (ancestry n) \<Longrightarrow> fn_previous m = Some q \<Longrightarrow> q \<in> set (ancestry n)"
  by (induction n rule: ancestry.induct) (auto split: option.splits)

lemma ancestry_live: "live_ok s L \<Longrightarrow> n \<in> L \<Longrightarrow> set (ancestry n) \<subseteq> L"
proof (induction n rule: ancestry.induct)
  case (1 a p x m prev c n ch)
  have "\<forall>q. prev = Some q \<longrightarrow> q \<in> L" using 1(2,3) by (force simp: live_ok_def)
  with 1 show ?case by (auto split: option.splits)
qed

lemma heap_ok_live:
  assumes ok: "heap_ok s L H"
  shows "L = (\<Union>n \<in> set_mset H. set (ancestry n))" (is "_ = ?R")
proof
  show "?R \<subseteq> L"
  proof (rule UN_least)
    fix n assume "n \<in># H"
    with ok have "live_ok s L" "n \<in> L" by (auto simp: heap_ok_def refs_ok_def)
    then show "set (ancestry n) \<subseteq> L" by (rule ancestry_live)
  qed
  show "L \<subseteq> ?R"
  proof (rule ccontr)
    let ?X = "L - ?R"
    assume "\<not> L \<subseteq> ?R"
    then have "?X \<noteq> {}" by blast
    moreover have fin: "finite ?X" using ok by (simp add: heap_ok_def live_ok_def)
    ultimately have "Max (size ` ?X) \<in> size ` ?X" by (intro Max_in) simp_all
    then obtain n where n: "n \<in> L" "n \<notin> ?R" "Max (size ` ?X) = size n" by blast
    have larger: "m \<in> ?R" if "m \<in> L" "size n < size m" for m
    proof (rule ccontr)
      assume "m \<notin> ?R"
      with that(1) have "size m \<le> Max (size ` ?X)" using fin by (intro Max_ge) simp_all
      with n(3) that(2) show False by simp
    qed
    have sub: "set_mset H \<subseteq> L" and closed: "\<And>m q. m \<in> L \<Longrightarrow> fn_previous m = Some q \<Longrightarrow> q \<in> L"
      and inj: "\<And>m. m \<in> L \<Longrightarrow> fn_addr m = fn_addr n \<Longrightarrow> m = n"
      using ok n(1) unfolding heap_ok_def live_ok_def refs_ok_def inj_on_def by blast+
    have "n \<notin># H" using n(2) ancestry_self by blast
    then have "fn_addr n \<notin> fn_addr ` set_mset H" using sub inj by force
    then have "0 < card (pointers L (fn_addr n))"
      using ok n(1) by (auto simp: heap_ok_def refs_ok_def count_eq_zero_iff)
    then obtain m q where m: "m \<in> L" "fn_previous m = Some q" "fn_addr q = fn_addr n"
      by (auto simp: card_gt_0_iff pointers_def)
    then have q: "q = n" using closed inj by blast
    then have "size n < size m" using m(2) by (cases m) auto
    with m(1) have "m \<in> ?R" by (rule larger)
    then have "n \<in> ?R" using m(2) q ancestry_previous by blast
    with n(2) show False by simp
  qed
qed

definition fresh_store :: "filter_budget list \<Rightarrow> filter_store" where
  "fresh_store fbs = \<lparr>fs_refs = (\<lambda>_. 0), fs_next = 0, fs_budgets = fbs\<rparr>"

lemma heap_ok_fresh: "\<forall>fb \<in> set fbs. fb_used fb = 0 \<Longrightarrow> heap_ok (fresh_store fbs) {} {#}"
  by (auto simp: heap_ok_def live_ok_def refs_ok_def memory_ok_def fresh_store_def pointers_def
      charged_to_def)

text \<open>
  C24. Filter memory is conserved. From fresh budgets, under any interleaving of installs that
  succeed or fail, clones and drops of chains, the bytes in use of every budget are exactly the
  bytes of the nodes that some held chain still reaches, never more than the limit; the strong
  count of every node is its number of holders and newer nodes; and once the last chain is
  dropped every budget is back at zero.
\<close>

theorem filter_memory_conserved:
  assumes "chain_step\<^sup>*\<^sup>* (fresh_store fbs, {#}) (s, H)" and "\<forall>fb \<in> set fbs. fb_used fb = 0"
    and "b < length (fs_budgets s)"
  shows "let live = (\<Union>n \<in> set_mset H. set (ancestry n)); fb = fs_budgets s ! b in
    unat (fb_used fb) = (\<Sum>n \<in> charged_to live b. ch_bytes (fn_charge n)) \<and>
    unat (fb_used fb) \<le> fb_limit fb \<and>
    (\<forall>a. fs_refs s a = count (image_mset fn_addr H) a + card (pointers live a)) \<and>
    (H = {#} \<longrightarrow> fb_used fb = 0)"
proof -
  let ?L = "\<Union>n \<in> set_mset H. set (ancestry n)" and ?fb = "fs_budgets s ! b"
  obtain L' where L': "heap_ok s L' H" using chain_steps_ok [OF assms(1)] heap_ok_fresh [OF assms(2)] by auto
  have ok: "heap_ok s ?L H" using L' heap_ok_live [OF L'] by simp
  have used: "unat (fb_used ?fb) = (\<Sum>n \<in> charged_to ?L b. ch_bytes (fn_charge n))"
    using ok assms(3) unfolding heap_ok_def memory_ok_def by blast
  moreover have "unat (fb_used ?fb) \<le> fb_limit ?fb"
    using ok assms(3) unfolding heap_ok_def memory_ok_def by blast
  moreover have "\<forall>a. fs_refs s a = count (image_mset fn_addr H) a + card (pointers ?L a)"
    using ok unfolding heap_ok_def refs_ok_def by blast
  moreover have "fb_used ?fb = 0" if "H = {#}"
    using used that by (simp add: charged_to_def unat_eq_0)
  ultimately show ?thesis unfolding Let_def by blast
qed

theorem filter_memory_conserved_witness:
  "(\<exists>s n. chain_step\<^sup>*\<^sup>* (fresh_store [\<lparr>fb_limit = 1000, fb_used = 0\<rparr>], {#}) (s, {#n :: unit filter_node#}) \<and>
     unat (fb_used (fs_budgets s ! 0)) = ch_bytes (fn_charge n) \<and> ch_bytes (fn_charge n) = 108) \<and>
   fb_used (fs_budgets (chain_drop ex_store1 (Some ex_node)) ! 0) = 0"
proof -
  let ?w = "(fresh_store [\<lparr>fb_limit = 1000, fb_used = 0\<rparr>], {#} :: unit filter_node multiset)"
  have one: "chain_step ?w (ex_store1, {#ex_node#})"
    using chain_append [of None "{#}" 0 ex_store 100 True ex_program ex_meta None ex_store1 "Inr (Some ex_node)"]
    by (simp add: ex_append) (simp add: ex_store_def fresh_store_def)
  then have live: "chain_step\<^sup>*\<^sup>* ?w (ex_store1, {#ex_node#})" by blast
  have "chain_step (ex_store1, {#ex_node#}) (chain_drop ex_store1 (Some ex_node), {#})" by (rule chain_release)
  with live have dead: "chain_step\<^sup>*\<^sup>* ?w (chain_drop ex_store1 (Some ex_node), {#})" by simp
  have len: "0 < length (fs_budgets ex_store1)" "0 < length (fs_budgets (chain_drop ex_store1 (Some ex_node)))"
    by (simp_all add: ex_store1_def chain_drop_def ex_node_def set_budget_def Let_def)
  have "charged_to (set (ancestry ex_node)) 0 = {ex_node}"
    by (auto simp: charged_to_def ex_node_def)
  then have "unat (fb_used (fs_budgets ex_store1 ! 0)) = ch_bytes (fn_charge ex_node)"
    using filter_memory_conserved [OF live _ len(1)] by (simp add: Let_def)
  moreover have "fb_used (fs_budgets (chain_drop ex_store1 (Some ex_node)) ! 0) = 0"
    using filter_memory_conserved [OF dead _ len(2)] by (simp add: Let_def)
  moreover have "ch_bytes (fn_charge ex_node) = 108" by (simp add: ex_node_def)
  ultimately show ?thesis using live by blast
qed

section \<open>Path accounting\<close>

text \<open>What every chain built by appending satisfies.\<close>

definition path_ok :: "'x filter_chain \<Rightarrow> bool" where
  "path_ok c \<longleftrightarrow> chain_filter_count c = length (chain_nodes c) \<and>
     chain_path_cost c = (\<Sum>n \<leftarrow> chain_nodes c. vp_path_charge (fn_program n)) +
       FILTER_PATH_PENALTY * (length (chain_nodes c) - 1) \<and>
     chain_path_cost c \<le> MAX_INSNS_PER_PATH \<and>
     (\<forall>n \<in> set (chain_nodes c). \<forall>m \<in> set (chain_nodes c). ch_budget (fn_charge n) = ch_budget (fn_charge m))"

lemma path_ok_None: "path_ok None"
  by (simp add: path_ok_def chain_filter_count_def chain_path_cost_def chain_nodes_def)

lemma chain_nodes_Some: "chain_nodes (Some n) = n # chain_nodes (fn_previous n)"
  using ancestry_unfold [of n] by (simp add: chain_nodes_def)

lemma chain_nodes_empty [simp]: "chain_nodes c = [] \<longleftrightarrow> c = None"
  by (cases c) (simp_all only: chain_nodes_Some, simp_all add: chain_nodes_def)

lemma same_identity_refl [simp]: "same_identity c c"
  by (cases c) simp_all

text \<open>
  C25. Installing a filter keeps the path accounting. On a chain whose cached count and cost are
  the number of filters and the sum of their charges plus a penalty of 4 per older filter, an
  install fails with the path error exactly when the new sum would exceed 32768, every failure
  leaves counters and budgets as they were, and a success puts one new node in front of the old
  chain, charges the same budget and keeps the cached values exact and bounded.
\<close>

theorem append_path_bounded:
  assumes "path_ok c" and "try_append_with_executor node_size alloc s c p m b x = (s', r)"
  shows "(r = Inl FiPathTooLong \<longleftrightarrow> MAX_INSNS_PER_PATH <
      vp_path_charge p + (\<Sum>n \<leftarrow> chain_nodes c. vp_path_charge (fn_program n) + FILTER_PATH_PENALTY)) \<and>
    (case r of
       Inl e \<Rightarrow> s' = s
     | Inr c' \<Rightarrow> path_ok c' \<and> directly_extends c' c \<and>
        (\<exists>n. chain_nodes c' = n # chain_nodes c \<and> fn_program n = p \<and> fn_metadata n = m \<and> fn_executor n = x))"
proof -
  let ?ns = "chain_nodes c"
  let ?cost = "vp_path_charge p + (\<Sum>n \<leftarrow> ?ns. vp_path_charge (fn_program n) + FILTER_PATH_PENALTY)"
  have split_sum: "(\<Sum>n \<leftarrow> ns. vp_path_charge (fn_program n) + FILTER_PATH_PENALTY) =
      (\<Sum>n \<leftarrow> ns. vp_path_charge (fn_program n)) + FILTER_PATH_PENALTY * length ns"
    for ns :: "'a filter_node list" by (induction ns) simp_all
  have cost: "?cost = vp_path_charge p + (if c = None then 0 else chain_path_cost c + FILTER_PATH_PENALTY)"
    using assms(1) by (cases c) (auto simp only: path_ok_def split_sum chain_nodes_Some, auto simp: chain_nodes_def)
  have count: "chain_filter_count c < MAX_INSNS_PER_PATH"
    using assms(1) by (auto simp: path_ok_def FILTER_PATH_PENALTY_def MAX_INSNS_PER_PATH_def)
  have max: "MAX_INSNS_PER_PATH < usize_max" by (simp add: MAX_INSNS_PER_PATH_def usize_max_def)
  have new: "new_path_cost c p = (if ?cost \<le> usize_max then Some ?cost else None) \<or>
      new_path_cost c p = Some ?cost"
    by (auto simp: cost new_path_cost_def checked_add_def)
  have too_long: "r = Inl FiPathTooLong \<longleftrightarrow> MAX_INSNS_PER_PATH < ?cost"
    using assms(2) new count max
    by (auto simp: try_append_with_executor_def Let_def checked_add_def split: option.splits if_splits)
  show ?thesis
  proof (cases r)
    case (Inl e)
    then show ?thesis using assms(2) append_Inl too_long by fastforce
  next
    case (Inr c')
    from append_Inr [OF assms(2) [unfolded Inr]] obtain bytes where
      "\<exists>n. c' = Some n \<and> n = FilterNode (fs_next s) p x m c ?cost (Suc (chain_filter_count c))
        \<lparr>ch_budget = b, ch_bytes = bytes\<rparr>" and
      le: "?cost \<le> MAX_INSNS_PER_PATH" and same: "\<forall>leaf. c = Some leaf \<longrightarrow> ch_budget (fn_charge leaf) = b"
      unfolding cost by blast
    then obtain n where c': "c' = Some n" and n: "fn_program n = p" "fn_metadata n = m" "fn_executor n = x"
      "fn_previous n = c" "fn_path_cost n = ?cost" "fn_filter_count n = Suc (chain_filter_count c)"
      "fn_charge n = \<lparr>ch_budget = b, ch_bytes = bytes\<rparr>"
      by auto
    have nodes: "chain_nodes c' = n # ?ns" by (simp add: c' chain_nodes_Some n)
    have "\<forall>q \<in> set ?ns. ch_budget (fn_charge q) = b"
    proof (cases c)
      case (Some leaf)
      then have "leaf \<in> set ?ns" by (simp add: chain_nodes_Some)
      with assms(1) same Some show ?thesis unfolding path_ok_def by blast
    qed (simp add: chain_nodes_def)
    then have budget: "\<forall>q \<in> set (chain_nodes c'). ch_budget (fn_charge q) = b" by (simp add: nodes n)
    have "chain_filter_count c' = length (chain_nodes c')"
      using assms(1) by (simp add: path_ok_def c' [symmetric] nodes) (simp add: c' chain_filter_count_def n)
    moreover have "chain_path_cost c' = ?cost" by (simp add: c' chain_path_cost_def n)
    ultimately have "path_ok c'"
      unfolding path_ok_def using le budget by (simp add: nodes split_sum n)
    then show ?thesis
      using n nodes too_long Inr by (auto simp: directly_extends_def c')
  qed
qed

theorem append_path_bounded_witness:
  "path_ok (None :: unit filter_chain) \<and>
   try_append_with_executor 100 True ex_store None ex_program ex_meta 0 None = (ex_store1, Inr (Some ex_node)) \<and>
   path_ok (Some ex_node) \<and> directly_extends (Some ex_node) None"
  using append_path_bounded [OF path_ok_None ex_append] path_ok_None ex_append by simp

end
