(* ===== verification/Seccomp_State_Props.thy ===== *)
theory Seccomp_State_Props
  imports Seccomp_Chain_Props
begin

text \<open>
  The seccomp state of one task beside arbitrary uses of the filter store by others: no
  transition the crate offers makes the task more permissive.
\<close>

section \<open>Transitions\<close>

definition mode_ok :: "'x seccomp_state \<Rightarrow> bool" where
  "mode_ok st \<longleftrightarrow> (ss_mode st = Filter \<longleftrightarrow> ss_filters st \<noteq> None)"

definition own :: "'x seccomp_state \<Rightarrow> 'x filter_node multiset" where
  "own st = (case ss_filters st of None \<Rightarrow> {#} | Some leaf \<Rightarrow> {#leaf#})"

text \<open>
  The world is the store, the multiset of leaves others hold and the task's state, which holds
  its own leaf. A publication that succeeds clones the prepared leaf. Synchronization replaces
  the state by the prepared one and drops the old leaf.
\<close>

inductive task_step ::
  "filter_store \<times> 'x filter_node multiset \<times> 'x seccomp_state \<Rightarrow>
   filter_store \<times> 'x filter_node multiset \<times> 'x seccomp_state \<Rightarrow> bool" where
  task_others: "chain_step (s, H + own st) (s', H' + own st) \<Longrightarrow> task_step (s, H, st) (s', H', st)"
| task_strict: "try_enter_strict st = (st', r) \<Longrightarrow> task_step (s, H, st) (s, H, st')"
| task_publish: "set_option prepared \<subseteq> set_mset H \<Longrightarrow> set_option expected \<subseteq> set_mset (H + own st) \<Longrightarrow>
    try_publish_filter (s, st) expected prepared = ((s', st'), r) \<Longrightarrow> task_step (s, H, st) (s', H, st')"
| task_sync: "set_option (ss_filters caller) \<subseteq> set_mset H \<Longrightarrow>
    prepare_synchronized_from s st caller = (s', Inr st') \<Longrightarrow>
    task_step (s, H, st) (chain_drop s' (ss_filters st), H, st')"

definition task_ok :: "filter_store \<times> 'x filter_node multiset \<times> 'x seccomp_state \<Rightarrow> bool" where
  "task_ok w = (case w of (s, H, st) \<Rightarrow> mode_ok st \<and> (\<exists>L. heap_ok s L (H + own st)))"

section \<open>Identity\<close>

text \<open>Among live nodes an address determines the node, so identity tests are equality tests.\<close>

lemma live_addr_eq:
  "heap_ok s L H \<Longrightarrow> n \<in> L \<Longrightarrow> m \<in> L \<Longrightarrow> fn_addr n = fn_addr m \<Longrightarrow> n = m"
  unfolding heap_ok_def live_ok_def inj_on_def by blast

lemma live_previous: "heap_ok s L H \<Longrightarrow> n \<in> L \<Longrightarrow> fn_previous n = Some q \<Longrightarrow> q \<in> L"
  unfolding heap_ok_def live_ok_def by blast

lemma live_held: "heap_ok s L H \<Longrightarrow> n \<in># H \<Longrightarrow> n \<in> L"
  unfolding heap_ok_def refs_ok_def by blast

lemma same_identity_live:
  "heap_ok s L H \<Longrightarrow> set_option c \<subseteq> L \<Longrightarrow> set_option e \<subseteq> L \<Longrightarrow> same_identity c e \<longleftrightarrow> c = e"
  by (cases c; cases e) (auto dest: live_addr_eq)

lemma ancestry_suffix: "m \<in> set (ancestry n) \<Longrightarrow> \<exists>xs. ancestry n = xs @ ancestry m"
proof (induction n rule: ancestry.induct)
  case (1 a p x md prev c k ch)
  let ?n = "FilterNode a p x md prev c k ch"
  show ?case
  proof (cases "m = ?n")
    case True
    then show ?thesis by (intro exI [of _ "[]"]) simp
  next
    case False
    then obtain q where q: "prev = Some q" "m \<in> set (ancestry q)"
      using 1(2) by (auto split: option.splits)
    then obtain xs where "ancestry q = xs @ ancestry m" using 1(1) by blast
    then show ?thesis using q by (intro exI [of _ "?n # xs"]) simp
  qed
qed

lemma is_ancestor_suffix:
  assumes ok: "heap_ok s L H" and c: "set_option c \<subseteq> L" and d: "set_option d \<subseteq> L" and anc: "is_ancestor_of c d"
  shows "\<exists>xs. chain_nodes d = xs @ chain_nodes c"
proof (cases c)
  case None
  then show ?thesis by (simp add: chain_nodes_def)
next
  case (Some leaf)
  then obtain node where node: "node \<in> set (chain_nodes d)" "fn_addr leaf = fn_addr node"
    using anc by (auto simp: is_ancestor_of_def list_ex_iff)
  then obtain top where top: "d = Some top" by (cases d) (auto simp: chain_nodes_def)
  have "set (ancestry top) \<subseteq> L" using ok d top ancestry_live by (auto simp: heap_ok_def)
  then have "leaf = node" using live_addr_eq [OF ok _ _ node(2)] c Some node(1) top by (auto simp: chain_nodes_def)
  then show ?thesis using ancestry_suffix node(1) top Some by (auto simp: chain_nodes_def)
qed

section \<open>Steps only tighten\<close>

definition tightens :: "'x seccomp_state \<Rightarrow> 'x seccomp_state \<Rightarrow> bool" where
  "tightens st st' \<longleftrightarrow> (ss_mode st = Strict \<longrightarrow> ss_mode st' = Strict) \<and>
     (ss_mode st = Filter \<longrightarrow> ss_mode st' = Filter) \<and>
     (\<exists>xs. chain_nodes (ss_filters st') = xs @ chain_nodes (ss_filters st))"

lemma tightens_refl: "tightens st st"
  by (simp add: tightens_def)

lemma tightens_trans: "tightens a b \<Longrightarrow> tightens b c \<Longrightarrow> tightens a c"
  unfolding tightens_def by (metis append.assoc)

lemma heap_ok_swap:
  assumes "heap_ok s L (H + own st)" and "n \<in> L"
  shows "\<exists>L'. heap_ok (chain_drop (chain_clone s (Some n)) (ss_filters st)) L' (add_mset n H)"
proof (cases "ss_filters st")
  case None
  then show ?thesis using heap_ok_clone [OF assms] by (auto simp: own_def chain_drop_def chain_clone_def)
next
  case (Some leaf)
  then have "heap_ok (add_ref (fn_addr n) s) L (add_mset leaf (add_mset n H))"
    using heap_ok_clone [OF assms] by (simp add: own_def add_mset_commute)
  then show ?thesis using node_drop_ok Some by (fastforce simp: chain_drop_def chain_clone_def)
qed

lemma publish_tightens:
  assumes ok: "heap_ok s L (H + own st)" and mode: "mode_ok st"
    and sub: "set_option prepared \<subseteq> set_mset H" "set_option expected \<subseteq> set_mset (H + own st)"
    and pub: "try_publish_filter (s, st) expected prepared = ((s', st'), r)"
  shows "tightens st st' \<and> mode_ok st' \<and> (\<exists>L'. heap_ok s' L' (H + own st'))"
proof (cases r)
  case (Inl e)
  then have "s' = s \<and> st' = st" using pub by (auto simp: try_publish_filter_def split: if_splits)
  with ok mode show ?thesis using tightens_refl by blast
next
  case (Inr u)
  then have checks: "ss_mode st \<noteq> Strict" "same_identity (ss_filters st) expected"
      "directly_extends prepared expected"
    and s': "s' = chain_drop (chain_clone s prepared) (ss_filters st)"
    and st': "st' = st\<lparr>ss_filters := prepared, ss_mode := Filter\<rparr>"
    using pub by (auto simp: try_publish_filter_def split: if_splits)
  from checks(3) obtain n where n: "prepared = Some n" "same_identity (fn_previous n) expected"
    by (auto simp: directly_extends_def split: option.splits)
  have held: "set_mset (H + own st) \<subseteq> L" using ok live_held by blast
  have "n \<in> L" "set_option expected \<subseteq> L" "set_option (ss_filters st) \<subseteq> L"
    using sub held n(1) by (auto simp: own_def split: option.splits)
  moreover have "set_option (fn_previous n) \<subseteq> L" using live_previous [OF ok \<open>n \<in> L\<close>] by auto
  ultimately have "fn_previous n = ss_filters st"
    using same_identity_live [OF ok] n(2) checks(2) by metis
  then have "chain_nodes prepared = n # chain_nodes (ss_filters st)" by (simp add: n(1) chain_nodes_Some)
  then have "tightens st st'" using checks(1) by (simp add: tightens_def st')
  moreover have "mode_ok st'" by (simp add: mode_ok_def st' n(1))
  moreover have "\<exists>L'. heap_ok s' L' (H + own st')"
    using heap_ok_swap [OF ok \<open>n \<in> L\<close>] by (simp add: s' st' n(1) own_def)
  ultimately show ?thesis by blast
qed

lemma sync_tightens:
  assumes ok: "heap_ok s L (H + own st)" and mode: "mode_ok st"
    and sub: "set_option (ss_filters caller) \<subseteq> set_mset H"
    and sync: "prepare_synchronized_from s st caller = (s', Inr st')"
  shows "tightens st st' \<and> mode_ok st' \<and> (\<exists>L'. heap_ok (chain_drop s' (ss_filters st)) L' (H + own st'))"
proof -
  from sync have elig: "sync_eligibility st caller = Eligible" and st': "st' = caller"
    and s': "s' = chain_clone s (ss_filters caller)"
    by (auto simp: prepare_synchronized_from_def split: sync_eligibility.splits)
  then obtain n where caller: "ss_mode caller = Filter" "ss_filters caller = Some n"
    by (auto simp: sync_eligibility_def split: if_splits)
  have strict: "ss_mode st \<noteq> Strict" using elig caller by (auto simp: sync_eligibility_def)
  have held: "set_mset (H + own st) \<subseteq> L" using ok live_held by blast
  have L: "n \<in> L" "set_option (ss_filters st) \<subseteq> L"
    using sub held caller(2) by (auto simp: own_def split: option.splits)
  have "is_ancestor_of (ss_filters st) (Some n)"
  proof (cases "ss_mode st")
    case Filter
    then show ?thesis using elig caller by (auto simp: sync_eligibility_def split: if_splits)
  next
    case Disabled
    then show ?thesis using mode by (simp add: mode_ok_def is_ancestor_of_def)
  qed (use strict in simp)
  then have "\<exists>xs. chain_nodes (Some n) = xs @ chain_nodes (ss_filters st)"
    using is_ancestor_suffix [OF ok L(2)] L(1) by simp
  then have "tightens st st'" using caller strict by (simp add: tightens_def st')
  moreover have "mode_ok st'" using caller by (simp add: mode_ok_def st')
  moreover have "\<exists>L'. heap_ok (chain_drop s' (ss_filters st)) L' (H + own st')"
    using heap_ok_swap [OF ok L(1)] by (simp add: s' st' caller(2) own_def)
  ultimately show ?thesis by blast
qed

lemma task_step_tightens:
  assumes "task_step w w'" and "task_ok w"
  shows "task_ok w' \<and> tightens (snd (snd w)) (snd (snd w'))"
  using assms
proof (induction rule: task_step.induct)
  case (task_others s H st s' H')
  then show ?case using chain_step_ok [OF task_others(1)] by (auto simp: task_ok_def tightens_refl)
next
  case (task_strict st st' r s H)
  then show ?case
    by (auto simp: task_ok_def try_enter_strict_def mode_ok_def own_def tightens_def chain_nodes_def split: if_splits)
next
  case (task_publish prepared H expected st s s' st' r)
  then obtain L where "heap_ok s L (H + own st)" and "mode_ok st" by (auto simp: task_ok_def)
  from publish_tightens [OF this task_publish(1-3)] show ?case by (simp add: task_ok_def)
next
  case (task_sync caller H s st s' st')
  then obtain L where "heap_ok s L (H + own st)" and "mode_ok st" by (auto simp: task_ok_def)
  from sync_tightens [OF this task_sync(1,2)] show ?case by (simp add: task_ok_def)
qed

lemma task_steps_tighten:
  "task_step\<^sup>*\<^sup>* w w' \<Longrightarrow> task_ok w \<Longrightarrow> task_ok w' \<and> tightens (snd (snd w)) (snd (snd w'))"
proof (induction rule: rtranclp_induct)
  case (step u v)
  then show ?case using task_step_tightens tightens_trans by blast
qed (simp add: tightens_refl)

lemma evaluate_suffix:
  assumes "chain_nodes c' = xs @ chain_nodes c"
  shows "precedence (fd_action (chain_evaluate execute interp c' d)) \<le>
    precedence (fd_action (chain_evaluate execute interp c d))"
  unfolding chain_evaluate_def fold_decide_precedence assms
  by (rule Min_antimono) auto

text \<open>
  C26. A task's seccomp confinement is never relaxed. Whatever sequence of installs, clones and
  drops others perform on the store, of attempted transitions to strict mode, publications with
  any expected and prepared chain and synchronizations with any filtered caller: a strict task
  stays strict, a filtered task stays filtered, its old filters remain the oldest part of its
  chain, and for every system call the decision afterwards is at least as restrictive as before.
\<close>

theorem seccomp_never_relaxed:
  assumes "task_step\<^sup>*\<^sup>* (s, H, st) (s', H', st')" and "task_ok (s, H, st)"
  shows "(ss_mode st = Strict \<longrightarrow> ss_mode st' = Strict) \<and> (ss_mode st = Filter \<longrightarrow> ss_mode st' = Filter) \<and>
    (\<exists>xs. chain_nodes (ss_filters st') = xs @ chain_nodes (ss_filters st)) \<and>
    (\<forall>d. precedence (fd_action (chain_evaluate execute interp (ss_filters st') d)) \<le>
          precedence (fd_action (chain_evaluate execute interp (ss_filters st) d)))"
  using task_steps_tighten [OF assms] evaluate_suffix by (auto simp: tightens_def)

theorem seccomp_never_relaxed_witness:
  "let st' = \<lparr>ss_mode = Filter, ss_filters = Some ex_node\<rparr> in
   task_step\<^sup>*\<^sup>* (ex_store1, {#ex_node#}, seccomp_disabled)
     (chain_clone ex_store1 (Some ex_node), {#ex_node#}, st') \<and>
   precedence (fd_action (chain_evaluate (\<lambda>_ _. 0) (\<lambda>_ _. 0x50001) (ss_filters st') ex_data)) \<le>
   precedence (fd_action (chain_evaluate (\<lambda>_ _. 0) (\<lambda>_ _. 0x50001) (ss_filters (seccomp_disabled :: unit seccomp_state)) ex_data))"
proof -
  let ?st' = "\<lparr>ss_mode = Filter, ss_filters = Some ex_node\<rparr>"
  have pub: "try_publish_filter (ex_store1, seccomp_disabled) None (Some ex_node) =
      ((chain_clone ex_store1 (Some ex_node), ?st'), Inr ())"
    by (simp add: try_publish_filter_def seccomp_disabled_def directly_extends_def ex_node_def chain_drop_def)
  have "task_step (ex_store1, {#ex_node#}, seccomp_disabled) (chain_clone ex_store1 (Some ex_node), {#ex_node#}, ?st')"
    by (rule task_publish [OF _ _ pub]) simp_all
  then have steps: "task_step\<^sup>*\<^sup>* (ex_store1, {#ex_node#}, seccomp_disabled)
      (chain_clone ex_store1 (Some ex_node), {#ex_node#}, ?st')" by blast
  have "task_ok (ex_store1, {#ex_node#}, seccomp_disabled)"
  proof -
    have "heap_ok ex_store {} ({#} :: unit filter_node multiset)"
      using heap_ok_fresh [of "fs_budgets ex_store"] by (simp add: ex_store_def fresh_store_def)
    then have "heap_ok ex_store1 {ex_node} {#ex_node#}"
      using heap_ok_append [OF _ _ _ ex_append, of "{}" "{#}"] by (simp add: ex_store_def)
    then show ?thesis by (auto simp: task_ok_def mode_ok_def own_def seccomp_disabled_def)
  qed
  from seccomp_never_relaxed [OF steps this] show ?thesis unfolding Let_def using steps by blast
qed

end
