(* ===== verification/Mm_Range.thy ===== *)
theory Mm_Range
  imports Abi_Prelude
begin

text \<open>
  Checked address ranges (\<^verbatim>\<open>crates/mm/src/range.rs\<close>), identities (\<^verbatim>\<open>identity.rs\<close>) and the
  policy errors (\<^verbatim>\<open>error.rs\<close>) of the memory-management crate. Addresses and lengths are \<open>usize\<close>
  values; the alignment masks are written with the bit operations of the source, where the
  complement of a 64-bit value \<open>x\<close> is \<open>usize_max - x\<close>.
\<close>

unbundle bit_operations_syntax

section \<open>Errors and identities\<close>

datatype mm_error =
    ZeroLength | MmOverflow | AddressOutOfRange | InvalidPageSize | Unaligned | InvalidIdentity
  | RangeNotMapped | AccessDenied | InvalidAccess | UnsupportedPin | QuotaExceeded | BudgetMismatch
  | CapacityExceeded | UnboundedLimit | OwnerNotConfigured | OwnerBusy | PinOverlap | MappingPinned
  | StaleGeneration | UnknownToken | InvalidTokenState | MmIdExhausted | MmClosing | MmTearingDown
  | MmClosed | Busy | UnknownFault | FaultRequestMismatch | InvalidUffdFlags | InvalidUffdApi
  | InvalidUffdFeatures | UnsupportedUffdFeatures | UffdNotInitialized | UffdAlreadyInitialized
  | InvalidUffdMode | UnsupportedUffdMode | UnsupportedUffdMapping | UffdRegistrationOverlap
  | InvalidUffdRegistrationBatch | UnknownUffdRegistration | UffdRegistrationMismatch
  | UnsupportedUffdDisposition | InvalidUffdCopyMode | UnsupportedUffdCopyMode
  | InvalidUffdZeroPageMode | InvalidUffdProgress | InvalidRemap | NonContiguousCoverage
  | IncompleteRevalidation | MemlockDenied | InconsistentAccounting

text \<open>\<open>NonZeroU64::new\<close> behind the identity types and the mapping generation.\<close>

definition nonzero_id :: "nat \<Rightarrow> mm_error + nat" where
  "nonzero_id raw = (if raw = 0 then Inl InvalidIdentity else Inr raw)"

definition generation_next :: "nat \<Rightarrow> mm_error + nat" where
  "generation_next g =
     (case checked_add u64_max g 1 of Some raw \<Rightarrow> nonzero_id raw | None \<Rightarrow> Inl MmIdExhausted)"

section \<open>Byte ranges\<close>

record user_range =
  ur_start :: nat
  ur_end :: nat

definition range_new :: "nat \<Rightarrow> nat \<Rightarrow> mm_error + user_range" where
  "range_new start len =
     (if len = 0 then Inl ZeroLength
      else case checked_add usize_max start len of
        Some e \<Rightarrow> Inr \<lparr>ur_start = start, ur_end = e\<rparr>
      | None \<Rightarrow> Inl MmOverflow)"

definition within :: "user_range \<Rightarrow> nat \<Rightarrow> mm_error + user_range" where
  "within r user_end = (if ur_end r > user_end then Inl AddressOutOfRange else Inr r)"

definition new_bounded :: "nat \<Rightarrow> nat \<Rightarrow> nat \<Rightarrow> mm_error + user_range" where
  "new_bounded start len user_end = and_then (range_new start len) (\<lambda>r. within r user_end)"

definition from_bounds :: "nat \<Rightarrow> nat \<Rightarrow> mm_error + user_range" where
  "from_bounds start e =
     (case checked_sub e start of
        Some 0 \<Rightarrow> Inl ZeroLength
      | Some _ \<Rightarrow> Inr \<lparr>ur_start = start, ur_end = e\<rparr>
      | None \<Rightarrow> Inl MmOverflow)"

definition ur_len :: "user_range \<Rightarrow> nat" where
  "ur_len r = ur_end r - ur_start r"

definition range_contains :: "user_range \<Rightarrow> user_range \<Rightarrow> bool" where
  "range_contains r other \<longleftrightarrow> ur_start r \<le> ur_start other \<and> ur_end other \<le> ur_end r"

definition range_overlaps :: "user_range \<Rightarrow> user_range \<Rightarrow> bool" where
  "range_overlaps r other \<longleftrightarrow> ur_start r < ur_end other \<and> ur_start other < ur_end r"

definition contains_address :: "user_range \<Rightarrow> nat \<Rightarrow> bool" where
  "contains_address r address \<longleftrightarrow> ur_start r \<le> address \<and> address < ur_end r"

section \<open>Page sizes\<close>

type_synonym page_size = nat

definition is_power_of_two :: "nat \<Rightarrow> bool" where
  "is_power_of_two n \<longleftrightarrow> list_ex (\<lambda>k. n = 2 ^ k) [0 ..< 64]"

definition page_size_new :: "nat \<Rightarrow> mm_error + page_size" where
  "page_size_new bytes =
     (if bytes = 0 then Inl ZeroLength
      else if \<not> is_power_of_two bytes then Inl InvalidPageSize
      else Inr bytes)"

definition is_aligned :: "page_size \<Rightarrow> nat \<Rightarrow> bool" where
  "is_aligned p v \<longleftrightarrow> v AND (p - 1) = 0"

definition align_down :: "page_size \<Rightarrow> nat \<Rightarrow> nat" where
  "align_down p v = v AND (usize_max - (p - 1))"

definition align_up :: "page_size \<Rightarrow> nat \<Rightarrow> mm_error + nat" where
  "align_up p v =
     (let m = p - 1 in
      case checked_add usize_max v m of
        Some v' \<Rightarrow> Inr (v' AND (usize_max - m))
      | None \<Rightarrow> Inl MmOverflow)"

section \<open>Page ranges\<close>

record page_range =
  pr_range :: user_range
  pr_page_size :: page_size

definition with_page_size :: "nat \<Rightarrow> nat \<Rightarrow> page_size \<Rightarrow> mm_error + page_range" where
  "with_page_size start len p =
     (if \<not> is_aligned p start \<or> \<not> is_aligned p len then Inl Unaligned
      else and_then (range_new start len) (\<lambda>r. Inr \<lparr>pr_range = r, pr_page_size = p\<rparr>))"

definition page_range_new :: "nat \<Rightarrow> nat \<Rightarrow> nat \<Rightarrow> mm_error + page_range" where
  "page_range_new start len bytes = and_then (page_size_new bytes) (with_page_size start len)"

definition covering :: "user_range \<Rightarrow> page_size \<Rightarrow> mm_error + page_range" where
  "covering r p =
     (let start = align_down p (ur_start r) in
      and_then (align_up p (ur_end r)) (\<lambda>e. with_page_size start (e - start) p))"

definition pr_start :: "page_range \<Rightarrow> nat" where
  "pr_start r = ur_start (pr_range r)"

definition pr_end :: "page_range \<Rightarrow> nat" where
  "pr_end r = ur_end (pr_range r)"

definition pr_len :: "page_range \<Rightarrow> nat" where
  "pr_len r = ur_len (pr_range r)"

definition page_count :: "page_range \<Rightarrow> nat" where
  "page_count r = pr_len r div pr_page_size r"

definition pages_contain :: "page_range \<Rightarrow> page_range \<Rightarrow> bool" where
  "pages_contain r other \<longleftrightarrow>
     pr_page_size r = pr_page_size other \<and> range_contains (pr_range r) (pr_range other)"

definition pages_overlap :: "page_range \<Rightarrow> page_range \<Rightarrow> bool" where
  "pages_overlap r other \<longleftrightarrow>
     pr_page_size r = pr_page_size other \<and> range_overlaps (pr_range r) (pr_range other)"

definition subrange :: "page_range \<Rightarrow> nat \<Rightarrow> nat \<Rightarrow> mm_error + page_range" where
  "subrange r offset len =
     (if \<not> is_aligned (pr_page_size r) offset \<or> \<not> is_aligned (pr_page_size r) len then Inl Unaligned
      else case checked_add usize_max (pr_start r) offset of
        None \<Rightarrow> Inl MmOverflow
      | Some start \<Rightarrow>
          and_then (with_page_size start len (pr_page_size r))
            (\<lambda>sub. if \<not> pages_contain r sub then Inl RangeNotMapped else Inr sub))"

end
