(* ===== verification/Mm_Plan.thy ===== *)
theory Mm_Plan
  imports Mm_Range
begin

text \<open>
  Mapping snapshots and their revalidation (\<^verbatim>\<open>crates/mm/src/mapping.rs\<close>) and the arithmetic
  planners for page covering, remapping and memory locking (\<^verbatim>\<open>crates/mm/src/plan.rs\<close>).
\<close>

unbundle bit_operations_syntax

section \<open>Mapping snapshots\<close>

type_synonym mapping_access = u8

definition ACCESS_READ :: u8 where "ACCESS_READ = 1"
definition ACCESS_WRITE :: u8 where "ACCESS_WRITE = 2"
definition ACCESS_EXECUTE :: u8 where "ACCESS_EXECUTE = 4"
definition ACCESS_VALID :: u8 where "ACCESS_VALID = ACCESS_READ OR ACCESS_WRITE OR ACCESS_EXECUTE"

definition access_new :: "bool \<Rightarrow> bool \<Rightarrow> bool \<Rightarrow> mapping_access" where
  "access_new r w x =
     (if r then ACCESS_READ else 0) OR (if w then ACCESS_WRITE else 0) OR (if x then ACCESS_EXECUTE else 0)"

definition access_from_bits :: "u8 \<Rightarrow> mm_error + mapping_access" where
  "access_from_bits bits = (if bits AND NOT ACCESS_VALID \<noteq> 0 then Inl InvalidAccess else Inr bits)"

definition readable :: "mapping_access \<Rightarrow> bool" where "readable a \<longleftrightarrow> a AND ACCESS_READ \<noteq> 0"
definition writable :: "mapping_access \<Rightarrow> bool" where "writable a \<longleftrightarrow> a AND ACCESS_WRITE \<noteq> 0"
definition executable :: "mapping_access \<Rightarrow> bool" where "executable a \<longleftrightarrow> a AND ACCESS_EXECUTE \<noteq> 0"

datatype mapping_kind =
  AnonymousPrivate | AnonymousShared | FilePrivate | FileShared | Device | Special

record mapping_snapshot =
  ms_address_space :: nat
  ms_mapping :: nat
  ms_generation :: nat
  ms_range :: page_range
  ms_access :: mapping_access
  ms_kind :: mapping_kind
  ms_long_term_pinnable :: bool
  ms_writable_file_pin_supported :: bool

definition snapshot_from_raw ::
  "nat \<Rightarrow> nat \<Rightarrow> nat \<Rightarrow> nat \<Rightarrow> nat \<Rightarrow> nat \<Rightarrow> u8 \<Rightarrow> mapping_kind \<Rightarrow> bool \<Rightarrow> bool \<Rightarrow>
   mm_error + mapping_snapshot" where
  "snapshot_from_raw address_space mapping generation start len bytes bits kind long_term wfile =
     and_then (nonzero_id address_space) (\<lambda>a.
     and_then (nonzero_id mapping) (\<lambda>m.
     and_then (nonzero_id generation) (\<lambda>g.
     and_then (page_range_new start len bytes) (\<lambda>r.
     and_then (access_from_bits bits) (\<lambda>acc.
       Inr \<lparr>ms_address_space = a, ms_mapping = m, ms_generation = g, ms_range = r, ms_access = acc,
            ms_kind = kind, ms_long_term_pinnable = long_term,
            ms_writable_file_pin_supported = wfile\<rparr>)))))"

definition with_generation :: "mapping_snapshot \<Rightarrow> nat \<Rightarrow> mapping_snapshot" where
  "with_generation s g = s\<lparr>ms_generation := g\<rparr>"

record expected_mapping =
  em_address_space :: nat
  em_mapping :: nat
  em_generation :: nat
  em_range :: page_range

definition expected :: "mapping_snapshot \<Rightarrow> expected_mapping" where
  "expected s = \<lparr>em_address_space = ms_address_space s, em_mapping = ms_mapping s,
     em_generation = ms_generation s, em_range = ms_range s\<rparr>"

definition revalidate :: "expected_mapping \<Rightarrow> mapping_snapshot \<Rightarrow> mm_error + unit" where
  "revalidate e current =
     (if em_address_space e \<noteq> ms_address_space current \<or> em_mapping e \<noteq> ms_mapping current \<or>
         em_generation e \<noteq> ms_generation current then Inl StaleGeneration
      else if \<not> pages_contain (ms_range current) (em_range e) then Inl RangeNotMapped
      else Inr ())"

definition revalidate_range ::
  "expected_mapping \<Rightarrow> mapping_snapshot \<Rightarrow> page_range \<Rightarrow> mm_error + unit" where
  "revalidate_range e current operation_range =
     and_then (revalidate e current) (\<lambda>_.
       if \<not> pages_contain (em_range e) operation_range \<or> \<not> pages_contain (ms_range current) operation_range
       then Inl RangeNotMapped else Inr ())"

datatype invalidation_reason =
    InvProtect | InvUnmap | InvRemap | InvCowBreak | InvFork | InvTruncate | InvDiscard
  | InvHolePunch | InvFileInvalidation | InvExec | InvTeardown

record invalidation_range =
  iv_expected :: expected_mapping
  iv_range :: page_range
  iv_reason :: invalidation_reason

definition invalidation_new ::
  "mapping_snapshot \<Rightarrow> page_range \<Rightarrow> invalidation_reason \<Rightarrow> mm_error + invalidation_range" where
  "invalidation_new s r reason =
     (if \<not> pages_contain (ms_range s) r then Inl RangeNotMapped
      else Inr \<lparr>iv_expected = expected s, iv_range = r, iv_reason = reason\<rparr>)"

definition invalidation_from_raw ::
  "mapping_snapshot \<Rightarrow> nat \<Rightarrow> nat \<Rightarrow> invalidation_reason \<Rightarrow> mm_error + invalidation_range" where
  "invalidation_from_raw s start len reason =
     and_then (page_range_new start len (pr_page_size (ms_range s))) (\<lambda>r. invalidation_new s r reason)"

definition covering_bytes ::
  "mapping_snapshot \<Rightarrow> user_range \<Rightarrow> invalidation_reason \<Rightarrow> mm_error + invalidation_range" where
  "covering_bytes s r reason =
     and_then (page_size_new (pr_page_size (ms_range s))) (\<lambda>p.
     and_then (covering r p) (\<lambda>pages. invalidation_new s pages reason))"

section \<open>Affine relocation\<close>

record affine_relocation =
  ar_origin :: nat
  ar_backing_advance :: nat

definition relocate_affine_origin :: "nat \<Rightarrow> nat \<Rightarrow> nat \<Rightarrow> mm_error + affine_relocation" where
  "relocate_affine_origin origin old_start new_start =
     (if origin \<ge> old_start then
        let leading_gap = origin - old_start in
        case checked_add usize_max new_start leading_gap of
          Some origin' \<Rightarrow> Inr \<lparr>ar_origin = origin', ar_backing_advance = 0\<rparr>
        | None \<Rightarrow> Inl MmOverflow
      else
        let consumed_prefix = old_start - origin in
        case checked_sub new_start consumed_prefix of
          Some origin' \<Rightarrow> Inr \<lparr>ar_origin = origin', ar_backing_advance = 0\<rparr>
        | None \<Rightarrow> Inr \<lparr>ar_origin = new_start, ar_backing_advance = consumed_prefix\<rparr>)"

section \<open>Page covering\<close>

record page_covering_plan =
  pc_requested :: user_range
  pc_pages :: page_range
  pc_leading_bytes :: nat
  pc_trailing_bytes :: nat

definition covering_plan :: "user_range \<Rightarrow> nat \<Rightarrow> mm_error + page_covering_plan" where
  "covering_plan requested bytes =
     and_then (page_size_new bytes) (\<lambda>p.
     and_then (covering requested p) (\<lambda>pages.
       Inr \<lparr>pc_requested = requested, pc_pages = pages,
            pc_leading_bytes = ur_start requested - pr_start pages,
            pc_trailing_bytes = pr_end pages - ur_end requested\<rparr>))"

section \<open>Remapping\<close>

record remap_geometry =
  rg_old_range :: page_range
  rg_new_range :: page_range
  rg_moved_source :: page_range

definition remap_new :: "page_range \<Rightarrow> nat \<Rightarrow> nat \<Rightarrow> mm_error + remap_geometry" where
  "remap_new old_range new_start new_length =
     (let p = pr_page_size old_range in
      and_then (with_page_size new_start new_length p) (\<lambda>new_range.
      and_then (with_page_size (pr_start old_range) (min (pr_len old_range) (pr_len new_range)) p)
        (\<lambda>moved_source. Inr \<lparr>rg_old_range = old_range, rg_new_range = new_range,
                              rg_moved_source = moved_source\<rparr>)))"

definition grows :: "remap_geometry \<Rightarrow> bool" where
  "grows g \<longleftrightarrow> pr_len (rg_new_range g) > pr_len (rg_old_range g)"

definition shrinks :: "remap_geometry \<Rightarrow> bool" where
  "shrinks g \<longleftrightarrow> pr_len (rg_new_range g) < pr_len (rg_old_range g)"

definition growth_tail :: "remap_geometry \<Rightarrow> mm_error + page_range option" where
  "growth_tail g =
     (if \<not> grows g then Inr None
      else
        and_then (ok_or MmOverflow (checked_add usize_max (pr_start (rg_new_range g)) (pr_len (rg_old_range g))))
          (\<lambda>start.
        and_then (with_page_size start (pr_len (rg_new_range g) - pr_len (rg_old_range g))
                    (pr_page_size (rg_new_range g)))
          (\<lambda>tail. Inr (Some tail))))"

record remap_segment_geometry =
  sg_source :: page_range
  sg_destination :: page_range
  sg_backend_old_start :: nat
  sg_backend_new_start :: nat

definition remap_segment :: "remap_geometry \<Rightarrow> page_range \<Rightarrow> mm_error + remap_segment_geometry" where
  "remap_segment g source_segment =
     (if \<not> pages_contain (rg_moved_source g) source_segment then Inl InvalidRemap
      else
        and_then (ok_or InvalidRemap (checked_sub (pr_start source_segment) (pr_start (rg_old_range g))))
          (\<lambda>offset.
        and_then (ok_or MmOverflow (checked_add usize_max (pr_start (rg_new_range g)) offset))
          (\<lambda>destination_start.
        and_then (with_page_size destination_start (pr_len source_segment) (pr_page_size (rg_new_range g)))
          (\<lambda>destination.
             if \<not> pages_contain (rg_new_range g) destination then Inl InvalidRemap
             else Inr \<lparr>sg_source = source_segment, sg_destination = destination,
                       sg_backend_old_start = pr_start (rg_old_range g),
                       sg_backend_new_start = pr_start (rg_new_range g)\<rparr>))))"

section \<open>Memory locking\<close>

datatype memlock_limit = MlUnlimited | MlLimited nat | MlDisabled

record memlock_plan =
  ml_requested_bytes :: nat
  ml_already_locked_bytes :: nat
  ml_additional_bytes :: nat
  ml_total_locked_bytes :: nat

definition memlock_new :: "nat \<Rightarrow> nat \<Rightarrow> nat \<Rightarrow> memlock_limit \<Rightarrow> mm_error + memlock_plan" where
  "memlock_new current_locked already_locked requested limit =
     (if requested = 0 then Inl ZeroLength
      else if already_locked > requested then Inl InconsistentAccounting
      else if limit = MlDisabled then Inl MemlockDenied
      else
        let additional = requested - already_locked in
        and_then (ok_or MmOverflow (checked_add u64_max current_locked additional)) (\<lambda>total.
          if (case limit of MlLimited l \<Rightarrow> total > l | _ \<Rightarrow> False) then Inl QuotaExceeded
          else Inr \<lparr>ml_requested_bytes = requested, ml_already_locked_bytes = already_locked,
                    ml_additional_bytes = additional, ml_total_locked_bytes = total\<rparr>))"

definition memlock_for_range :: "nat \<Rightarrow> nat \<Rightarrow> page_range \<Rightarrow> memlock_limit \<Rightarrow> mm_error + memlock_plan" where
  "memlock_for_range current_locked already_locked r limit =
     memlock_new current_locked already_locked (pr_len r) limit"

end
