(* ===== verification/Mm_Range_Props.thy ===== *)
theory Mm_Range_Props
  imports Mm_Plan
begin

text \<open>
  Well-formed ranges and what the planners compute: page covering is the least covering range,
  remapping tiles the destination, relocation preserves backing cursors.
\<close>

unbundle bit_operations_syntax

section \<open>Alignment\<close>

lemma is_power_of_two_iff: "is_power_of_two n \<longleftrightarrow> (\<exists>k < 64. n = 2 ^ k)"
  by (auto simp: is_power_of_two_def list_ex_iff)

lemma is_aligned_iff: "is_power_of_two p \<Longrightarrow> is_aligned p v \<longleftrightarrow> p dvd v"
proof -
  assume "is_power_of_two p"
  then obtain k where k: "p = 2 ^ k" by (auto simp: is_power_of_two_iff)
  have "v AND (p - 1) = v mod p"
    by (metis k mask_eq_exp_minus_1 take_bit_eq_mask take_bit_eq_mod)
  then show ?thesis by (simp add: is_aligned_def mod_eq_0_iff_dvd)
qed

lemma clear_low_bits:
  assumes "is_power_of_two p" and "v \<le> usize_max"
  shows "v AND (usize_max - (p - 1)) = v div p * p"
proof -
  obtain k where k: "k < 64" "p = 2 ^ k" using assms(1) by (auto simp: is_power_of_two_iff)
  then show ?thesis using clear_low_bits_width [of k 64 v] assms(2) by (simp add: usize_max_def)
qed

lemma power_of_two_pos: "is_power_of_two p \<Longrightarrow> 0 < p"
  by (auto simp: is_power_of_two_iff)

lemma page_dvd_space: "is_power_of_two p \<Longrightarrow> p dvd usize_max + 1"
proof -
  assume "is_power_of_two p"
  then obtain k where "k < 64" "p = 2 ^ k" by (auto simp: is_power_of_two_iff)
  moreover from this have "(2 :: nat) ^ k dvd 2 ^ 64" by (intro le_imp_power_dvd) simp
  ultimately show ?thesis by (simp add: usize_max_def)
qed

lemma align_down_div: "is_power_of_two p \<Longrightarrow> v \<le> usize_max \<Longrightarrow> align_down p v = v div p * p"
  unfolding align_down_def by (rule clear_low_bits)

lemma align_up_div:
  "is_power_of_two p \<Longrightarrow> align_up p v =
     (if v + (p - 1) \<le> usize_max then Inr ((v + (p - 1)) div p * p) else Inl MmOverflow)"
  using clear_low_bits [of p "v + (p - 1)"] by (simp add: align_up_def checked_add_def Let_def)

text \<open>Rounding up is the least multiple at or above, and fails when there is none in range.\<close>

lemma round_up_least:
  fixes p :: nat
  assumes "0 < p" and "p dvd m" and "v \<le> m"
  shows "v \<le> (v + (p - 1)) div p * p" and "(v + (p - 1)) div p * p \<le> m"
proof -
  have "v + (p - 1) = (v + (p - 1)) div p * p + (v + (p - 1)) mod p" by simp
  moreover have "(v + (p - 1)) mod p < p" using assms(1) by simp
  ultimately show "v \<le> (v + (p - 1)) div p * p" by linarith
  obtain q where q: "m = p * q" using assms(2) by blast
  have "v + (p - 1) < p * (q + 1)" using assms(1,3) by (simp add: q)
  then have "(v + (p - 1)) div p \<le> q" 
    using div_less_iff_less_mult [OF assms(1), of "v + (p - 1)" "q + 1"] by (simp add: mult.commute)
  then show "(v + (p - 1)) div p * p \<le> m" using mult_le_mono1 by (simp only: q mult.commute [of p])
qed

lemma round_down_greatest:
  fixes p :: nat
  assumes "p dvd m" and "m \<le> v"
  shows "m \<le> v div p * p"
  using assms by (metis div_le_mono dvd_div_mult_self mult_le_mono1)

section \<open>Well-formed ranges\<close>

definition range_ok :: "user_range \<Rightarrow> bool" where
  "range_ok r \<longleftrightarrow> ur_start r < ur_end r \<and> ur_end r \<le> usize_max"

definition pages_ok :: "page_range \<Rightarrow> bool" where
  "pages_ok r \<longleftrightarrow> range_ok (pr_range r) \<and> is_power_of_two (pr_page_size r) \<and>
     pr_page_size r dvd pr_start r \<and> pr_page_size r dvd pr_end r"

definition pages_at :: "nat \<Rightarrow> nat \<Rightarrow> page_size \<Rightarrow> page_range" where
  "pages_at start len p = \<lparr>pr_range = \<lparr>ur_start = start, ur_end = start + len\<rparr>, pr_page_size = p\<rparr>"

lemma range_new_Inr: "range_new start len = Inr r \<longleftrightarrow>
    0 < len \<and> start + len \<le> usize_max \<and> r = \<lparr>ur_start = start, ur_end = start + len\<rparr>"
  by (auto simp: range_new_def checked_iffs split: option.splits)

lemma with_page_size_Inr:
  "is_power_of_two p \<Longrightarrow> with_page_size start len p = Inr r \<longleftrightarrow>
     p dvd start \<and> p dvd len \<and> 0 < len \<and> start + len \<le> usize_max \<and> r = pages_at start len p"
  by (auto simp: with_page_size_def is_aligned_iff range_new_Inr pages_at_def)

lemma pages_at_simps [simp]:
  "pr_start (pages_at s l p) = s" "pr_end (pages_at s l p) = s + l" "pr_len (pages_at s l p) = l"
  "pr_page_size (pages_at s l p) = p"
  by (simp_all add: pages_at_def pr_start_def pr_end_def pr_len_def ur_len_def)

lemma pages_at_ok:
  "is_power_of_two p \<Longrightarrow> p dvd s \<Longrightarrow> p dvd l \<Longrightarrow> 0 < l \<Longrightarrow> s + l \<le> usize_max \<Longrightarrow> pages_ok (pages_at s l p)"
  by (simp add: pages_ok_def range_ok_def) (simp add: pages_at_def)

lemma pages_okD:
  assumes "pages_ok r"
  shows "pr_start r < pr_end r" and "pr_end r \<le> usize_max" and "is_power_of_two (pr_page_size r)"
    and "pr_page_size r dvd pr_start r" and "pr_page_size r dvd pr_end r" and "pr_page_size r dvd pr_len r"
    and "pr_start r + pr_len r = pr_end r" and "0 < pr_len r"
  using assms by (auto simp: pages_ok_def range_ok_def pr_start_def pr_end_def pr_len_def ur_len_def)

lemma pages_ok_at: "pages_ok r \<Longrightarrow> r = pages_at (pr_start r) (pr_len r) (pr_page_size r)"
  by (simp add: pages_ok_def range_ok_def pages_at_def pr_start_def pr_len_def ur_len_def)

lemma with_page_size_ok: "is_power_of_two p \<Longrightarrow> with_page_size s l p = Inr r \<Longrightarrow> pages_ok r \<and> pr_page_size r = p"
  using with_page_size_Inr [of p s l r] pages_at_ok [of p s l] by auto

lemma page_size_new_Inr: "page_size_new b = Inr p \<longleftrightarrow> p = b \<and> is_power_of_two b"
  by (auto simp: page_size_new_def dest: power_of_two_pos)

lemma pages_contain_iff:
  "pages_contain r q \<longleftrightarrow> pr_page_size r = pr_page_size q \<and> pr_start r \<le> pr_start q \<and> pr_end q \<le> pr_end r"
  by (simp add: pages_contain_def range_contains_def pr_start_def pr_end_def)

lemma pages_overlap_iff:
  "pages_overlap r q \<longleftrightarrow> pr_page_size r = pr_page_size q \<and> pr_start r < pr_end q \<and> pr_start q < pr_end r"
  by (simp add: pages_overlap_def range_overlaps_def pr_start_def pr_end_def)

section \<open>Covering\<close>

lemma covering_Inr:
  assumes r: "range_ok r" and p: "is_power_of_two p" and fits: "ur_end r + (p - 1) \<le> usize_max"
  defines "s \<equiv> ur_start r div p * p" and "e \<equiv> (ur_end r + (p - 1)) div p * p"
  shows "covering r p = Inr (pages_at s (e - s) p) \<and> s \<le> ur_start r \<and> ur_end r \<le> e \<and> e \<le> usize_max"
proof -
  have pos: "0 < p" using p by (rule power_of_two_pos)
  have se: "s \<le> ur_start r" by (simp add: s_def)
  have e: "ur_end r \<le> e"
    using round_up_least(1) [OF pos, of "ur_end r * p" "ur_end r"] pos by (simp add: e_def)
  have le: "e \<le> usize_max" using fits unfolding e_def by (meson div_times_less_eq_dividend order_trans)
  have "s < e" using se e r by (simp add: range_ok_def)
  moreover have "p dvd s" "p dvd e" by (simp_all add: s_def e_def)
  ultimately have "with_page_size s (e - s) p = Inr (pages_at s (e - s) p)"
    using le by (simp add: with_page_size_Inr [OF p])
  then have "covering r p = Inr (pages_at s (e - s) p)"
    using r fits by (simp add: covering_def align_down_div [OF p] align_up_div [OF p] range_ok_def s_def e_def Let_def)
  with se e le show ?thesis by simp
qed

lemma covering_ok:
  assumes "range_ok r" and "is_power_of_two p" and "covering r p = Inr pages"
  shows "pages_ok pages \<and> pr_page_size pages = p \<and> range_contains (pr_range pages) r"
proof -
  have fits: "ur_end r + (p - 1) \<le> usize_max"
    using assms by (auto simp: covering_def align_up_div Let_def split: if_splits)
  note c = covering_Inr [OF assms(1,2) fits]
  then have "with_page_size (ur_start r div p * p)
      ((ur_end r + (p - 1)) div p * p - ur_start r div p * p) p = Inr pages"
    using assms by (simp add: covering_def align_down_div align_up_div range_ok_def Let_def split: if_splits)
  then have "pages_ok pages \<and> pr_page_size pages = p" by (rule with_page_size_ok [OF assms(2)])
  moreover have "range_contains (pr_range pages) r"
    using c assms(3) assms(1) by (auto simp: range_contains_def pages_at_def range_ok_def)
  ultimately show ?thesis by blast
qed

text \<open>
  C27. Page covering is exact. For every well-formed byte range and page size the covering range
  is page aligned, contains the request, and is contained in every page-aligned range that
  does. It is refused only with an overflow, and then no page-aligned range of the address
  space contains the request at all.
\<close>

theorem covering_least:
  assumes "range_ok r" and "is_power_of_two p"
  shows "case covering r p of
      Inr pages \<Rightarrow> pages_ok pages \<and> pr_page_size pages = p \<and> range_contains (pr_range pages) r \<and>
        (\<forall>q. pages_ok q \<and> pr_page_size q = p \<and> range_contains (pr_range q) r \<longrightarrow> pages_contain q pages)
    | Inl e \<Rightarrow> e = MmOverflow \<and>
        \<not> (\<exists>q. pages_ok q \<and> pr_page_size q = p \<and> range_contains (pr_range q) r)"
proof -
  have pos: "0 < p" using assms(2) by (rule power_of_two_pos)
  have outer: "ur_start r div p * p \<ge> pr_start q \<and> (ur_end r + (p - 1)) div p * p \<le> pr_end q \<and>
      ur_end r + (p - 1) \<le> usize_max"
    if q: "pages_ok q" "pr_page_size q = p" "range_contains (pr_range q) r" for q
  proof -
    have in_q: "pr_start q \<le> ur_start r" "ur_end r \<le> pr_end q"
      using q(3) by (simp_all add: range_contains_def pr_start_def pr_end_def)
    have dvd: "p dvd pr_start q" "p dvd pr_end q" "pr_end q \<le> usize_max" using pages_okD [OF q(1)] q(2) by auto
    have "p dvd usize_max + 1 - pr_end q" using page_dvd_space [OF assms(2)] dvd(2) by (rule dvd_diff_nat)
    then have "p \<le> usize_max + 1 - pr_end q" using dvd(3) by (intro dvd_imp_le) simp_all
    then show ?thesis
      using round_down_greatest [OF dvd(1) in_q(1)] round_up_least(2) [OF pos dvd(2) in_q(2)] in_q(2)
        pos dvd(3) by linarith
  qed
  show ?thesis
  proof (cases "ur_end r + (p - 1) \<le> usize_max")
    case True
    note c = covering_Inr [OF assms True]
    let ?pages = "pages_at (ur_start r div p * p) ((ur_end r + (p - 1)) div p * p - ur_start r div p * p) p"
    have "ur_start r div p * p \<le> (ur_end r + (p - 1)) div p * p"
      using c assms(1) unfolding range_ok_def by linarith
    then have "pages_contain q ?pages" if "pages_ok q" "pr_page_size q = p" "range_contains (pr_range q) r" for q
      using outer [OF that] that(2) by (simp add: pages_contain_iff)
    then show ?thesis using covering_ok [OF assms conjunct1 [OF c]] c by simp
  next
    case False
    then have "covering r p = Inl MmOverflow"
      using assms by (simp add: covering_def align_up_div Let_def)
    then show ?thesis using outer False by auto
  qed
qed

theorem covering_least_witness:
  "covering \<lparr>ur_start = 0x1801, ur_end = 0x2801\<rparr> 4096 = Inr (pages_at 0x1000 0x2000 4096) \<and>
   pages_ok (pages_at 0x1000 0x2000 4096)"
proof -
  have r: "range_ok \<lparr>ur_start = 0x1801, ur_end = 0x2801\<rparr>" by (simp add: range_ok_def usize_max_def)
  have "4096 = (2 :: nat) ^ 12" by simp
  then have p: "is_power_of_two 4096" unfolding is_power_of_two_iff by (intro exI [of _ 12]) simp
  have "covering \<lparr>ur_start = 0x1801, ur_end = 0x2801\<rparr> 4096 = Inr (pages_at 0x1000 0x2000 4096)"
    using covering_Inr [OF r p] by (simp add: usize_max_def)
  with covering_least [OF r p] show ?thesis by simp
qed

section \<open>Every constructor yields well-formed values\<close>

lemma subrange_ok:
  assumes "pages_ok r" and "subrange r offset len = Inr sub"
  shows "pages_ok sub \<and> pages_contain r sub \<and> pr_start sub = pr_start r + offset \<and> pr_len sub = len"
proof -
  have p: "is_power_of_two (pr_page_size r)" using pages_okD [OF assms(1)] by blast
  from assms(2) have sub: "with_page_size (pr_start r + offset) len (pr_page_size r) = Inr sub" "pages_contain r sub"
    by (auto simp: subrange_def checked_iffs split: if_splits option.splits)
  with with_page_size_Inr [OF p] with_page_size_ok [OF p] show ?thesis by auto
qed

text \<open>
  C28. No sequence of constructors builds a malformed page range. Whatever raw 64-bit values they
  are given, a range that is returned is nonempty, does not wrap, has a power-of-two page size
  and is aligned to it at both ends, so its page count is exact and positive. Subranges stay
  inside their parent, and snapshots carry such ranges together with nonzero identities and
  known access bits only.
\<close>

theorem page_ranges_well_typed:
  shows "(range_new start len = Inr u \<longrightarrow> range_ok u) \<and>
    (e \<le> usize_max \<longrightarrow> from_bounds start e = Inr u' \<longrightarrow> range_ok u') \<and>
    (page_range_new start len bytes = Inr r \<longrightarrow>
       pages_ok r \<and> 0 < page_count r \<and> page_count r * pr_page_size r = pr_len r) \<and>
    (pages_ok q \<longrightarrow> subrange q offset len = Inr sub \<longrightarrow> pages_ok sub \<and> pages_contain q sub) \<and>
    (range_ok b \<longrightarrow> covering_plan b bytes = Inr plan \<longrightarrow>
       pages_ok (pc_pages plan) \<and>
       pc_leading_bytes plan + ur_len b + pc_trailing_bytes plan = pr_len (pc_pages plan)) \<and>
    (snapshot_from_raw a m g start len bytes bits kind lt wfile = Inr sn \<longrightarrow>
       pages_ok (ms_range sn) \<and> ms_address_space sn \<noteq> 0 \<and> ms_mapping sn \<noteq> 0 \<and> ms_generation sn \<noteq> 0 \<and>
       ms_access sn AND NOT ACCESS_VALID = 0)"
proof (intro conjI impI)
  show "range_new start len = Inr u \<Longrightarrow> range_ok u" by (auto simp: range_new_Inr range_ok_def)
  show "e \<le> usize_max \<Longrightarrow> from_bounds start e = Inr u' \<Longrightarrow> range_ok u'"
    by (auto simp: from_bounds_def range_ok_def checked_iffs split: option.splits nat.splits)
  have new: "pages_ok r" if "page_range_new start len bytes = Inr r" for r
    using that with_page_size_ok by (auto simp: page_range_new_def page_size_new_Inr)
  then show "pages_ok r" if "page_range_new start len bytes = Inr r" using that .
  show count: "page_count r * pr_page_size r = pr_len r" if "page_range_new start len bytes = Inr r"
    using pages_okD(6) [OF new [OF that]] by (simp add: page_count_def)
  show "0 < page_count r" if "page_range_new start len bytes = Inr r"
    using pages_okD(8) [OF new [OF that]] count [OF that] by (metis mult_is_0 neq0_conv)
  show "pages_ok sub" "pages_contain q sub" if "pages_ok q" "subrange q offset len = Inr sub"
    using subrange_ok [OF that] by simp_all
  show "pages_ok (pc_pages plan)" if "range_ok b" "covering_plan b bytes = Inr plan"
    using that covering_ok by (auto simp: covering_plan_def page_size_new_Inr)
  show "pc_leading_bytes plan + ur_len b + pc_trailing_bytes plan = pr_len (pc_pages plan)"
    if "range_ok b" "covering_plan b bytes = Inr plan"
  proof -
    from that obtain pages where "pages_ok pages" "range_contains (pr_range pages) b"
      and plan: "pc_pages plan = pages" "pc_leading_bytes plan = ur_start b - pr_start pages"
        "pc_trailing_bytes plan = pr_end pages - ur_end b"
      using covering_ok by (auto simp: covering_plan_def page_size_new_Inr)
    then have "pr_start pages \<le> ur_start b" "ur_end b \<le> pr_end pages" "pr_start pages + pr_len pages = pr_end pages"
      using pages_okD(7) by (auto simp: range_contains_def pr_start_def pr_end_def)
    then show ?thesis using that(1) by (simp add: plan ur_len_def range_ok_def)
  qed
  assume sn: "snapshot_from_raw a m g start len bytes bits kind lt wfile = Inr sn"
  show "pages_ok (ms_range sn)" "ms_address_space sn \<noteq> 0" "ms_mapping sn \<noteq> 0" "ms_generation sn \<noteq> 0"
    "ms_access sn AND NOT ACCESS_VALID = 0"
    using sn new by (auto simp: snapshot_from_raw_def nonzero_id_def access_from_bits_def split: if_splits)
qed

theorem page_ranges_well_typed_witness:
  "page_range_new 0x1000 0x3000 4096 = Inr (pages_at 0x1000 0x3000 4096) \<and>
   pages_ok (pages_at 0x1000 0x3000 4096) \<and> page_count (pages_at 0x1000 0x3000 4096) * 4096 = 0x3000"
proof -
  have "4096 = (2 :: nat) ^ 12" by simp
  then have p: "is_power_of_two 4096" unfolding is_power_of_two_iff by (intro exI [of _ 12]) simp
  have new: "page_range_new 0x1000 0x3000 4096 = Inr (pages_at 0x1000 0x3000 4096)"
    by (simp add: page_range_new_def page_size_new_Inr [THEN iffD2, OF conjI [OF refl p]]
        with_page_size_Inr [THEN iffD2, OF p] usize_max_def dvd_def)
  with page_ranges_well_typed [where start = "0x1000" and len = "0x3000" and bytes = 4096 and
      r = "pages_at 0x1000 0x3000 4096"] show ?thesis
    by simp
qed

section \<open>Relocation\<close>

text \<open>
  The backing cursor of the byte at distance \<open>d\<close> from the start of the moved range is the same
  before and after the relocation, counting the advance.
\<close>

lemma relocate_preserves_cursor:
  assumes "relocate_affine_origin origin old_start new_start = Inr a"
  shows "int (new_start + d) - int (ar_origin a) + int (ar_backing_advance a) =
    int (old_start + d) - int origin"
  using assms by (auto simp: relocate_affine_origin_def Let_def checked_iffs checked_sub_def split: if_splits option.splits)

lemma relocate_fails_iff:
  "relocate_affine_origin origin old_start new_start = Inl e \<longleftrightarrow>
     e = MmOverflow \<and> old_start \<le> origin \<and> usize_max < new_start + (origin - old_start)"
  by (auto simp: relocate_affine_origin_def Let_def checked_iffs split: option.splits)

section \<open>Remapping\<close>

definition addresses :: "page_range \<Rightarrow> nat set" where
  "addresses r = {pr_start r ..< pr_end r}"

definition translate :: "remap_geometry \<Rightarrow> nat \<Rightarrow> nat" where
  "translate g a = a - pr_start (rg_old_range g) + pr_start (rg_new_range g)"

lemma remap_new_Inr:
  assumes "pages_ok old" and "remap_new old start len = Inr g"
  shows "rg_old_range g = old \<and> rg_new_range g = pages_at start len (pr_page_size old) \<and>
    pages_ok (rg_new_range g) \<and>
    rg_moved_source g = pages_at (pr_start old) (min (pr_len old) len) (pr_page_size old)"
proof -
  have p: "is_power_of_two (pr_page_size old)" using pages_okD [OF assms(1)] by blast
  let ?new = "pages_at start len (pr_page_size old)"
  let ?moved = "pages_at (pr_start old) (min (pr_len old) len) (pr_page_size old)"
  have "g = \<lparr>rg_old_range = old, rg_new_range = ?new, rg_moved_source = ?moved\<rparr>"
    and "with_page_size start len (pr_page_size old) = Inr ?new"
    using assms(2) by (simp_all add: remap_new_def Let_def with_page_size_Inr [OF p])
  with with_page_size_ok [OF p] show ?thesis by auto
qed

lemma remap_segment_image:
  assumes old: "pages_ok old" and g: "remap_new old start len = Inr g" and seg: "pages_ok seg"
    and inside: "pages_contain (rg_moved_source g) seg"
  shows "\<exists>sg. remap_segment g seg = Inr sg \<and> pages_ok (sg_destination sg) \<and>
    addresses (sg_destination sg) = translate g ` addresses seg \<and>
    sg_backend_old_start sg = pr_start old \<and> sg_backend_new_start sg = start"
proof -
  note facts = remap_new_Inr [OF old g]
  let ?p = "pr_page_size old"
  have p: "is_power_of_two ?p" using pages_okD [OF old] by blast
  have in_old: "pr_start old \<le> pr_start seg" "pr_end seg \<le> pr_start old + min (pr_len old) len" "pr_page_size seg = ?p"
    using inside facts by (simp_all add: pages_contain_iff)
  then obtain off where off: "pr_start seg = pr_start old + off" using le_Suc_ex by blast
  have sums: "pr_start old + off + pr_len seg = pr_end seg" "0 < pr_len seg" "?p dvd pr_len seg" "?p dvd pr_start seg"
    using pages_okD [OF seg] in_old(3) off by auto
  have new: "start + len \<le> usize_max" "?p dvd start" using pages_okD [of "rg_new_range g"] facts by auto
  have fit: "off + pr_len seg \<le> len" using in_old sums(1) by linarith
  let ?dest = "pages_at (start + off) (pr_len seg) ?p"
  have "?p dvd off" using sums(4) pages_okD(4) [OF old] off by (simp add: dvd_add_right_iff)
  then have dest: "with_page_size (start + off) (pr_len seg) ?p = Inr ?dest"
    using sums new fit by (simp add: with_page_size_Inr [OF p])
  have "start + off \<le> usize_max" using fit new(1) by linarith
  then have "remap_segment g seg = Inr \<lparr>sg_source = seg, sg_destination = ?dest,
      sg_backend_old_start = pr_start old, sg_backend_new_start = start\<rparr>"
    using inside facts fit dest
    by (simp add: remap_segment_def checked_sub_def checked_add_def pages_contain_iff off)
  moreover have "addresses ?dest = translate g ` addresses seg"
  proof -
    have "translate g = (\<lambda>a. a - pr_start old + start)" using facts by (simp add: translate_def fun_eq_iff)
    moreover have "a \<in> (\<lambda>a. a - pr_start old + start) ` addresses seg"
      if "start + off \<le> a" "a < start + off + pr_len seg" for a
      using that by (intro image_eqI [where x = "a - start + pr_start old"])
        (auto simp: addresses_def off sums(1) [symmetric])
    ultimately show ?thesis by (auto simp: addresses_def off sums(1) [symmetric])
  qed
  ultimately show ?thesis using with_page_size_ok [OF p dest] by auto
qed

lemma growth_tail_Inr:
  assumes old: "pages_ok old" and g: "remap_new old start len = Inr g"
  shows "growth_tail g = Inr (if pr_len old < len
    then Some (pages_at (start + pr_len old) (len - pr_len old) (pr_page_size old)) else None)"
proof -
  note facts = remap_new_Inr [OF old g]
  have p: "is_power_of_two (pr_page_size old)" using pages_okD [OF old] by blast
  have new: "start + len \<le> usize_max" "pr_page_size old dvd start" "pr_page_size old dvd len"
    using pages_okD [of "rg_new_range g"] facts by auto
  show ?thesis
  proof (cases "pr_len old < len")
    case True
    have "pr_page_size old dvd len - pr_len old" using new(3) pages_okD(6) [OF old] by (rule dvd_diff_nat)
    then show ?thesis
      using True facts new pages_okD(6) [OF old]
      by (auto simp: growth_tail_def grows_def checked_add_def with_page_size_Inr [OF p])
  qed (use facts in \<open>simp add: growth_tail_def grows_def\<close>)
qed

text \<open>
  C29. A remap plan tiles its destination. Every page segment inside the moved source is planned
  successfully, to exactly the translated addresses with the whole remap's anchors, every other
  segment is refused as invalid, and the translated source followed by the growth tail is the
  new range without gap or overlap: no address of the new range is planned twice or left out.
\<close>

theorem remap_plan_tiles:
  assumes old: "pages_ok old" and g: "remap_new old start len = Inr g"
  shows "(\<forall>seg. pages_ok seg \<longrightarrow> (case remap_segment g seg of
        Inr sg \<Rightarrow> pages_contain (rg_moved_source g) seg \<and> pages_ok (sg_destination sg) \<and>
          addresses (sg_destination sg) = translate g ` addresses seg \<and>
          sg_backend_old_start sg = pr_start old \<and> sg_backend_new_start sg = start
      | Inl e \<Rightarrow> e = InvalidRemap \<and> \<not> pages_contain (rg_moved_source g) seg)) \<and>
    (\<exists>tail. growth_tail g = Inr tail \<and> (tail = None \<longleftrightarrow> \<not> grows g) \<and>
      translate g ` addresses (rg_moved_source g) \<union> (case tail of None \<Rightarrow> {} | Some t \<Rightarrow> addresses t) =
        addresses (rg_new_range g) \<and>
      translate g ` addresses (rg_moved_source g) \<inter> (case tail of None \<Rightarrow> {} | Some t \<Rightarrow> addresses t) = {})"
proof (intro conjI allI impI)
  fix seg assume seg: "pages_ok seg"
  show "case remap_segment g seg of
        Inr sg \<Rightarrow> pages_contain (rg_moved_source g) seg \<and> pages_ok (sg_destination sg) \<and>
          addresses (sg_destination sg) = translate g ` addresses seg \<and>
          sg_backend_old_start sg = pr_start old \<and> sg_backend_new_start sg = start
      | Inl e \<Rightarrow> e = InvalidRemap \<and> \<not> pages_contain (rg_moved_source g) seg"
  proof (cases "pages_contain (rg_moved_source g) seg")
    case True
    then show ?thesis using remap_segment_image [OF old g seg True] by auto
  qed (simp add: remap_segment_def)
next
  note facts = remap_new_Inr [OF old g]
  have tr: "translate g ` addresses (rg_moved_source g) = {start ..< start + min (pr_len old) len}"
  proof -
    have "translate g = (\<lambda>a. a - pr_start old + start)" using facts by (simp add: translate_def fun_eq_iff)
    moreover have "a \<in> (\<lambda>a. a - pr_start old + start) ` addresses (rg_moved_source g)"
      if "start \<le> a" "a < start + min (pr_len old) len" for a
      using that facts by (intro image_eqI [where x = "a - start + pr_start old"]) (auto simp: addresses_def)
    ultimately show ?thesis using facts by (auto simp: addresses_def)
  qed
  show "\<exists>tail. growth_tail g = Inr tail \<and> (tail = None \<longleftrightarrow> \<not> grows g) \<and>
      translate g ` addresses (rg_moved_source g) \<union> (case tail of None \<Rightarrow> {} | Some t \<Rightarrow> addresses t) =
        addresses (rg_new_range g) \<and>
      translate g ` addresses (rg_moved_source g) \<inter> (case tail of None \<Rightarrow> {} | Some t \<Rightarrow> addresses t) = {}"
    unfolding tr growth_tail_Inr [OF old g] using facts by (auto simp: addresses_def grows_def)
qed

theorem remap_plan_tiles_witness:
  "\<exists>g. remap_new (pages_at 0x1000 0x2000 4096) 0x8000 0x3000 = Inr g \<and>
     growth_tail g = Inr (Some (pages_at 0xa000 0x1000 4096)) \<and>
     translate g ` addresses (rg_moved_source g) \<union> addresses (pages_at 0xa000 0x1000 4096) = {0x8000 ..< 0xb000}"
proof -
  let ?old = "pages_at 0x1000 0x2000 4096"
  have "4096 = (2 :: nat) ^ 12" by simp
  then have p: "is_power_of_two 4096" unfolding is_power_of_two_iff by (intro exI [of _ 12]) simp
  have old: "pages_ok ?old" by (rule pages_at_ok [OF p]) (simp_all add: usize_max_def dvd_def)
  have "with_page_size 0x8000 0x3000 4096 = Inr (pages_at 0x8000 0x3000 4096)"
    "with_page_size 0x1000 0x2000 4096 = Inr (pages_at 0x1000 0x2000 4096)"
    by (simp_all add: with_page_size_Inr [OF p] usize_max_def dvd_def)
  then have "\<exists>g. remap_new ?old 0x8000 0x3000 = Inr g" by (simp add: remap_new_def Let_def)
  then obtain g where g: "remap_new ?old 0x8000 0x3000 = Inr g" by blast
  have tail: "growth_tail g = Inr (Some (pages_at 0xa000 0x1000 4096))" using growth_tail_Inr [OF old g] by simp
  have "addresses (rg_new_range g) = {0x8000 ..< 0xb000}" using remap_new_Inr [OF old g] by (simp add: addresses_def)
  with remap_plan_tiles [OF old g] tail g show ?thesis by auto
qed

end
