(* ===== verification/Pin_Registry.thy ===== *)
theory Pin_Registry
  imports Mm_Plan
begin

text \<open>
  Pin budgets and the pin registry (\<^verbatim>\<open>crates/mm/src/pin.rs\<close>). Both are fixed-capacity tables of
  records with aggregate accounting; tokens are drawn from a non-wrapping sequence. The shared
  compare-and-exchange loop for budget identities is the one of \<open>Bounded_Account\<close>; here the
  process-wide identity counter is an argument.
\<close>

section \<open>Requests and accounting\<close>

datatype pin_access = PinRead | PinWrite

datatype pin_duration = Synchronous | AsyncIo | LongTerm

datatype pin_use = UserCopy | BlockIo | NetworkIo | Dma | OtherUse

record pin_request =
  rq_range :: user_range
  rq_access :: pin_access
  rq_duration :: pin_duration
  rq_use_kind :: pin_use
  rq_owner :: nat

definition request_from_raw ::
  "nat \<Rightarrow> nat \<Rightarrow> pin_access \<Rightarrow> pin_duration \<Rightarrow> pin_use \<Rightarrow> nat \<Rightarrow> mm_error + pin_request" where
  "request_from_raw start len access duration use_kind owner =
     and_then (range_new start len) (\<lambda>r.
     and_then (nonzero_id owner) (\<lambda>o'.
       Inr \<lparr>rq_range = r, rq_access = access, rq_duration = duration, rq_use_kind = use_kind,
            rq_owner = o'\<rparr>))"

record pin_accounting =
  pa_pages :: nat
  pa_bytes :: nat
  pa_tokens :: nat

definition pa_zero :: pin_accounting where
  "pa_zero = \<lparr>pa_pages = 0, pa_bytes = 0, pa_tokens = 0\<rparr>"

definition pa_checked_add :: "pin_accounting \<Rightarrow> pin_accounting \<Rightarrow> mm_error + pin_accounting" where
  "pa_checked_add a c =
     and_then (ok_or MmOverflow (checked_add u64_max (pa_pages a) (pa_pages c))) (\<lambda>p.
     and_then (ok_or MmOverflow (checked_add u64_max (pa_bytes a) (pa_bytes c))) (\<lambda>b.
     and_then (ok_or MmOverflow (checked_add u64_max (pa_tokens a) (pa_tokens c))) (\<lambda>t.
       Inr \<lparr>pa_pages = p, pa_bytes = b, pa_tokens = t\<rparr>)))"

definition pa_checked_sub :: "pin_accounting \<Rightarrow> pin_accounting \<Rightarrow> mm_error + pin_accounting" where
  "pa_checked_sub a c =
     and_then (ok_or MmOverflow (checked_sub (pa_pages a) (pa_pages c))) (\<lambda>p.
     and_then (ok_or MmOverflow (checked_sub (pa_bytes a) (pa_bytes c))) (\<lambda>b.
     and_then (ok_or MmOverflow (checked_sub (pa_tokens a) (pa_tokens c))) (\<lambda>t.
       Inr \<lparr>pa_pages = p, pa_bytes = b, pa_tokens = t\<rparr>)))"

text \<open>The conversions of \<open>usize\<close> values to \<open>u64\<close> cannot fail on a 64-bit target.\<close>

definition pa_for_range :: "page_range \<Rightarrow> mm_error + pin_accounting" where
  "pa_for_range r = Inr \<lparr>pa_pages = page_count r, pa_bytes = pr_len r, pa_tokens = 1\<rparr>"

record pin_quota =
  pq_max_pages :: nat
  pq_max_bytes :: nat
  pq_max_tokens :: nat

definition admits :: "pin_quota \<Rightarrow> pin_accounting \<Rightarrow> bool" where
  "admits q a \<longleftrightarrow> pa_pages a \<le> pq_max_pages q \<and> pa_bytes a \<le> pq_max_bytes q \<and>
     pa_tokens a \<le> pq_max_tokens q"

section \<open>System-wide budgets\<close>

record pin_budget_charge =
  bc_budget :: nat
  bc_token :: nat

record pin_budget_record =
  br_charge :: pin_budget_charge
  br_range :: page_range
  br_accounting :: pin_accounting

record pin_budget =
  pb_identity :: nat
  pb_page_size :: page_size
  pb_quota :: pin_quota
  pb_usage :: pin_accounting
  pb_records :: "pin_budget_record option list"
  pb_next_charge :: "nat option"

text \<open>\<open>token.get().checked_add(1).and_then(NonZeroU64::new)\<close>.\<close>

definition next_token :: "nat \<Rightarrow> nat option" where
  "next_token t = Option.bind (checked_add u64_max t 1) (\<lambda>n. if n = 0 then None else Some n)"

definition identity_update :: "nat \<Rightarrow> nat option" where
  "identity_update current =
     (if current = 0 then None else if current = u64_max then Some 0 else Some (current + 1))"

text \<open>The identity counter is passed and returned.\<close>

definition allocate_pin_budget_identity :: "nat \<Rightarrow> (nat, mm_error, nat) outcome" where
  "allocate_pin_budget_identity counter =
     (case identity_update counter of
        None \<Rightarrow> (counter, Inl MmIdExhausted)
      | Some new \<Rightarrow> (new, if counter = 0 then Inl MmIdExhausted else Inr counter))"

definition budget_new ::
  "nat \<Rightarrow> nat \<Rightarrow> nat \<Rightarrow> pin_quota \<Rightarrow> nat \<Rightarrow> (nat, mm_error, pin_budget) outcome" where
  "budget_new capacity counter bytes quota first_charge =
     (case and_then (page_size_new bytes) (\<lambda>p. and_then (nonzero_id first_charge) (\<lambda>c. Inr (p, c))) of
        Inl e \<Rightarrow> (counter, Inl e)
      | Inr (p, c) \<Rightarrow>
          (case allocate_pin_budget_identity counter of
             (counter', Inl e) \<Rightarrow> (counter', Inl e)
           | (counter', Inr ident) \<Rightarrow>
               (counter', Inr \<lparr>pb_identity = ident, pb_page_size = p, pb_quota = quota,
                  pb_usage = pa_zero, pb_records = replicate capacity None,
                  pb_next_charge = Some c\<rparr>)))"

definition live_charges :: "pin_budget \<Rightarrow> nat" where
  "live_charges b = length (flatten (pb_records b))"

definition budget_reserve ::
  "pin_budget \<Rightarrow> pin_request \<Rightarrow> (pin_budget, mm_error, pin_budget_charge) outcome" where
  "budget_reserve b request =
     (case and_then (covering (rq_range request) (pb_page_size b)) (\<lambda>r.
           and_then (ok_or CapacityExceeded (position (\<lambda>x. x = None) (pb_records b))) (\<lambda>i.
           and_then (pa_for_range r) (\<lambda>a.
           and_then (pa_checked_add (pb_usage b) a) (\<lambda>usage.
             if \<not> admits (pb_quota b) usage then Inl QuotaExceeded
             else and_then (ok_or MmIdExhausted (pb_next_charge b)) (\<lambda>t. Inr (r, i, a, usage, t)))))) of
        Inl e \<Rightarrow> (b, Inl e)
      | Inr (r, i, a, usage, t) \<Rightarrow>
          let charge = \<lparr>bc_budget = pb_identity b, bc_token = t\<rparr>
          in (b\<lparr>pb_next_charge := next_token t, pb_usage := usage,
                pb_records := (pb_records b)[i := Some \<lparr>br_charge = charge, br_range = r,
                                                       br_accounting = a\<rparr>]\<rparr>,
              Inr charge))"

definition budget_record_index :: "pin_budget \<Rightarrow> pin_budget_charge \<Rightarrow> mm_error + nat" where
  "budget_record_index b charge =
     (if bc_budget charge \<noteq> pb_identity b then Inl BudgetMismatch
      else ok_or UnknownToken
             (position (\<lambda>r. case r of None \<Rightarrow> False | Some rec \<Rightarrow> br_charge rec = charge) (pb_records b)))"

definition budget_record :: "pin_budget \<Rightarrow> pin_budget_charge \<Rightarrow> mm_error + pin_budget_record" where
  "budget_record b charge =
     and_then (budget_record_index b charge) (\<lambda>i. Inr (the (pb_records b ! i)))"

definition budget_range :: "pin_budget \<Rightarrow> pin_budget_charge \<Rightarrow> mm_error + page_range" where
  "budget_range b charge = and_then (budget_record b charge) (\<lambda>rec. Inr (br_range rec))"

definition charge_accounting :: "pin_budget \<Rightarrow> pin_budget_charge \<Rightarrow> mm_error + pin_accounting" where
  "charge_accounting b charge = and_then (budget_record b charge) (\<lambda>rec. Inr (br_accounting rec))"

definition budget_free :: "pin_budget \<Rightarrow> pin_budget_charge \<Rightarrow> (pin_budget, mm_error, unit) outcome" where
  "budget_free b charge =
     (case and_then (budget_record_index b charge) (\<lambda>i.
           and_then (pa_checked_sub (pb_usage b) (br_accounting (the (pb_records b ! i))))
             (\<lambda>usage. Inr (i, usage))) of
        Inl e \<Rightarrow> (b, Inl e)
      | Inr (i, usage) \<Rightarrow> (b\<lparr>pb_records := (pb_records b)[i := None], pb_usage := usage\<rparr>, Inr ()))"

section \<open>The registry\<close>

datatype record_state = RsReserved | RsActive

record pin_snapshot =
  ps_address_space :: nat
  ps_range :: page_range

record pin_record =
  pn_token :: nat
  pn_request :: pin_request
  pn_range :: page_range
  pn_snapshot :: pin_snapshot
  pn_validated_until :: nat
  pn_validated_mappings :: nat
  pn_charge :: pin_accounting
  pn_state :: record_state

record owner_account =
  oa_owner :: nat
  oa_quota :: pin_quota
  oa_usage :: pin_accounting

datatype registry_state = RegOpen | RegClosing | RegTearingDown | RegClosed

record lifecycle_progress =
  lp_active :: nat
  lp_reserved :: nat

record teardown_report =
  td_cancelled_reservations :: nat
  td_active_remaining :: nat

record pin_registry =
  rg_page_size :: page_size
  rg_global_quota :: pin_quota
  rg_global_usage :: pin_accounting
  rg_owners :: "owner_account option list"
  rg_records :: "pin_record option list"
  rg_next_token :: "nat option"
  rg_state :: registry_state

definition registry_new :: "nat \<Rightarrow> nat \<Rightarrow> nat \<Rightarrow> pin_quota \<Rightarrow> nat \<Rightarrow> mm_error + pin_registry" where
  "registry_new owner_capacity token_capacity bytes quota first_token =
     and_then (page_size_new bytes) (\<lambda>p.
     and_then (nonzero_id first_token) (\<lambda>t.
       Inr \<lparr>rg_page_size = p, rg_global_quota = quota, rg_global_usage = pa_zero,
            rg_owners = replicate owner_capacity None, rg_records = replicate token_capacity None,
            rg_next_token = Some t, rg_state = RegOpen\<rparr>))"

definition ensure_open :: "pin_registry \<Rightarrow> mm_error + unit" where
  "ensure_open r =
     (case rg_state r of
        RegOpen \<Rightarrow> Inr () | RegClosing \<Rightarrow> Inl MmClosing | RegTearingDown \<Rightarrow> Inl MmTearingDown
      | RegClosed \<Rightarrow> Inl MmClosed)"

definition owner_index :: "pin_registry \<Rightarrow> nat \<Rightarrow> nat option" where
  "owner_index r owner =
     position (\<lambda>a. case a of None \<Rightarrow> False | Some acc \<Rightarrow> oa_owner acc = owner) (rg_owners r)"

definition record_index :: "pin_registry \<Rightarrow> nat \<Rightarrow> nat option" where
  "record_index r token =
     position (\<lambda>x. case x of None \<Rightarrow> False | Some rec \<Rightarrow> pn_token rec = token) (rg_records r)"

definition owner_accounting :: "pin_registry \<Rightarrow> nat \<Rightarrow> mm_error + pin_accounting" where
  "owner_accounting r owner =
     ok_or OwnerNotConfigured (map_option (\<lambda>i. oa_usage (the (rg_owners r ! i))) (owner_index r owner))"

definition configure_owner ::
  "pin_registry \<Rightarrow> nat \<Rightarrow> pin_quota \<Rightarrow> (pin_registry, mm_error, unit) outcome" where
  "configure_owner r owner quota =
     (case ensure_open r of
        Inl e \<Rightarrow> (r, Inl e)
      | Inr _ \<Rightarrow>
          (case owner_index r owner of
             Some i \<Rightarrow>
               let account = the (rg_owners r ! i) in
               if \<not> admits quota (oa_usage account) then (r, Inl OwnerBusy)
               else (r\<lparr>rg_owners := (rg_owners r)[i := Some (account\<lparr>oa_quota := quota\<rparr>)]\<rparr>, Inr ())
           | None \<Rightarrow>
               (case position (\<lambda>a. a = None) (rg_owners r) of
                  None \<Rightarrow> (r, Inl CapacityExceeded)
                | Some i \<Rightarrow>
                    (r\<lparr>rg_owners := (rg_owners r)[i := Some \<lparr>oa_owner = owner, oa_quota = quota,
                                                            oa_usage = pa_zero\<rparr>]\<rparr>, Inr ()))))"

definition remove_owner :: "pin_registry \<Rightarrow> nat \<Rightarrow> (pin_registry, mm_error, unit) outcome" where
  "remove_owner r owner =
     (case ensure_open r of
        Inl e \<Rightarrow> (r, Inl e)
      | Inr _ \<Rightarrow>
          (case owner_index r owner of
             None \<Rightarrow> (r, Inl OwnerNotConfigured)
           | Some i \<Rightarrow>
               if oa_usage (the (rg_owners r ! i)) \<noteq> pa_zero then (r, Inl OwnerBusy)
               else (r\<lparr>rg_owners := (rg_owners r)[i := None]\<rparr>, Inr ())))"

text \<open>The \<open>flatten\<close>ed record iterator.\<close>

definition live_records :: "pin_registry \<Rightarrow> pin_record list" where
  "live_records r = flatten (rg_records r)"

definition fences :: "pin_record \<Rightarrow> bool" where
  "fences rec \<longleftrightarrow> pn_state rec = RsReserved \<or> rq_duration (pn_request rec) \<noteq> LongTerm"

definition validate_overlap ::
  "pin_registry \<Rightarrow> pin_request \<Rightarrow> page_range \<Rightarrow> nat \<Rightarrow> mm_error + unit" where
  "validate_overlap r request pages address_space =
     (if list_ex (\<lambda>rec. ps_address_space (pn_snapshot rec) = address_space \<and>
            pages_overlap (pn_range rec) pages \<and>
            (rq_access (pn_request rec) = PinWrite \<or> rq_access request = PinWrite) \<and> fences rec)
          (live_records r)
      then Inl PinOverlap else Inr ())"

definition allocate_token :: "pin_registry \<Rightarrow> (pin_registry, mm_error, nat) outcome" where
  "allocate_token r =
     (case rg_next_token r of
        None \<Rightarrow> (r, Inl MmIdExhausted)
      | Some raw \<Rightarrow> (r\<lparr>rg_next_token := next_token raw\<rparr>, Inr raw))"

definition set_owner_usage :: "pin_registry \<Rightarrow> nat \<Rightarrow> pin_accounting \<Rightarrow> pin_registry" where
  "set_owner_usage r i usage =
     r\<lparr>rg_owners := (rg_owners r)[i := Some ((the (rg_owners r ! i))\<lparr>oa_usage := usage\<rparr>)]\<rparr>"

text \<open>The checks of a reservation, all of them before the first mutation.\<close>

definition reserve_plan ::
  "pin_registry \<Rightarrow> pin_request \<Rightarrow> nat \<Rightarrow>
   mm_error + page_range \<times> nat \<times> nat \<times> pin_accounting \<times> pin_accounting \<times> pin_accounting" where
  "reserve_plan r request address_space =
     and_then (ensure_open r) (\<lambda>_.
     and_then (covering (rq_range request) (rg_page_size r)) (\<lambda>pages.
     and_then (validate_overlap r request pages address_space) (\<lambda>_.
     and_then (ok_or OwnerNotConfigured (owner_index r (rq_owner request))) (\<lambda>oi.
     and_then (ok_or CapacityExceeded (position (\<lambda>x. x = None) (rg_records r))) (\<lambda>ri.
     and_then (pa_for_range pages) (\<lambda>charge.
     let owner = the (rg_owners r ! oi) in
     and_then (pa_checked_add (oa_usage owner) charge) (\<lambda>new_owner.
     and_then (pa_checked_add (rg_global_usage r) charge) (\<lambda>new_global.
       if \<not> admits (oa_quota owner) new_owner \<or> \<not> admits (rg_global_quota r) new_global
       then Inl QuotaExceeded
       else Inr (pages, oi, ri, charge, new_owner, new_global)))))))))"

definition new_record ::
  "nat \<Rightarrow> pin_request \<Rightarrow> nat \<Rightarrow> page_range \<Rightarrow> pin_accounting \<Rightarrow> pin_record" where
  "new_record token request address_space pages charge =
     \<lparr>pn_token = token, pn_request = request, pn_range = pages,
      pn_snapshot = \<lparr>ps_address_space = address_space, ps_range = pages\<rparr>,
      pn_validated_until = pr_start pages, pn_validated_mappings = 0, pn_charge = charge,
      pn_state = RsReserved\<rparr>"

definition pin_reserve ::
  "pin_registry \<Rightarrow> pin_request \<Rightarrow> nat \<Rightarrow> (pin_registry, mm_error, nat) outcome" where
  "pin_reserve r request address_space =
     (case reserve_plan r request address_space of
        Inl e \<Rightarrow> (r, Inl e)
      | Inr (pages, oi, ri, charge, new_owner, new_global) \<Rightarrow>
          (case allocate_token r of
             (r1, Inl e) \<Rightarrow> (r1, Inl e)
           | (r1, Inr token) \<Rightarrow>
               let r2 = (set_owner_usage r1 oi new_owner)\<lparr>rg_global_usage := new_global\<rparr>
               in (r2\<lparr>rg_records := (rg_records r2)[ri :=
                        Some (new_record token request address_space pages charge)]\<rparr>,
                   Inr token)))"

text \<open>The record is taken before the accounting is checked, as in the source.\<close>

definition remove_record :: "pin_registry \<Rightarrow> nat \<Rightarrow> (pin_registry, mm_error, unit) outcome" where
  "remove_record r i =
     (case rg_records r ! i of
        None \<Rightarrow> (r, Inl UnknownToken)
      | Some rec \<Rightarrow>
          let r1 = r\<lparr>rg_records := (rg_records r)[i := None]\<rparr> in
          (case owner_index r1 (rq_owner (pn_request rec)) of
             None \<Rightarrow> (r1, Inl OwnerNotConfigured)
           | Some oi \<Rightarrow>
               (case pa_checked_sub (oa_usage (the (rg_owners r1 ! oi))) (pn_charge rec) of
                  Inl e \<Rightarrow> (r1, Inl e)
                | Inr usage \<Rightarrow>
                    let r2 = set_owner_usage r1 oi usage in
                    (case pa_checked_sub (rg_global_usage r2) (pn_charge rec) of
                       Inl e \<Rightarrow> (r2, Inl e)
                     | Inr global \<Rightarrow> (r2\<lparr>rg_global_usage := global\<rparr>, Inr ())))))"

definition validate_mapping ::
  "pin_registry \<Rightarrow> pin_request \<Rightarrow> page_range \<Rightarrow> mapping_snapshot \<Rightarrow> mm_error + unit" where
  "validate_mapping r request pages snapshot =
     (if pr_page_size (ms_range snapshot) \<noteq> rg_page_size r \<or> \<not> pages_contain (ms_range snapshot) pages
      then Inl RangeNotMapped
      else if rq_access request = PinRead \<and> \<not> readable (ms_access snapshot) then Inl AccessDenied
      else if rq_access request = PinWrite \<and> \<not> writable (ms_access snapshot) then Inl AccessDenied
      else if rq_duration request = LongTerm \<and> \<not> ms_long_term_pinnable snapshot then Inl UnsupportedPin
      else if rq_use_kind request = Dma \<and> rq_duration request \<noteq> LongTerm then Inl UnsupportedPin
      else if rq_duration request = LongTerm \<and> rq_access request = PinWrite \<and>
              ms_kind snapshot = FileShared \<and> \<not> ms_writable_file_pin_supported snapshot
      then Inl UnsupportedPin
      else if (ms_kind snapshot = Device \<or> ms_kind snapshot = Special) \<and> rq_duration request = LongTerm
      then Inl UnsupportedPin
      else Inr ())"

definition validate_segment ::
  "pin_registry \<Rightarrow> pin_record \<Rightarrow> expected_mapping \<Rightarrow> mapping_snapshot \<Rightarrow> page_range \<Rightarrow> mm_error + unit" where
  "validate_segment r rec ex current covered =
     (if pr_page_size covered \<noteq> rg_page_size r \<or> pr_start covered \<noteq> pn_validated_until rec \<or>
         \<not> pages_contain (pn_range rec) covered then Inl NonContiguousCoverage
      else if em_address_space ex \<noteq> ps_address_space (pn_snapshot rec) then Inl StaleGeneration
      else and_then (revalidate_range ex current covered) (\<lambda>_.
             validate_mapping r (pn_request rec) covered current))"

definition set_record :: "pin_registry \<Rightarrow> nat \<Rightarrow> pin_record \<Rightarrow> pin_registry" where
  "set_record r i rec = r\<lparr>rg_records := (rg_records r)[i := Some rec]\<rparr>"

text \<open>The end of the validated prefix is stored before the mapping count is checked.\<close>

definition revalidate_next ::
  "pin_registry \<Rightarrow> nat \<Rightarrow> expected_mapping \<Rightarrow> mapping_snapshot \<Rightarrow> page_range \<Rightarrow>
   (pin_registry, mm_error, unit) outcome" where
  "revalidate_next r token ex current covered =
     (case record_index r token of
        None \<Rightarrow> (r, Inl UnknownToken)
      | Some i \<Rightarrow>
          let rec = the (rg_records r ! i) in
          if pn_state rec \<noteq> RsReserved then (r, Inl InvalidTokenState)
          else case validate_segment r rec ex current covered of
            Inl error \<Rightarrow>
              (case remove_record r i of (r1, Inl e) \<Rightarrow> (r1, Inl e) | (r1, Inr _) \<Rightarrow> (r1, Inl error))
          | Inr _ \<Rightarrow>
              let rec1 = rec\<lparr>pn_validated_until := pr_end covered\<rparr> in
              (case checked_add usize_max (pn_validated_mappings rec1) 1 of
                 None \<Rightarrow> (set_record r i rec1, Inl MmOverflow)
               | Some n \<Rightarrow> (set_record r i (rec1\<lparr>pn_validated_mappings := n\<rparr>), Inr ())))"

definition pin_commit :: "pin_registry \<Rightarrow> nat \<Rightarrow> (pin_registry, mm_error, nat) outcome" where
  "pin_commit r token =
     (case record_index r token of
        None \<Rightarrow> (r, Inl UnknownToken)
      | Some i \<Rightarrow>
          let rec = the (rg_records r ! i) in
          if pn_state rec \<noteq> RsReserved then (r, Inl InvalidTokenState)
          else if pn_validated_until rec \<noteq> pr_end (pn_range rec) \<or> pn_validated_mappings rec = 0
          then (r, Inl IncompleteRevalidation)
          else (set_record r i (rec\<lparr>pn_state := RsActive\<rparr>), Inr (pn_token rec)))"

definition pin_cancel :: "pin_registry \<Rightarrow> nat \<Rightarrow> (pin_registry, mm_error, unit) outcome" where
  "pin_cancel r token =
     (case record_index r token of
        None \<Rightarrow> (r, Inl UnknownToken)
      | Some i \<Rightarrow>
          if pn_state (the (rg_records r ! i)) \<noteq> RsReserved then (r, Inl InvalidTokenState)
          else remove_record r i)"

definition pin_release :: "pin_registry \<Rightarrow> nat \<Rightarrow> (pin_registry, mm_error, unit) outcome" where
  "pin_release r token =
     (case record_index r token of
        None \<Rightarrow> (r, Inl UnknownToken)
      | Some i \<Rightarrow>
          if pn_state (the (rg_records r ! i)) \<noteq> RsActive then (r, Inl InvalidTokenState)
          else remove_record r i)"

definition pin_view :: "pin_registry \<Rightarrow> nat \<Rightarrow> mm_error + pin_record" where
  "pin_view r token =
     ok_or UnknownToken (map_option (\<lambda>i. the (rg_records r ! i)) (record_index r token))"

definition active_count :: "pin_registry \<Rightarrow> nat" where
  "active_count r = length (filter (\<lambda>rec. pn_state rec = RsActive) (live_records r))"

definition reserved_count :: "pin_registry \<Rightarrow> nat" where
  "reserved_count r = length (filter (\<lambda>rec. pn_state rec = RsReserved) (live_records r))"

definition progress :: "pin_registry \<Rightarrow> lifecycle_progress" where
  "progress r = \<lparr>lp_active = active_count r, lp_reserved = reserved_count r\<rparr>"

definition has_clone_blocker :: "pin_registry \<Rightarrow> bool" where
  "has_clone_blocker r \<longleftrightarrow> list_ex fences (live_records r)"

definition first_mutation_blocker :: "pin_registry \<Rightarrow> invalidation_range \<Rightarrow> pin_record option" where
  "first_mutation_blocker r iv =
     find (\<lambda>rec. fences rec \<and> ps_address_space (pn_snapshot rec) = em_address_space (iv_expected iv) \<and>
                 pages_overlap (pn_range rec) (iv_range iv)) (live_records r)"

definition admit_mutation :: "pin_registry \<Rightarrow> invalidation_range \<Rightarrow> mm_error + unit" where
  "admit_mutation r iv = (if first_mutation_blocker r iv \<noteq> None then Inl MappingPinned else Inr ())"

definition begin_close :: "pin_registry \<Rightarrow> (pin_registry, mm_error, lifecycle_progress) outcome" where
  "begin_close r =
     (case rg_state r of
        RegOpen \<Rightarrow> (r\<lparr>rg_state := RegClosing\<rparr>, Inr (progress r))
      | RegClosing \<Rightarrow> (r, Inr (progress r))
      | RegTearingDown \<Rightarrow> (r, Inl MmTearingDown)
      | RegClosed \<Rightarrow> (r, Inl MmClosed))"

text \<open>The loop over the slot indices of \<open>begin_teardown\<close>.\<close>

fun cancel_reserved :: "nat list \<Rightarrow> pin_registry \<Rightarrow> nat \<Rightarrow> (pin_registry, mm_error, nat) outcome" where
  "cancel_reserved [] r cancelled = (r, Inr cancelled)"
| "cancel_reserved (i # is) r cancelled =
     (if (case rg_records r ! i of None \<Rightarrow> False | Some rec \<Rightarrow> pn_state rec = RsReserved) then
        (case remove_record r i of
           (r1, Inl e) \<Rightarrow> (r1, Inl e)
         | (r1, Inr _) \<Rightarrow>
             (case checked_add usize_max cancelled 1 of
                None \<Rightarrow> (r1, Inl MmOverflow)
              | Some n \<Rightarrow> cancel_reserved is r1 n))
      else cancel_reserved is r cancelled)"

definition begin_teardown :: "pin_registry \<Rightarrow> (pin_registry, mm_error, teardown_report) outcome" where
  "begin_teardown r =
     (if rg_state r = RegClosed then (r, Inl MmClosed)
      else case cancel_reserved [0 ..< length (rg_records r)] (r\<lparr>rg_state := RegTearingDown\<rparr>) 0 of
        (r1, Inl e) \<Rightarrow> (r1, Inl e)
      | (r1, Inr n) \<Rightarrow>
          (r1, Inr \<lparr>td_cancelled_reservations = n, td_active_remaining = active_count r1\<rparr>))"

definition finish_teardown :: "pin_registry \<Rightarrow> (pin_registry, mm_error, unit) outcome" where
  "finish_teardown r =
     (case rg_state r of
        RegOpen \<Rightarrow> (r, Inl Busy)
      | RegClosed \<Rightarrow> (r, Inr ())
      | _ \<Rightarrow> if lp_active (progress r) + lp_reserved (progress r) \<noteq> 0 then (r, Inl Busy)
             else (r\<lparr>rg_state := RegClosed\<rparr>, Inr ()))"

end
