(* ===== verification/Pin_Registry_Safety.thy ===== *)
theory Pin_Registry_Safety
  imports Pin_Registry Mm_Range_Props Generation_Domain
begin

text \<open>
  The invariant of the pin registry and that every operation keeps it: tokens are unique and
  never reissued, owner and global usage are the totals of the live charges and within their
  quotas, a pin is published only when its whole range was revalidated, and overlapping pins
  that fence a mapping are all reads.
\<close>

section \<open>Totals\<close>

definition pa_plus :: "pin_accounting \<Rightarrow> pin_accounting \<Rightarrow> pin_accounting" where
  "pa_plus a c = \<lparr>pa_pages = pa_pages a + pa_pages c, pa_bytes = pa_bytes a + pa_bytes c,
     pa_tokens = pa_tokens a + pa_tokens c\<rparr>"

definition pa_total :: "pin_accounting multiset \<Rightarrow> pin_accounting" where
  "pa_total M = \<lparr>pa_pages = sum_mset (image_mset pa_pages M), pa_bytes = sum_mset (image_mset pa_bytes M),
     pa_tokens = sum_mset (image_mset pa_tokens M)\<rparr>"

lemma pa_total_empty [simp]: "pa_total {#} = pa_zero"
  by (simp add: pa_total_def pa_zero_def)

lemma pa_total_add: "pa_total (add_mset c M) = pa_plus (pa_total M) c"
  by (simp add: pa_total_def pa_plus_def)

lemma pa_checked_add_Inr: "pa_checked_add a c = Inr b \<Longrightarrow> b = pa_plus a c"
  by (auto simp: pa_checked_add_def pa_plus_def checked_iffs)

lemma pa_checked_sub_plus: "pa_checked_sub (pa_plus a c) c = Inr a"
  by (simp add: pa_checked_sub_def pa_plus_def checked_sub_def)

lemma admits_mono: "admits q (pa_plus a c) \<Longrightarrow> admits q a"
  by (simp add: admits_def pa_plus_def)

lemma admits_zero [simp]: "admits q pa_zero"
  by (simp add: admits_def pa_zero_def)

definition pn_owner :: "pin_record \<Rightarrow> nat" where
  "pn_owner rec = rq_owner (pn_request rec)"

definition ledger :: "pin_record option list \<Rightarrow> pin_accounting multiset" where
  "ledger xs = image_mset pn_charge (mset (flatten xs))"

definition ledger_of :: "nat \<Rightarrow> pin_record option list \<Rightarrow> pin_accounting multiset" where
  "ledger_of owner xs = image_mset pn_charge (filter_mset (\<lambda>rec. pn_owner rec = owner) (mset (flatten xs)))"

lemma ledger_insert:
  assumes "i < length xs" and "xs ! i = None"
  shows "ledger (xs[i := Some rec]) = add_mset (pn_charge rec) (ledger xs)"
    and "ledger_of ow (xs[i := Some rec]) =
      (if pn_owner rec = ow then add_mset (pn_charge rec) (ledger_of ow xs) else ledger_of ow xs)"
  using mset_flatten_insert [OF assms] by (simp_all add: ledger_def ledger_of_def)

lemma ledger_remove:
  assumes "i < length xs" and "xs ! i = Some rec"
  shows "ledger xs = add_mset (pn_charge rec) (ledger (xs[i := None]))"
    and "ledger_of ow xs =
      (if pn_owner rec = ow then add_mset (pn_charge rec) (ledger_of ow (xs[i := None]))
       else ledger_of ow (xs[i := None]))"
  using mset_flatten_remove [OF assms] by (simp_all add: ledger_def ledger_of_def)

lemma ledger_replace:
  assumes "i < length xs" and "xs ! i = Some rec" and "pn_charge new = pn_charge rec"
    and "pn_owner new = pn_owner rec"
  shows "ledger (xs[i := Some new]) = ledger xs \<and> ledger_of ow (xs[i := Some new]) = ledger_of ow xs"
proof -
  have "mset (flatten (xs[i := Some new])) + {#rec#} = mset (flatten xs) + {#new#}"
    using mset_flatten_replace [OF assms(1,2), of new] by simp
  then have "image_mset pn_charge (filter_mset P (mset (flatten (xs[i := Some new])) + {#rec#})) =
      image_mset pn_charge (filter_mset P (mset (flatten xs) + {#new#}))" for P by simp
  from this [of "\<lambda>_. True"] this [of "\<lambda>rec. pn_owner rec = ow"] show ?thesis
    using assms(3,4) by (simp add: ledger_def ledger_of_def split: if_splits)
qed

section \<open>The invariant\<close>

definition token_bound :: "nat option \<Rightarrow> nat" where
  "token_bound n = (case n of None \<Rightarrow> Suc u64_max | Some t \<Rightarrow> t)"

lemma token_bound_Some [simp]: "token_bound (Some t) = t"
  by (simp add: token_bound_def)

definition tokens_ok :: "pin_registry \<Rightarrow> bool" where
  "tokens_ok r \<longleftrightarrow> distinct_keys (map_option pn_token) (rg_records r) \<and>
     keys_below (map_option pn_token) (token_bound (rg_next_token r)) (rg_records r) \<and>
     (\<forall>t. rg_next_token r = Some t \<longrightarrow> t \<le> u64_max)"

definition accounts_ok :: "owner_account option list \<Rightarrow> pin_record option list \<Rightarrow> bool" where
  "accounts_ok os xs \<longleftrightarrow> distinct_keys (map_option oa_owner) os \<and>
     (\<forall>i < length os. \<forall>acc. os ! i = Some acc \<longrightarrow>
        oa_usage acc = pa_total (ledger_of (oa_owner acc) xs) \<and> admits (oa_quota acc) (oa_usage acc)) \<and>
     (\<forall>rec. Some rec \<in> set xs \<longrightarrow> (\<exists>i < length os. \<exists>acc. os ! i = Some acc \<and> oa_owner acc = pn_owner rec))"

definition record_ok :: "page_size \<Rightarrow> pin_record \<Rightarrow> bool" where
  "record_ok p rec \<longleftrightarrow> pages_ok (pn_range rec) \<and> pr_page_size (pn_range rec) = p \<and>
     range_contains (pr_range (pn_range rec)) (rq_range (pn_request rec)) \<and>
     pn_charge rec = \<lparr>pa_pages = page_count (pn_range rec), pa_bytes = pr_len (pn_range rec), pa_tokens = 1\<rparr> \<and>
     pr_start (pn_range rec) \<le> pn_validated_until rec \<and> pn_validated_until rec \<le> pr_end (pn_range rec) \<and>
     (pn_validated_mappings rec = 0 \<longleftrightarrow> pn_validated_until rec = pr_start (pn_range rec)) \<and>
     pr_start (pn_range rec) + pn_validated_mappings rec \<le> pn_validated_until rec \<and>
     (pn_state rec = RsActive \<longrightarrow> pn_validated_until rec = pr_end (pn_range rec))"

definition conflict :: "pin_record \<Rightarrow> pin_record \<Rightarrow> bool" where
  "conflict a b \<longleftrightarrow> fences a \<and> fences b \<and> ps_address_space (pn_snapshot a) = ps_address_space (pn_snapshot b) \<and>
     pages_overlap (pn_range a) (pn_range b) \<and>
     (rq_access (pn_request a) = PinWrite \<or> rq_access (pn_request b) = PinWrite)"

definition exclusive :: "pin_record option list \<Rightarrow> bool" where
  "exclusive xs \<longleftrightarrow> (\<forall>i < length xs. \<forall>j < length xs. \<forall>a b. i \<noteq> j \<longrightarrow> xs ! i = Some a \<longrightarrow> xs ! j = Some b \<longrightarrow>
     \<not> conflict a b)"

definition reg_ok :: "pin_registry \<Rightarrow> bool" where
  "reg_ok r \<longleftrightarrow> is_power_of_two (rg_page_size r) \<and> tokens_ok r \<and>
     rg_global_usage r = pa_total (ledger (rg_records r)) \<and> admits (rg_global_quota r) (rg_global_usage r) \<and>
     accounts_ok (rg_owners r) (rg_records r) \<and>
     (\<forall>rec. Some rec \<in> set (rg_records r) \<longrightarrow> record_ok (rg_page_size r) rec) \<and>
     exclusive (rg_records r)"

lemma reg_okD:
  assumes "reg_ok r"
  shows "is_power_of_two (rg_page_size r)" and "tokens_ok r"
    and "rg_global_usage r = pa_total (ledger (rg_records r))"
    and "admits (rg_global_quota r) (rg_global_usage r)" and "accounts_ok (rg_owners r) (rg_records r)"
    and "\<forall>rec. Some rec \<in> set (rg_records r) \<longrightarrow> record_ok (rg_page_size r) rec" and "exclusive (rg_records r)"
  using assms unfolding reg_ok_def by blast+

section \<open>Lookups\<close>

lemma key_index_Some:
  assumes "position (\<lambda>x. case x of None \<Rightarrow> False | Some y \<Rightarrow> f y = k) xs = Some i"
  shows "i < length xs \<and> (\<exists>y. xs ! i = Some y \<and> f y = k)"
  using position_SomeD [OF assms] by (auto split: option.splits)

lemma key_index_None:
  "position (\<lambda>x. case x of None \<Rightarrow> False | Some y \<Rightarrow> f y = k) xs = None \<longleftrightarrow>
   (\<forall>y. Some y \<in> set xs \<longrightarrow> f y \<noteq> k)"
  by (auto simp: position_None_iff split: option.splits)

lemma free_index_Some: "position (\<lambda>x. x = None) xs = Some i \<Longrightarrow> i < length xs \<and> xs ! i = None"
  using position_SomeD [of "\<lambda>x. x = None" xs i] by simp

lemma accounts_index:
  assumes "accounts_ok os xs" and "Some rec \<in> set xs"
  obtains i acc where "position (\<lambda>a. case a of None \<Rightarrow> False | Some acc \<Rightarrow> oa_owner acc = pn_owner rec) os = Some i"
    and "i < length os" and "os ! i = Some acc" and "oa_owner acc = pn_owner rec"
    and "oa_usage acc = pa_total (ledger_of (pn_owner rec) xs)"
proof -
  let ?P = "\<lambda>a. case a of None \<Rightarrow> False | Some acc \<Rightarrow> oa_owner acc = pn_owner rec"
  from assms obtain j acc0 where "j < length os" "os ! j = Some acc0" "oa_owner acc0 = pn_owner rec"
    unfolding accounts_ok_def by blast
  then have "position ?P os \<noteq> None" using nth_mem [of j os] by (auto simp: key_index_None)
  then obtain i where i: "position ?P os = Some i" by blast
  from key_index_Some [OF i] obtain acc where acc: "i < length os" "os ! i = Some acc" "oa_owner acc = pn_owner rec"
    by blast
  have "oa_usage acc = pa_total (ledger_of (pn_owner rec) xs)"
    using assms(1) acc unfolding accounts_ok_def by metis
  with i acc show thesis using that by blast
qed

section \<open>Slot updates keep the invariant\<close>

lemma exclusive_none: "exclusive xs \<Longrightarrow> exclusive (xs[i := None])"
  unfolding exclusive_def
  by (metis length_list_update nth_list_update_eq nth_list_update_neq option.distinct(1))

lemma conflict_sym: "conflict a b \<Longrightarrow> conflict b a"
  by (auto simp: conflict_def pages_overlap_iff)

lemma exclusive_insert:
  assumes "exclusive xs" and "\<And>b j. j < length xs \<Longrightarrow> j \<noteq> i \<Longrightarrow> xs ! j = Some b \<Longrightarrow> \<not> conflict a b"
  shows "exclusive (xs[i := Some a])"
  unfolding exclusive_def
proof (intro allI impI)
  fix k j x y
  assume "k < length (xs[i := Some a])" "j < length (xs[i := Some a])" "k \<noteq> j"
    "xs[i := Some a] ! k = Some x" "xs[i := Some a] ! j = Some y"
  then show "\<not> conflict x y"
    using assms(1) assms(2) [of j y] assms(2) [of k x] conflict_sym [of x y]
    unfolding exclusive_def by (cases "k = i"; cases "j = i") (auto simp: nth_list_update)
qed

lemma exclusive_weaken:
  assumes ex: "exclusive xs" and i: "i < length xs" "xs ! i = Some a"
    and w: "fences a' \<longrightarrow> fences a" "pn_snapshot a' = pn_snapshot a" "pn_range a' = pn_range a" "pn_request a' = pn_request a"
  shows "exclusive (xs[i := Some a'])"
proof (rule exclusive_insert [OF ex])
  fix b j assume "j < length xs" "j \<noteq> i" "xs ! j = Some b"
  then have "\<not> conflict a b" using ex i unfolding exclusive_def by blast
  then show "\<not> conflict a' b" using w by (auto simp: conflict_def)
qed

lemma records_update:
  "(\<forall>rec. Some rec \<in> set xs \<longrightarrow> P rec) \<Longrightarrow> (\<forall>rec. y = Some rec \<longrightarrow> P rec) \<Longrightarrow>
   \<forall>rec. Some rec \<in> set (xs[i := y]) \<longrightarrow> P rec"
  using set_list_update_cases by fastforce

lemma token_bound_next: "t \<le> u64_max \<Longrightarrow> token_bound (next_token t) = Suc t"
  by (auto simp: token_bound_def next_token_def checked_add_def Option.bind_eq_Some_conv split: option.splits if_splits)

lemma tokens_ok_keep:
  assumes "tokens_ok r" and "rg_next_token r' = rg_next_token r"
    and "rg_records r' = (rg_records r)[i := y]" and "i < length (rg_records r)"
    and "map_option pn_token y = None \<or> map_option pn_token y = map_option pn_token (rg_records r ! i)"
  shows "tokens_ok r'"
  using assms by (auto simp: tokens_ok_def intro: slot_key_intros)

lemma tokens_ok_fresh:
  assumes "tokens_ok r" and "rg_next_token r = Some t" and "pn_token rec = t"
    and "rg_next_token r' = next_token t" and "rg_records r' = (rg_records r)[i := Some rec]"
  shows "tokens_ok r'"
proof -
  have t: "t \<le> u64_max" and below: "keys_below (map_option pn_token) t (rg_records r)"
    and dist: "distinct_keys (map_option pn_token) (rg_records r)"
    using assms(1,2) by (simp_all add: tokens_ok_def token_bound_def)
  have "keys_below (map_option pn_token) (Suc t) ((rg_records r)[i := Some rec])"
    using keys_below_mono [OF below, of "Suc t"] assms(3) by (intro keys_below_update) auto
  moreover have "distinct_keys (map_option pn_token) ((rg_records r)[i := Some rec])"
    using distinct_keys_update_fresh [OF dist below] assms(3) by simp
  moreover have "next_token t = Some t' \<Longrightarrow> t' \<le> u64_max" for t'
    by (auto simp: next_token_def checked_iffs Option.bind_eq_Some_conv split: if_splits)
  ultimately show ?thesis using assms(4,5) by (simp add: tokens_ok_def token_bound_next [OF t])
qed

text \<open>Posting a charge to, and refunding it from, the account of its owner.\<close>

lemma accounts_post:
  assumes ok: "accounts_ok os xs" and o: "oi < length os" "os ! oi = Some acc" "oa_owner acc = ow"
    and quota: "admits (oa_quota acc) usage" and usage: "usage = pa_total (ledger_of ow xs')"
    and others: "\<And>o'. o' \<noteq> ow \<Longrightarrow> ledger_of o' xs' = ledger_of o' xs"
    and recs: "\<And>rec. Some rec \<in> set xs' \<Longrightarrow> Some rec \<in> set xs \<or> pn_owner rec = ow"
  shows "accounts_ok (os[oi := Some (acc\<lparr>oa_usage := usage\<rparr>)]) xs'"
proof -
  let ?os = "os[oi := Some (acc\<lparr>oa_usage := usage\<rparr>)]"
  have dist: "distinct_keys (map_option oa_owner) os" using ok by (simp add: accounts_ok_def)
  then have "distinct_keys (map_option oa_owner) ?os"
    using o by (intro distinct_keys_update_keep) simp_all
  moreover have "oa_usage a = pa_total (ledger_of (oa_owner a) xs') \<and> admits (oa_quota a) (oa_usage a)"
    if "i < length ?os" "?os ! i = Some a" for i a
  proof (cases "i = oi")
    case True
    then show ?thesis using that o quota usage by auto
  next
    case False
    then have a: "os ! i = Some a" using that by simp
    then have "oa_owner a \<noteq> ow"
      using distinct_keysD [OF dist, of i oi ow] False that(1) o by auto
    moreover have "oa_usage a = pa_total (ledger_of (oa_owner a) xs) \<and> admits (oa_quota a) (oa_usage a)"
      using ok a that(1) unfolding accounts_ok_def by (metis length_list_update)
    ultimately show ?thesis using others by metis
  qed
  moreover have "\<exists>i < length ?os. \<exists>a. ?os ! i = Some a \<and> oa_owner a = pn_owner rec" if mem: "Some rec \<in> set xs'" for rec
  proof (cases "pn_owner rec = ow")
    case True
    then show ?thesis using o by (intro exI [of _ oi] conjI exI [of _ "acc\<lparr>oa_usage := usage\<rparr>"]) simp_all
  next
    case False
    then obtain i a where "i < length os" "os ! i = Some a" "oa_owner a = pn_owner rec"
      using ok recs [OF mem] unfolding accounts_ok_def by blast
    moreover from this have "i \<noteq> oi" using o False by auto
    ultimately show ?thesis by (intro exI [of _ i]) simp
  qed
  ultimately show ?thesis unfolding accounts_ok_def by blast
qed

lemma accounts_insert:
  assumes "accounts_ok os xs" and "oi < length os" and "os ! oi = Some acc" and "oa_owner acc = pn_owner rec"
    and "i < length xs" and "xs ! i = None" and "admits (oa_quota acc) (pa_plus (oa_usage acc) (pn_charge rec))"
  shows "accounts_ok (os[oi := Some (acc\<lparr>oa_usage := pa_plus (oa_usage acc) (pn_charge rec)\<rparr>)]) (xs[i := Some rec])"
proof (rule accounts_post [OF assms(1-4,7)])
  have "oa_usage acc = pa_total (ledger_of (pn_owner rec) xs)" using assms(1-4) unfolding accounts_ok_def by metis
  then show "pa_plus (oa_usage acc) (pn_charge rec) = pa_total (ledger_of (pn_owner rec) (xs[i := Some rec]))"
    by (simp add: ledger_insert [OF assms(5,6)] pa_total_add)
qed (use ledger_insert [OF assms(5,6)] set_list_update_cases in \<open>fastforce+\<close>)

lemma accounts_remove:
  assumes "accounts_ok os xs" and "oi < length os" and "os ! oi = Some acc" and "oa_owner acc = pn_owner rec"
    and "i < length xs" and "xs ! i = Some rec"
    and "oa_usage acc = pa_plus usage (pn_charge rec)" and "usage = pa_total (ledger_of (pn_owner rec) (xs[i := None]))"
  shows "accounts_ok (os[oi := Some (acc\<lparr>oa_usage := usage\<rparr>)]) (xs[i := None])"
proof (rule accounts_post [OF assms(1-4) _ assms(8)])
  show "admits (oa_quota acc) usage"
    using assms(1-3,7) admits_mono unfolding accounts_ok_def by metis
qed (use ledger_remove(2) [OF assms(5,6)] set_list_update_cases in \<open>fastforce+\<close>)

section \<open>Removing a record\<close>

lemma remove_record_ok:
  assumes ok: "reg_ok r" and i: "i < length (rg_records r)" "rg_records r ! i = Some rec"
  shows "\<exists>r'. remove_record r i = (r', Inr ()) \<and> reg_ok r' \<and> rg_records r' = (rg_records r)[i := None] \<and>
    rg_state r' = rg_state r \<and> rg_next_token r' = rg_next_token r"
proof -
  let ?xs = "(rg_records r)[i := None]"
  have tok: "tokens_ok r" using ok by (rule reg_okD)
  have "Some rec \<in> set (rg_records r)" using i by (metis nth_mem)
  with ok obtain oi acc where
    idx: "owner_index r (pn_owner rec) = Some oi" and oi: "oi < length (rg_owners r)" "rg_owners r ! oi = Some acc"
      "oa_owner acc = pn_owner rec" and usage: "oa_usage acc = pa_total (ledger_of (pn_owner rec) (rg_records r))"
    using accounts_index [of "rg_owners r" "rg_records r" rec] by (auto simp: reg_ok_def owner_index_def)
  have idx1: "owner_index (r\<lparr>rg_records := ?xs\<rparr>) (rq_owner (pn_request rec)) = Some oi"
    using idx by (simp add: owner_index_def pn_owner_def)
  let ?usage = "pa_total (ledger_of (pn_owner rec) ?xs)" and ?global = "pa_total (ledger ?xs)"
  have own: "oa_usage acc = pa_plus ?usage (pn_charge rec)"
    using usage ledger_remove(2) [OF i, of "pn_owner rec"] by (simp add: pa_total_add)
  have glob: "rg_global_usage r = pa_plus ?global (pn_charge rec)"
    using ok ledger_remove(1) [OF i] by (simp add: reg_ok_def pa_total_add)
  let ?r' = "(set_owner_usage (r\<lparr>rg_records := ?xs\<rparr>) oi ?usage)\<lparr>rg_global_usage := ?global\<rparr>"
  have "remove_record r i = (?r', Inr ())"
    using i idx1 oi own glob
    by (simp add: remove_record_def Let_def pa_checked_sub_plus set_owner_usage_def)
  moreover have "reg_ok ?r'"
  proof -
    have "tokens_ok ?r'"
      by (rule tokens_ok_keep [OF tok, where i = i and y = None]) (simp_all add: set_owner_usage_def i(1))
    moreover have "accounts_ok (rg_owners ?r') ?xs"
      using accounts_remove [OF _ oi i own refl] ok oi by (simp add: reg_ok_def set_owner_usage_def)
    moreover have "admits (rg_global_quota r) ?global" using reg_okD(4) [OF ok] unfolding glob by (rule admits_mono)
    moreover have "\<forall>rec. Some rec \<in> set ?xs \<longrightarrow> record_ok (rg_page_size r) rec"
      using ok by (intro records_update) (auto simp: reg_ok_def)
    ultimately show ?thesis
      using ok exclusive_none by (auto simp: reg_ok_def set_owner_usage_def)
  qed
  ultimately show ?thesis by (auto simp: set_owner_usage_def)
qed

lemma record_index_Some:
  "record_index r t = Some i \<Longrightarrow> i < length (rg_records r) \<and> (\<exists>rec. rg_records r ! i = Some rec \<and> pn_token rec = t)"
  unfolding record_index_def by (rule key_index_Some)

text \<open>Replacing a record without touching its charge, owner, token or range.\<close>

lemma set_record_ok:
  assumes ok: "reg_ok r" and i: "i < length (rg_records r)" "rg_records r ! i = Some rec"
    and same: "pn_token new = pn_token rec" "pn_charge new = pn_charge rec" "pn_request new = pn_request rec"
      "pn_range new = pn_range rec" "pn_snapshot new = pn_snapshot rec"
    and fence: "fences new \<longrightarrow> fences rec" and new: "record_ok (rg_page_size r) new"
  shows "reg_ok (set_record r i new)"
proof -
  let ?r' = "set_record r i new" and ?xs = "(rg_records r)[i := Some new]"
  have tok: "tokens_ok r" using ok by (rule reg_okD)
  have led: "ledger ?xs = ledger (rg_records r)" "\<And>o'. ledger_of o' ?xs = ledger_of o' (rg_records r)"
    using ledger_replace [OF i same(2)] same(3) by (simp_all add: pn_owner_def)
  have owner: "pn_owner new = pn_owner rec" using same(3) by (simp add: pn_owner_def)
  have "tokens_ok ?r'"
    by (rule tokens_ok_keep [OF tok, where i = i and y = "Some new"]) (simp_all add: set_record_def i same(1))
  moreover have "accounts_ok (rg_owners r) ?xs"
  proof -
    have "\<exists>k < length (rg_owners r). \<exists>acc. rg_owners r ! k = Some acc \<and> oa_owner acc = pn_owner x"
      if "Some x \<in> set ?xs" for x
    proof -
      have "Some x \<in> set (rg_records r) \<or> pn_owner x = pn_owner rec"
        using set_list_update_cases [OF that] owner by auto
      moreover have "Some rec \<in> set (rg_records r)" using i by (metis nth_mem)
      ultimately show ?thesis using ok unfolding reg_ok_def accounts_ok_def by metis
    qed
    then show ?thesis using ok unfolding reg_ok_def accounts_ok_def led by blast
  qed
  moreover have "\<forall>rec. Some rec \<in> set ?xs \<longrightarrow> record_ok (rg_page_size r) rec"
    using ok new by (intro records_update) (auto simp: reg_ok_def)
  moreover have "exclusive ?xs"
    using ok same by (intro exclusive_weaken [OF _ i fence]) (auto simp: reg_ok_def)
  ultimately show ?thesis using reg_okD [OF ok] unfolding reg_ok_def by (auto simp: set_record_def led)
qed

section \<open>Reserving\<close>

lemma pin_reserve_Inl: "pin_reserve r request a = (r', Inl e) \<Longrightarrow> r' = r"
  by (auto simp: pin_reserve_def allocate_token_def Let_def split: sum.splits option.splits prod.splits)

lemma reserve_plan_Inr:
  assumes "reserve_plan r request a = Inr (pages, oi, ri, charge, new_owner, new_global)"
  shows "rg_state r = RegOpen" and "covering (rq_range request) (rg_page_size r) = Inr pages"
    and "validate_overlap r request pages a = Inr ()" and "owner_index r (rq_owner request) = Some oi"
    and "position (\<lambda>x. x = None) (rg_records r) = Some ri"
    and "charge = \<lparr>pa_pages = page_count pages, pa_bytes = pr_len pages, pa_tokens = 1\<rparr>"
    and "new_owner = pa_plus (oa_usage (the (rg_owners r ! oi))) charge"
    and "new_global = pa_plus (rg_global_usage r) charge"
    and "admits (oa_quota (the (rg_owners r ! oi))) new_owner" and "admits (rg_global_quota r) new_global"
  using assms
  by (auto simp: reserve_plan_def Let_def ensure_open_def pa_for_range_def dest!: pa_checked_add_Inr
      split: if_splits registry_state.splits)

lemma pin_reserve_Inr:
  assumes "pin_reserve r request a = (r', Inr t)"
  obtains pages oi ri charge new_owner new_global where
    "reserve_plan r request a = Inr (pages, oi, ri, charge, new_owner, new_global)"
    "rg_next_token r = Some t"
    "r' = (set_owner_usage (r\<lparr>rg_next_token := next_token t\<rparr>) oi new_owner)
       \<lparr>rg_global_usage := new_global,
        rg_records := (rg_records r)[ri := Some (new_record t request a pages charge)]\<rparr>"
  using assms
  by (auto simp: pin_reserve_def allocate_token_def set_owner_usage_def Let_def split: sum.splits option.splits)

lemma pin_reserve_ok:
  assumes ok: "reg_ok r" and rng: "range_ok (rq_range request)"
    and res: "pin_reserve r request a = (r', Inr t)"
  shows "reg_ok r' \<and> rg_next_token r = Some t \<and> rg_next_token r' = next_token t \<and> rg_state r' = rg_state r \<and>
    (\<exists>i rec. i < length (rg_records r) \<and> rg_records r ! i = None \<and> pn_token rec = t \<and> pn_state rec = RsReserved \<and>
       pn_request rec = request \<and> pn_validated_until rec = pr_start (pn_range rec) \<and>
       pn_validated_mappings rec = 0 \<and> rg_records r' = (rg_records r)[i := Some rec])"
proof -
  from res obtain pages oi ri charge new_owner new_global where
    plan: "reserve_plan r request a = Inr (pages, oi, ri, charge, new_owner, new_global)" and
    tok: "rg_next_token r = Some t" and
    r': "r' = (set_owner_usage (r\<lparr>rg_next_token := next_token t\<rparr>) oi new_owner)
       \<lparr>rg_global_usage := new_global,
        rg_records := (rg_records r)[ri := Some (new_record t request a pages charge)]\<rparr>"
    by (rule pin_reserve_Inr)
  note plan = reserve_plan_Inr [OF plan]
  let ?rec = "new_record t request a pages charge"
  let ?xs = "(rg_records r)[ri := Some ?rec]"
  have ri: "ri < length (rg_records r)" "rg_records r ! ri = None" using free_index_Some [OF plan(5)] by auto
  from key_index_Some [OF plan(4) [unfolded owner_index_def]] obtain acc where
    oi: "oi < length (rg_owners r)" "rg_owners r ! oi = Some acc" "oa_owner acc = pn_owner ?rec"
    by (auto simp: new_record_def pn_owner_def)
  have pages: "pages_ok pages" "pr_page_size pages = rg_page_size r" "range_contains (pr_range pages) (rq_range request)"
    using covering_ok [OF rng reg_okD(1) [OF ok] plan(2)] by auto
  have rec: "record_ok (rg_page_size r) ?rec"
    using pages pages_okD(1) [OF pages(1)] by (simp add: record_ok_def new_record_def plan(6))
  have "tokens_ok r'"
    by (rule tokens_ok_fresh [OF reg_okD(2) [OF ok] tok, where rec = ?rec and i = ri])
      (simp_all add: r' new_record_def set_owner_usage_def)
  moreover have "rg_global_usage r' = pa_total (ledger ?xs)"
    using reg_okD(3) [OF ok] ledger_insert(1) [OF ri] by (simp add: r' plan(8) pa_total_add new_record_def)
  moreover have "accounts_ok (rg_owners r') ?xs"
    using accounts_insert [OF reg_okD(5) [OF ok] oi ri] plan(9)
    by (simp add: r' plan(7) oi(2) new_record_def set_owner_usage_def)
  moreover have "\<forall>rec. Some rec \<in> set ?xs \<longrightarrow> record_ok (rg_page_size r) rec"
    using reg_okD(6) [OF ok] rec by (intro records_update) auto
  moreover have "exclusive ?xs"
  proof (rule exclusive_insert [OF reg_okD(7) [OF ok]])
    fix b j assume "j < length (rg_records r)" "j \<noteq> ri" "rg_records r ! j = Some b"
    then have "b \<in> set (live_records r)" by (auto simp: live_records_def set_flatten_nth)
    then show "\<not> conflict ?rec b"
      using plan(3)
      by (auto simp: validate_overlap_def conflict_def new_record_def list_ex_iff pages_overlap_iff split: if_splits)
  qed
  ultimately have "reg_ok r'"
    using reg_okD(1) [OF ok] plan(10) unfolding reg_ok_def by (simp add: r' set_owner_usage_def)
  moreover have "pn_token ?rec = t" "pn_state ?rec = RsReserved" "pn_request ?rec = request"
    "pn_validated_until ?rec = pr_start (pn_range ?rec)" "pn_validated_mappings ?rec = 0"
    by (simp_all add: new_record_def)
  moreover have "rg_records r' = ?xs" "rg_next_token r' = next_token t" "rg_state r' = rg_state r"
    by (simp_all add: r' set_owner_usage_def)
  ultimately show ?thesis using tok ri by blast
qed

section \<open>Every operation keeps the invariant\<close>

definition live_tokens :: "pin_registry \<Rightarrow> nat set" where
  "live_tokens r = {pn_token rec | rec. Some rec \<in> set (rg_records r)}"

text \<open>What a transition may do: keep the invariant, and hold only old tokens or newly issued ones.\<close>

definition evolves :: "pin_registry \<Rightarrow> pin_registry \<Rightarrow> bool" where
  "evolves r r' \<longleftrightarrow> reg_ok r' \<and> token_bound (rg_next_token r) \<le> token_bound (rg_next_token r') \<and>
     (\<forall>t \<in> live_tokens r'. t \<in> live_tokens r \<or> token_bound (rg_next_token r) \<le> t)"

lemma evolves_refl: "reg_ok r \<Longrightarrow> evolves r r"
  by (simp add: evolves_def)

lemma evolves_trans: "evolves a b \<Longrightarrow> evolves b c \<Longrightarrow> evolves a c"
  unfolding evolves_def by (meson order_trans)

lemma live_tokens_update:
  "rg_records r' = (rg_records r)[i := y] \<Longrightarrow> live_tokens r' \<subseteq> live_tokens r \<union> {pn_token rec | rec. y = Some rec}"
  using set_list_update_cases by (fastforce simp: live_tokens_def)

lemma evolves_same:
  "reg_ok r' \<Longrightarrow> rg_next_token r' = rg_next_token r \<Longrightarrow> rg_records r' = rg_records r \<Longrightarrow> evolves r r'"
  by (simp add: evolves_def live_tokens_def)

lemma pin_reserve_evolves:
  assumes "reg_ok r" and "range_ok (rq_range request)" and "pin_reserve r request a = (r', res)"
  shows "evolves r r'"
proof (cases res)
  case (Inl e)
  then show ?thesis using assms pin_reserve_Inl evolves_refl by blast
next
  case (Inr t)
  with pin_reserve_ok [OF assms(1,2)] assms(3) obtain i rec where
    r': "reg_ok r'" "rg_next_token r = Some t" "rg_next_token r' = next_token t" "pn_token rec = t"
      "rg_records r' = (rg_records r)[i := Some rec]" by blast
  have "t \<le> u64_max" using reg_okD(2) [OF assms(1)] r'(2) by (simp add: tokens_ok_def)
  then show ?thesis
    using r' live_tokens_update [OF r'(5)] by (auto simp: evolves_def token_bound_next)
qed

lemma remove_record_evolves:
  assumes "reg_ok r" and "i < length (rg_records r)" and "rg_records r ! i = Some rec"
    and "remove_record r i = (r', res)"
  shows "res = Inr () \<and> evolves r r' \<and> rg_records r' = (rg_records r)[i := None] \<and> rg_state r' = rg_state r"
proof -
  have r': "res = Inr ()" "reg_ok r'" "rg_records r' = (rg_records r)[i := None]" "rg_state r' = rg_state r"
    "rg_next_token r' = rg_next_token r"
    using remove_record_ok [OF assms(1-3)] assms(4) by auto
  with live_tokens_update [OF r'(3)] show ?thesis by (auto simp: evolves_def)
qed

lemma set_record_evolves:
  assumes "i < length (rg_records r)" and "rg_records r ! i = Some rec" and "pn_token new = pn_token rec"
    and "reg_ok (set_record r i new)"
  shows "evolves r (set_record r i new)"
proof -
  have "pn_token rec \<in> live_tokens r" using assms(1,2) by (auto simp: live_tokens_def) (metis nth_mem)
  moreover have "live_tokens (set_record r i new) \<subseteq> live_tokens r \<union> {pn_token new}"
    using live_tokens_update [of "set_record r i new" r i "Some new"] by (auto simp: set_record_def)
  ultimately show ?thesis using assms(3,4) by (auto simp: evolves_def set_record_def)
qed

lemma pin_cancel_evolves:
  assumes "reg_ok r" and "pin_cancel r t = (r', res)"
  shows "evolves r r'"
proof (cases "record_index r t")
  case (Some i)
  then obtain rec where i: "i < length (rg_records r)" "rg_records r ! i = Some rec" using record_index_Some by blast
  show ?thesis
  proof (cases "pn_state rec = RsReserved")
    case True
    then have "remove_record r i = (r', res)" using assms(2) Some i by (simp add: pin_cancel_def)
    with remove_record_evolves [OF assms(1) i] show ?thesis by blast
  qed (use assms Some i evolves_refl in \<open>simp add: pin_cancel_def\<close>)
qed (use assms evolves_refl in \<open>simp add: pin_cancel_def\<close>)

lemma pin_release_evolves:
  assumes "reg_ok r" and "pin_release r t = (r', res)"
  shows "evolves r r'"
proof (cases "record_index r t")
  case (Some i)
  then obtain rec where i: "i < length (rg_records r)" "rg_records r ! i = Some rec" using record_index_Some by blast
  show ?thesis
  proof (cases "pn_state rec = RsActive")
    case True
    then have "remove_record r i = (r', res)" using assms(2) Some i by (simp add: pin_release_def)
    with remove_record_evolves [OF assms(1) i] show ?thesis by blast
  qed (use assms Some i evolves_refl in \<open>simp add: pin_release_def\<close>)
qed (use assms evolves_refl in \<open>simp add: pin_release_def\<close>)

lemma pin_commit_evolves:
  assumes ok: "reg_ok r" and res: "pin_commit r t = (r', res)"
  shows "evolves r r'"
proof (cases "record_index r t")
  case (Some i)
  then obtain rec where i: "i < length (rg_records r)" "rg_records r ! i = Some rec" using record_index_Some by blast
  show ?thesis
  proof (cases "pn_state rec \<noteq> RsReserved \<or> pn_validated_until rec \<noteq> pr_end (pn_range rec) \<or> pn_validated_mappings rec = 0")
    case True
    then show ?thesis using res Some i evolves_refl [OF ok] by (auto simp: pin_commit_def Let_def split: if_splits)
  next
    case False
    let ?new = "rec\<lparr>pn_state := RsActive\<rparr>"
    have r': "r' = set_record r i ?new" using res Some i False by (simp add: pin_commit_def)
    have "record_ok (rg_page_size r) rec" using reg_okD(6) [OF ok] i by (metis nth_mem)
    then have "record_ok (rg_page_size r) ?new" using False by (simp add: record_ok_def)
    then have "reg_ok (set_record r i ?new)"
      using False by (intro set_record_ok [OF ok i]) (simp_all add: fences_def)
    then show ?thesis unfolding r' by (intro set_record_evolves [OF i]) simp_all
  qed
qed (use res evolves_refl [OF ok] in \<open>simp add: pin_commit_def\<close>)

lemma validate_segment_Inr:
  assumes "validate_segment r rec ex current covered = Inr ()"
  shows "pr_start covered = pn_validated_until rec \<and> pages_contain (pn_range rec) covered"
  using assms by (auto simp: validate_segment_def split: if_splits)

lemma revalidate_next_evolves:
  assumes ok: "reg_ok r" and cov: "pages_ok covered" and res: "revalidate_next r t ex current covered = (r', res)"
  shows "evolves r r'"
proof (cases "record_index r t")
  case (Some i)
  then obtain rec where i: "i < length (rg_records r)" "rg_records r ! i = Some rec" using record_index_Some by blast
  have rec: "record_ok (rg_page_size r) rec" using reg_okD(6) [OF ok] i by (metis nth_mem)
  consider (wrong) "pn_state rec \<noteq> RsReserved"
    | (failed) e where "pn_state rec = RsReserved" "validate_segment r rec ex current covered = Inl e"
    | (passed) "pn_state rec = RsReserved" "validate_segment r rec ex current covered = Inr ()"
    by (cases "validate_segment r rec ex current covered") auto
  then show ?thesis
  proof cases
    case wrong
    then show ?thesis using res Some i evolves_refl [OF ok] by (simp add: revalidate_next_def)
  next
    case failed
    obtain r1 res1 where rm: "remove_record r i = (r1, res1)" by fastforce
    from remove_record_evolves [OF ok i rm] failed show ?thesis
      using res Some i rm by (auto simp: revalidate_next_def)
  next
    case passed
    note seg = validate_segment_Inr [OF passed(2)]
    let ?rec1 = "rec\<lparr>pn_validated_until := pr_end covered\<rparr>"
    have ends: "pr_start covered < pr_end covered" "pr_end covered \<le> pr_end (pn_range rec)"
      using pages_okD(1) [OF cov] seg by (simp_all add: pages_contain_iff)
    have "record_ok (rg_page_size r) (?rec1\<lparr>pn_validated_mappings := n\<rparr>)"
      if "n \<noteq> 0" "n \<le> Suc (pn_validated_mappings rec)" for n
      using rec seg ends that passed(1) by (auto simp: record_ok_def)
    then have keep: "evolves r (set_record r i (?rec1\<lparr>pn_validated_mappings := n\<rparr>))"
      if "n \<noteq> 0" "n \<le> Suc (pn_validated_mappings rec)" for n
      using that by (intro set_record_evolves [OF i] set_record_ok [OF ok i]) (auto simp: fences_def)
    show ?thesis
    proof (cases "checked_add usize_max (pn_validated_mappings rec) 1")
      case None
      then have "pn_validated_mappings rec \<noteq> 0" by (auto simp: checked_iffs usize_max_def)
      then show ?thesis
        using keep [of "pn_validated_mappings rec"] res Some i passed None by (simp add: revalidate_next_def Let_def)
    next
      case (Some n)
      then have "n \<noteq> 0" "n \<le> Suc (pn_validated_mappings rec)" by (auto simp: checked_iffs)
      then show ?thesis
        using keep [of n] res \<open>record_index r t = Some i\<close> i passed Some by (simp add: revalidate_next_def Let_def)
    qed
  qed
qed (use res evolves_refl [OF ok] in \<open>simp add: revalidate_next_def\<close>)

section \<open>Owners and lifecycle\<close>

lemma accounts_configure_new:
  assumes ok: "accounts_ok os xs" and i: "i < length os" "os ! i = None"
    and new: "\<forall>a. Some a \<in> set os \<longrightarrow> oa_owner a \<noteq> owner"
  shows "accounts_ok (os[i := Some \<lparr>oa_owner = owner, oa_quota = quota, oa_usage = pa_zero\<rparr>]) xs"
proof -
  let ?acc = "\<lparr>oa_owner = owner, oa_quota = quota, oa_usage = pa_zero\<rparr>" and ?os = "os[i := Some \<lparr>oa_owner = owner, oa_quota = quota, oa_usage = pa_zero\<rparr>]"
  have "pn_owner rec \<noteq> owner" if "Some rec \<in> set xs" for rec
    using ok that new unfolding accounts_ok_def by (metis nth_mem)
  then have empty: "ledger_of owner xs = {#}"
    by (auto simp: ledger_of_def set_flatten filter_mset_eq_conv)
  have "distinct_keys (map_option oa_owner) ?os"
    using ok new by (intro distinct_keys_update) (auto simp: accounts_ok_def, metis nth_mem)
  moreover have "oa_usage a = pa_total (ledger_of (oa_owner a) xs) \<and> admits (oa_quota a) (oa_usage a)"
    if "k < length ?os" "?os ! k = Some a" for k a
  proof (cases "k = i")
    case True
    then have "a = ?acc" using that i by simp
    then show ?thesis by (simp add: empty)
  next
    case False
    then show ?thesis using ok that unfolding accounts_ok_def by (metis length_list_update nth_list_update_neq)
  qed
  moreover have "\<exists>k < length ?os. \<exists>a. ?os ! k = Some a \<and> oa_owner a = pn_owner rec" if mem: "Some rec \<in> set xs" for rec
  proof -
    from ok mem obtain k a where k: "k < length os" "os ! k = Some a" "oa_owner a = pn_owner rec"
      unfolding accounts_ok_def by blast
    then have "k \<noteq> i" using i by auto
    then show ?thesis using k by (intro exI [of _ k]) simp
  qed
  ultimately show ?thesis unfolding accounts_ok_def by blast
qed

lemma accounts_requota:
  assumes ok: "accounts_ok os xs" and i: "i < length os" "os ! i = Some acc" and q: "admits quota (oa_usage acc)"
  shows "accounts_ok (os[i := Some (acc\<lparr>oa_quota := quota\<rparr>)]) xs"
proof -
  let ?os = "os[i := Some (acc\<lparr>oa_quota := quota\<rparr>)]"
  have "distinct_keys (map_option oa_owner) ?os"
    using ok i by (intro distinct_keys_update_keep) (simp_all add: accounts_ok_def)
  moreover have "oa_usage a = pa_total (ledger_of (oa_owner a) xs) \<and> admits (oa_quota a) (oa_usage a)"
    if "k < length ?os" "?os ! k = Some a" for k a
  proof (cases "k = i")
    case True
    then have "a = acc\<lparr>oa_quota := quota\<rparr>" using that i by simp
    moreover have "oa_usage acc = pa_total (ledger_of (oa_owner acc) xs)" using ok i unfolding accounts_ok_def by metis
    ultimately show ?thesis using q by simp
  next
    case False
    then show ?thesis using ok that unfolding accounts_ok_def by (metis length_list_update nth_list_update_neq)
  qed
  moreover have "\<exists>k < length ?os. \<exists>a. ?os ! k = Some a \<and> oa_owner a = pn_owner rec" if mem: "Some rec \<in> set xs" for rec
  proof -
    from ok mem obtain k a where k: "k < length os" "os ! k = Some a" "oa_owner a = pn_owner rec"
      unfolding accounts_ok_def by blast
    then show ?thesis using i by (cases "k = i") (auto intro!: exI [of _ k])
  qed
  ultimately show ?thesis unfolding accounts_ok_def by blast
qed

lemma configure_owner_evolves:
  assumes ok: "reg_ok r" and res: "configure_owner r owner quota = (r', res)"
  shows "evolves r r' \<and> rg_records r' = rg_records r"
proof -
  have keep: "evolves r (r\<lparr>rg_owners := os\<rparr>)" if "accounts_ok os (rg_records r)" for os
    using reg_okD [OF ok] that by (intro evolves_same) (simp_all add: reg_ok_def tokens_ok_def)
  show ?thesis
  proof (cases "owner_index r owner")
    case (Some i)
    then obtain acc where i: "i < length (rg_owners r)" "rg_owners r ! i = Some acc" "oa_owner acc = owner"
      using key_index_Some unfolding owner_index_def by metis
    have acc: "oa_usage acc = pa_total (ledger_of owner (rg_records r))"
      using reg_okD(5) [OF ok] i unfolding accounts_ok_def by metis
    have "accounts_ok ((rg_owners r)[i := Some (acc\<lparr>oa_quota := quota\<rparr>)]) (rg_records r)"
      if "admits quota (oa_usage acc)"
      using accounts_requota [OF reg_okD(5) [OF ok] i(1,2) that] .
    then show ?thesis
      using res Some i keep evolves_refl [OF ok]
      by (auto simp: configure_owner_def Let_def split: sum.splits if_splits)
  next
    case None
    then have "\<forall>a. Some a \<in> set (rg_owners r) \<longrightarrow> oa_owner a \<noteq> owner"
      unfolding owner_index_def key_index_None .
    then have "accounts_ok ((rg_owners r)[i := Some \<lparr>oa_owner = owner, oa_quota = quota, oa_usage = pa_zero\<rparr>]) (rg_records r)"
      if "position (\<lambda>a. a = None) (rg_owners r) = Some i" for i
      using accounts_configure_new [OF reg_okD(5) [OF ok]] free_index_Some [OF that] by blast
    then show ?thesis
      using res None keep evolves_refl [OF ok]
      by (auto simp: configure_owner_def Let_def split: sum.splits option.splits if_splits)
  qed
qed

lemma ledger_of_empty_iff: "ledger_of ow xs = {#} \<longleftrightarrow> (\<forall>rec. Some rec \<in> set xs \<longrightarrow> pn_owner rec \<noteq> ow)"
proof -
  have "filter_mset P M = {#} \<longleftrightarrow> (\<forall>x \<in># M. \<not> P x)" for P and M :: "pin_record multiset"
    by (induction M) auto
  then show ?thesis by (simp add: ledger_of_def set_flatten Ball_def)
qed

lemma accounts_drop_owner:
  assumes ok: "accounts_ok os xs" and i: "i < length os" "os ! i = Some acc"
    and unused: "ledger_of (oa_owner acc) xs = {#}"
  shows "accounts_ok (os[i := None]) xs"
proof -
  have none: "pn_owner rec \<noteq> oa_owner acc" if "Some rec \<in> set xs" for rec
    using unused that by (simp add: ledger_of_empty_iff)
  have "distinct_keys (map_option oa_owner) (os[i := None])"
    using ok i by (intro distinct_keys_update_keep) (simp_all add: accounts_ok_def)
  moreover have "oa_usage a = pa_total (ledger_of (oa_owner a) xs) \<and> admits (oa_quota a) (oa_usage a)"
    if "k < length (os[i := None])" "os[i := None] ! k = Some a" for k a
    using ok that i unfolding accounts_ok_def
    by (metis length_list_update nth_list_update_eq nth_list_update_neq option.distinct(1))
  moreover have "\<exists>k < length (os[i := None]). \<exists>a. os[i := None] ! k = Some a \<and> oa_owner a = pn_owner rec"
    if mem: "Some rec \<in> set xs" for rec
  proof -
    from ok mem obtain k a where k: "k < length os" "os ! k = Some a" "oa_owner a = pn_owner rec"
      unfolding accounts_ok_def by blast
    then have "k \<noteq> i" using none [OF mem] i by auto
    then show ?thesis using k by (intro exI [of _ k]) simp
  qed
  ultimately show ?thesis unfolding accounts_ok_def by blast
qed

lemma zero_total_empty:
  assumes "\<forall>rec. Some rec \<in> set xs \<longrightarrow> record_ok p rec" and "pa_total (ledger_of ow xs) = pa_zero"
  shows "ledger_of ow xs = {#}"
proof (rule ccontr)
  assume "ledger_of ow xs \<noteq> {#}"
  then obtain rec where "Some rec \<in> set xs" and "pn_charge rec \<in># ledger_of ow xs"
    by (auto simp: ledger_of_empty_iff) (auto simp: ledger_of_def set_flatten)
  moreover from this assms(1) have "pa_tokens (pn_charge rec) = 1" by (simp add: record_ok_def)
  ultimately show False using assms(2) by (auto simp: pa_total_def pa_zero_def)
qed

lemma remove_owner_evolves:
  assumes ok: "reg_ok r" and res: "remove_owner r owner = (r', res)"
  shows "evolves r r' \<and> rg_records r' = rg_records r"
proof (cases "\<exists>i. owner_index r owner = Some i \<and> r' = r\<lparr>rg_owners := (rg_owners r)[i := None]\<rparr> \<and>
    oa_usage (the (rg_owners r ! i)) = pa_zero")
  case True
  then obtain i where idx: "owner_index r owner = Some i" and r': "r' = r\<lparr>rg_owners := (rg_owners r)[i := None]\<rparr>"
    and zero: "oa_usage (the (rg_owners r ! i)) = pa_zero" by blast
  from key_index_Some [OF idx [unfolded owner_index_def]] obtain acc where
    i: "i < length (rg_owners r)" "rg_owners r ! i = Some acc" "oa_owner acc = owner" by blast
  have "oa_usage acc = pa_total (ledger_of owner (rg_records r))"
    using reg_okD(5) [OF ok] i unfolding accounts_ok_def by metis
  then have "ledger_of (oa_owner acc) (rg_records r) = {#}"
    using zero_total_empty [OF reg_okD(6) [OF ok]] zero i by simp
  then have "accounts_ok ((rg_owners r)[i := None]) (rg_records r)"
    using accounts_drop_owner [OF reg_okD(5) [OF ok] i(1,2)] by blast
  then have "reg_ok r'" using reg_okD [OF ok] by (simp add: reg_ok_def tokens_ok_def r')
  then show ?thesis by (auto intro!: evolves_same simp: r')
next
  case False
  then have "r' = r" using res by (auto simp: remove_owner_def split: sum.splits option.splits if_splits)
  then show ?thesis using evolves_refl [OF ok] by simp
qed

lemma reg_ok_state: "reg_ok (r\<lparr>rg_state := st\<rparr>) = reg_ok r"
  by (simp add: reg_ok_def tokens_ok_def)

lemma evolves_state: "evolves (r\<lparr>rg_state := st\<rparr>) r' = evolves r r'" "evolves r (r'\<lparr>rg_state := st\<rparr>) = evolves r r'"
  by (simp_all add: evolves_def live_tokens_def reg_ok_state)

text \<open>The teardown loop removes exactly the reserved records of the visited slots and never fails.\<close>

lemma cancel_reserved_ok:
  assumes "reg_ok r" and "set is \<subseteq> {..< length (rg_records r)}" and "distinct is"
    and "n + length is \<le> usize_max"
  shows "\<exists>r'. cancel_reserved is r n =
      (r', Inr (n + length (filter (\<lambda>i. \<exists>rec. rg_records r ! i = Some rec \<and> pn_state rec = RsReserved) is))) \<and>
    evolves r r' \<and> rg_state r' = rg_state r \<and> length (rg_records r') = length (rg_records r) \<and>
    (\<forall>k < length (rg_records r). rg_records r' ! k =
       (if k \<in> set is \<and> (\<exists>rec. rg_records r ! k = Some rec \<and> pn_state rec = RsReserved) then None
        else rg_records r ! k))"
  using assms
proof (induction "is" arbitrary: r n)
  case Nil
  then show ?case using evolves_refl by simp
next
  case (Cons i ks)
  let ?res = "\<lambda>r k. \<exists>rec. rg_records r ! k = Some rec \<and> pn_state rec = RsReserved"
  have i: "i < length (rg_records r)" "i \<notin> set ks" using Cons.prems by auto
  show ?case
  proof (cases "?res r i")
    case True
    then obtain rec where rec: "rg_records r ! i = Some rec" "pn_state rec = RsReserved" by blast
    obtain r1 res1 where rm: "remove_record r i = (r1, res1)" by fastforce
    note r1 = remove_record_evolves [OF Cons.prems(1) i(1) rec(1) rm]
    have same: "?res r1 k \<longleftrightarrow> ?res r k" if "k \<in> set ks" for k using r1 that i(2) by (metis nth_list_update_neq)
    have "reg_ok r1" "set ks \<subseteq> {..< length (rg_records r1)}" "distinct ks" "Suc n + length ks \<le> usize_max"
      using r1 Cons.prems by (auto simp: evolves_def)
    from Cons.IH [OF this] obtain r' where
      r': "cancel_reserved ks r1 (Suc n) = (r', Inr (Suc n + length (filter (?res r1) ks)))" "evolves r1 r'"
        "rg_state r' = rg_state r1" "length (rg_records r') = length (rg_records r1)"
        "\<forall>k < length (rg_records r1). rg_records r' ! k = (if k \<in> set ks \<and> ?res r1 k then None else rg_records r1 ! k)"
      by blast
    have "filter (?res r1) ks = filter (?res r) ks" using same by (intro filter_cong) auto
    moreover have "cancel_reserved (i # ks) r n = cancel_reserved ks r1 (Suc n)"
      using rec rm r1 Cons.prems(4) by (simp add: checked_add_def)
    moreover have "rg_records r' ! k = (if k \<in> set (i # ks) \<and> ?res r k then None else rg_records r ! k)"
      if "k < length (rg_records r)" for k
      using r'(5) r1 that same [of k] True i(2) by (cases "k = i") auto
    ultimately show ?thesis
      using r' r1 True evolves_trans by (intro exI [of _ r']) auto
  next
    case False
    then have skip: "cancel_reserved (i # ks) r n = cancel_reserved ks r n" by (auto split: option.splits)
    have "set ks \<subseteq> {..< length (rg_records r)}" "distinct ks" "n + length ks \<le> usize_max"
      using Cons.prems by auto
    from Cons.IH [OF Cons.prems(1) this] obtain r' where
      r': "cancel_reserved ks r n = (r', Inr (n + length (filter (?res r) ks)))" "evolves r r'"
        "rg_state r' = rg_state r" "length (rg_records r') = length (rg_records r)"
        "\<forall>k < length (rg_records r). rg_records r' ! k = (if k \<in> set ks \<and> ?res r k then None else rg_records r ! k)"
      by blast
    then show ?thesis unfolding skip using False by (intro exI [of _ r']) auto
  qed
qed

definition surviving :: "pin_record option \<Rightarrow> pin_record option" where
  "surviving x = (case x of Some rec \<Rightarrow> if pn_state rec = RsReserved then None else Some rec | None \<Rightarrow> None)"

lemma surviving_Some: "surviving x = Some rec \<longleftrightarrow> x = Some rec \<and> pn_state rec = RsActive"
  by (cases "pn_state rec") (auto simp: surviving_def split: option.splits if_splits)

lemma begin_teardown_ok:
  assumes ok: "reg_ok r" and open': "rg_state r \<noteq> RegClosed" and size: "length (rg_records r) \<le> usize_max"
  shows "\<exists>r'. begin_teardown r = (r', Inr \<lparr>td_cancelled_reservations = reserved_count r, td_active_remaining = active_count r\<rparr>) \<and>
    evolves r r' \<and> rg_state r' = RegTearingDown \<and> rg_records r' = map surviving (rg_records r)"
proof -
  let ?r = "r\<lparr>rg_state := RegTearingDown\<rparr>" and ?is = "[0 ..< length (rg_records r)]"
  let ?res = "\<lambda>x. case x of Some rec \<Rightarrow> pn_state rec = RsReserved | None \<Rightarrow> False"
  have ok': "reg_ok ?r" using ok by (simp add: reg_ok_state)
  have "set ?is \<subseteq> {..< length (rg_records ?r)}" "0 + length ?is \<le> usize_max" using size by auto
  from cancel_reserved_ok [OF ok' this(1) distinct_upt this(2)] obtain r' where
    r': "cancel_reserved ?is ?r 0 =
        (r', Inr (0 + length (filter (\<lambda>i. \<exists>rec. rg_records ?r ! i = Some rec \<and> pn_state rec = RsReserved) ?is)))"
      "evolves ?r r'" "rg_state r' = rg_state ?r" "length (rg_records r') = length (rg_records ?r)"
      "\<forall>k < length (rg_records ?r). rg_records r' ! k =
        (if k \<in> set ?is \<and> (\<exists>rec. rg_records ?r ! k = Some rec \<and> pn_state rec = RsReserved) then None
         else rg_records ?r ! k)"
    by blast
  have nth: "rg_records r' ! k = surviving (rg_records r ! k)" if "k < length (rg_records r)" for k
    using r'(5) that by (auto simp: surviving_def split: option.splits)
  then have recs: "rg_records r' = map surviving (rg_records r)" using r'(4) by (intro nth_equalityI) simp_all
  have "filter (\<lambda>rec. pn_state rec = RsActive) (flatten (map surviving xs)) = filter (\<lambda>rec. pn_state rec = RsActive) (flatten xs)"
    for xs :: "pin_record option list" by (induction xs rule: flatten.induct) (auto simp: surviving_def intro: record_state.exhaust)
  then have act: "active_count r' = active_count r" by (simp add: active_count_def live_records_def recs)
  have "length (filter ?res xs) = length (filter (\<lambda>rec. pn_state rec = RsReserved) (flatten xs))"
    for xs :: "pin_record option list"
    by (induction xs rule: flatten.induct) simp_all
  moreover have "length (filter (\<lambda>i. ?res (rg_records r ! i)) ?is) = length (filter ?res (rg_records r))"
    using filter_map [of ?res "\<lambda>i. rg_records r ! i" ?is] by (metis (no_types, lifting) comp_def filter_cong length_map map_nth)
  moreover have "filter (\<lambda>i. \<exists>rec. rg_records r ! i = Some rec \<and> pn_state rec = RsReserved) ?is =
      filter (\<lambda>i. ?res (rg_records r ! i)) ?is"
    by (intro filter_cong) (auto split: option.splits)
  ultimately have res: "length (filter (\<lambda>i. \<exists>rec. rg_records r ! i = Some rec \<and> pn_state rec = RsReserved) ?is) = reserved_count r"
    by (simp add: reserved_count_def live_records_def)
  have "begin_teardown r = (r', Inr \<lparr>td_cancelled_reservations = reserved_count r, td_active_remaining = active_count r\<rparr>)"
    using open' r'(1) by (simp add: begin_teardown_def res act)
  with r' recs show ?thesis by (auto simp: evolves_state)
qed

section \<open>Histories\<close>

text \<open>
  One call on the registry, labelled with the mapping segments it accepted: a revalidation that
  succeeds accepts one, every other call none. Requests and covered segments carry the ranges
  their types allow, and the table has at most \<open>usize::MAX\<close> slots.
\<close>

record pin_segment =
  sg_token :: nat
  sg_expected :: expected_mapping
  sg_current :: mapping_snapshot
  sg_covered :: page_range

inductive reg_call :: "pin_registry \<Rightarrow> pin_segment list \<Rightarrow> pin_registry \<Rightarrow> bool" where
  st_configure: "configure_owner r owner quota = (r', res) \<Longrightarrow> reg_call r [] r'"
| st_remove_owner: "remove_owner r owner = (r', res') \<Longrightarrow> reg_call r [] r'"
| st_reserve: "range_ok (rq_range request) \<Longrightarrow> pin_reserve r request space = (r', res'') \<Longrightarrow> reg_call r [] r'"
| st_revalidate: "pages_ok covered \<Longrightarrow> revalidate_next r token ex current covered = (r', Inr ()) \<Longrightarrow>
    reg_call r [\<lparr>sg_token = token, sg_expected = ex, sg_current = current, sg_covered = covered\<rparr>] r'"
| st_revalidate_failed: "pages_ok covered \<Longrightarrow> revalidate_next r token ex current covered = (r', Inl e) \<Longrightarrow>
    reg_call r [] r'"
| st_commit: "pin_commit r token = (r', res'') \<Longrightarrow> reg_call r [] r'"
| st_cancel: "pin_cancel r token = (r', res) \<Longrightarrow> reg_call r [] r'"
| st_release: "pin_release r token = (r', res) \<Longrightarrow> reg_call r [] r'"
| st_close: "begin_close r = (r', pres) \<Longrightarrow> reg_call r [] r'"
| st_teardown: "length (rg_records r) \<le> usize_max \<Longrightarrow> begin_teardown r = (r', tres) \<Longrightarrow> reg_call r [] r'"
| st_finish: "finish_teardown r = (r', res) \<Longrightarrow> reg_call r [] r'"

definition reg_step :: "pin_registry \<Rightarrow> pin_registry \<Rightarrow> bool" where
  "reg_step r r' \<longleftrightarrow> (\<exists>segs. reg_call r segs r')"

lemma reg_call_evolves: "reg_call r segs r' \<Longrightarrow> reg_ok r \<Longrightarrow> evolves r r'"
proof (induction rule: reg_call.induct)
  case (st_close r r' pres)
  then show ?case using evolves_refl by (auto simp: begin_close_def evolves_state split: registry_state.splits)
next
  case (st_teardown r r' tres)
  show ?case
  proof (cases "rg_state r = RegClosed")
    case True
    then show ?thesis using st_teardown evolves_refl by (simp add: begin_teardown_def)
  next
    case False
    from begin_teardown_ok [OF st_teardown(3) False st_teardown(1)] st_teardown(2) show ?thesis by auto
  qed
next
  case (st_finish r r' res)
  then show ?case
    using evolves_refl by (auto simp: finish_teardown_def evolves_state split: registry_state.splits if_splits)
next
  case (st_configure r owner quota r' res)
  then show ?case using configure_owner_evolves by blast
next
  case (st_remove_owner r owner r' res')
  then show ?case using remove_owner_evolves by blast
next
  case (st_reserve request r space r' res'')
  then show ?case using pin_reserve_evolves by blast
next
  case (st_revalidate covered r token ex current r')
  then show ?case using revalidate_next_evolves by blast
next
  case (st_revalidate_failed covered r token ex current r' e)
  then show ?case using revalidate_next_evolves by blast
next
  case (st_commit r token r' res'')
  then show ?case using pin_commit_evolves by blast
next
  case (st_cancel r token r' res)
  then show ?case using pin_cancel_evolves by blast
next
  case (st_release r token r' res)
  then show ?case using pin_release_evolves by blast
qed

interpretation pins: generation_domain reg_ok reg_step "\<lambda>r t. t \<in> live_tokens r" id "\<lambda>r. token_bound (rg_next_token r)"
proof
  fix r r' :: pin_registry and t
  assume ok: "reg_ok r"
  show "t \<in> live_tokens r \<Longrightarrow> id t < token_bound (rg_next_token r)"
    using reg_okD(2) [OF ok] by (auto simp: live_tokens_def tokens_ok_def keys_below_def)
  assume "reg_step r r'"
  then have ev: "evolves r r'" using ok reg_call_evolves by (auto simp: reg_step_def)
  then show "reg_ok r'" "token_bound (rg_next_token r) \<le> token_bound (rg_next_token r')"
    by (simp_all add: evolves_def)
  show "t \<in> live_tokens r' \<Longrightarrow> t \<in> live_tokens r \<or> token_bound (rg_next_token r) \<le> id t"
    using ev by (auto simp: evolves_def)
qed

lemma registry_new_ok:
  "registry_new oc tc bytes quota first = Inr r \<Longrightarrow> first \<le> u64_max \<Longrightarrow> reg_ok r"
  by (auto simp: registry_new_def page_size_new_Inr nonzero_id_def reg_ok_def tokens_ok_def accounts_ok_def
      ledger_def exclusive_def split: if_splits)

lemma record_index_None: "record_index r t = None \<longleftrightarrow> t \<notin> live_tokens r"
  unfolding record_index_def key_index_None by (auto simp: live_tokens_def)

end
