(* ===== verification/Pin_Revalidation.thy ===== *)
theory Pin_Revalidation
  imports Pin_Registry_Safety
begin

text \<open>
  What the revalidation cursor of a pin record stands for. Along a run the segments accepted by
  \<open>revalidate_next\<close> are collected; for every live record those of its token tile the range from
  its start up to the cursor, one per counted mapping, and each of them names the current
  generation of a mapping of the record's address space that permits the requested access.
\<close>

section \<open>Runs with their accepted segments\<close>

inductive reg_run :: "pin_registry \<Rightarrow> pin_segment list \<Rightarrow> pin_registry \<Rightarrow> bool" for r0 where
  run_start: "reg_run r0 [] r0"
| run_call: "reg_run r0 segs r \<Longrightarrow> reg_call r acc r' \<Longrightarrow> reg_run r0 (segs @ acc) r'"

lemma reg_run_steps: "reg_run r0 segs r \<Longrightarrow> reg_step\<^sup>*\<^sup>* r0 r"
proof (induction rule: reg_run.induct)
  case (run_call segs r acc r')
  then have "reg_step r r'" by (auto simp: reg_step_def)
  with run_call.IH show ?case by (rule rtranclp.rtrancl_into_rtrancl)
qed simp

lemma steps_reg_run: "reg_step\<^sup>*\<^sup>* r0 r \<Longrightarrow> \<exists>segs. reg_run r0 segs r"
proof (induction rule: rtranclp_induct)
  case (step r r')
  then show ?case unfolding reg_step_def by (blast intro: run_call)
qed (blast intro: run_start)

definition segments_of :: "nat \<Rightarrow> pin_segment list \<Rightarrow> pin_segment list" where
  "segments_of t segs = filter (\<lambda>s. sg_token s = t) segs"

lemma segments_of_append [simp]: "segments_of t (xs @ ys) = segments_of t xs @ segments_of t ys"
  by (simp add: segments_of_def)

lemma segments_of_Nil [simp]: "segments_of t [] = []"
  by (simp add: segments_of_def)

lemma segments_of_none: "(\<And>s. s \<in> set segs \<Longrightarrow> sg_token s \<noteq> t) \<Longrightarrow> segments_of t segs = []"
  by (simp add: segments_of_def filter_empty_conv)

section \<open>What an accepted segment shows\<close>

text \<open>The segments tile the addresses from \<open>a\<close> up to \<open>b\<close>, in order and without a gap.\<close>

fun contiguous :: "nat \<Rightarrow> page_range list \<Rightarrow> nat \<Rightarrow> bool" where
  "contiguous a [] b \<longleftrightarrow> a = b"
| "contiguous a (c # cs) b \<longleftrightarrow> pr_start c = a \<and> contiguous (pr_end c) cs b"

lemma contiguous_snoc: "contiguous a (cs @ [c]) b \<longleftrightarrow> contiguous a cs (pr_start c) \<and> pr_end c = b"
  by (induction cs arbitrary: a) auto

text \<open>Every address of a tiled interval lies in one of the tiles.\<close>

lemma contiguous_covers:
  "contiguous a cs b \<Longrightarrow> a \<le> x \<Longrightarrow> x < b \<Longrightarrow> \<exists>c \<in> set cs. pr_start c \<le> x \<and> x < pr_end c"
proof (induction cs arbitrary: a)
  case (Cons c cs)
  then show ?case by (cases "x < pr_end c") auto
qed simp

definition segment_permits :: "pin_record \<Rightarrow> pin_segment \<Rightarrow> bool" where
  "segment_permits rec s \<longleftrightarrow>
     (let ex = sg_expected s; cur = sg_current s; pages = sg_covered s; req = pn_request rec in
      pages_contain (pn_range rec) pages \<and>
      em_address_space ex = ps_address_space (pn_snapshot rec) \<and>
      ms_address_space cur = em_address_space ex \<and> ms_mapping cur = em_mapping ex \<and>
      ms_generation cur = em_generation ex \<and>
      pages_contain (em_range ex) pages \<and> pages_contain (ms_range cur) pages \<and>
      (rq_access req = PinRead \<longrightarrow> readable (ms_access cur)) \<and>
      (rq_access req = PinWrite \<longrightarrow> writable (ms_access cur)) \<and>
      (rq_duration req = LongTerm \<longrightarrow> ms_long_term_pinnable cur \<and> ms_kind cur \<noteq> Device \<and> ms_kind cur \<noteq> Special \<and>
         (rq_access req = PinWrite \<and> ms_kind cur = FileShared \<longrightarrow> ms_writable_file_pin_supported cur)) \<and>
      (rq_use_kind req = Dma \<longrightarrow> rq_duration req = LongTerm))"

lemma validate_mapping_Inr:
  assumes "validate_mapping r req pages cur = Inr ()"
  shows "pages_contain (ms_range cur) pages \<and> (rq_access req = PinRead \<longrightarrow> readable (ms_access cur)) \<and>
    (rq_access req = PinWrite \<longrightarrow> writable (ms_access cur)) \<and>
    (rq_duration req = LongTerm \<longrightarrow> ms_long_term_pinnable cur \<and> ms_kind cur \<noteq> Device \<and> ms_kind cur \<noteq> Special \<and>
       (rq_access req = PinWrite \<and> ms_kind cur = FileShared \<longrightarrow> ms_writable_file_pin_supported cur)) \<and>
    (rq_use_kind req = Dma \<longrightarrow> rq_duration req = LongTerm)"
  using assms by (simp add: validate_mapping_def split: if_splits) blast

lemma validate_segment_permits:
  assumes "validate_segment r rec ex cur pages = Inr ()"
  shows "segment_permits rec \<lparr>sg_token = t, sg_expected = ex, sg_current = cur, sg_covered = pages\<rparr>"
proof -
  have "pages_contain (pn_range rec) pages" "em_address_space ex = ps_address_space (pn_snapshot rec)"
    "revalidate_range ex cur pages = Inr ()" "validate_mapping r (pn_request rec) pages cur = Inr ()"
    using assms by (auto simp: validate_segment_def split: if_splits)
  then show ?thesis
    using validate_mapping_Inr [of r "pn_request rec" pages cur]
    by (auto simp: segment_permits_def revalidate_range_def revalidate_def split: if_splits)
qed

lemma segment_permits_cong:
  "pn_range rec' = pn_range rec \<Longrightarrow> pn_snapshot rec' = pn_snapshot rec \<Longrightarrow> pn_request rec' = pn_request rec \<Longrightarrow>
   segment_permits rec' = segment_permits rec"
  by (simp add: segment_permits_def fun_eq_iff)

section \<open>What a call does to the records\<close>

text \<open>The part of a record that only revalidation changes.\<close>

definition same_pin :: "pin_record \<Rightarrow> pin_record \<Rightarrow> bool" where
  "same_pin rec rec' \<longleftrightarrow> pn_token rec' = pn_token rec \<and> pn_request rec' = pn_request rec \<and>
     pn_range rec' = pn_range rec \<and> pn_snapshot rec' = pn_snapshot rec"

definition carried :: "pin_registry \<Rightarrow> pin_record \<Rightarrow> bool" where
  "carried r rec' \<longleftrightarrow> (\<exists>rec. Some rec \<in> set (rg_records r) \<and> same_pin rec rec' \<and>
     pn_validated_until rec' = pn_validated_until rec \<and> pn_validated_mappings rec' = pn_validated_mappings rec)"

definition unused :: "pin_registry \<Rightarrow> pin_record \<Rightarrow> bool" where
  "unused r rec' \<longleftrightarrow> token_bound (rg_next_token r) \<le> pn_token rec' \<and>
     pn_validated_until rec' = pr_start (pn_range rec') \<and> pn_validated_mappings rec' = 0"

definition advanced :: "pin_registry \<Rightarrow> pin_segment \<Rightarrow> pin_record \<Rightarrow> bool" where
  "advanced r s rec' \<longleftrightarrow> (\<exists>rec. Some rec \<in> set (rg_records r) \<and> same_pin rec rec' \<and>
     segment_permits rec s \<and> pr_start (sg_covered s) = pn_validated_until rec \<and>
     pn_validated_until rec' = pr_end (sg_covered s) \<and>
     pn_validated_mappings rec' = Suc (pn_validated_mappings rec))"

lemma carriedI: "Some rec \<in> set (rg_records r) \<Longrightarrow> carried r rec"
  by (auto simp: carried_def same_pin_def)

lemma carried_update:
  assumes "rg_records r' = (rg_records r)[i := y]" and "\<forall>new. y = Some new \<longrightarrow> P new"
    and "Some rec' \<in> set (rg_records r')"
  shows "carried r rec' \<or> P rec'"
  using assms set_list_update_cases [of "Some rec'" "rg_records r" i y] by (auto intro: carriedI)

text \<open>A mapping count can never overflow: every counted segment covers at least one address.\<close>

lemma mapping_count_bound:
  assumes rec: "record_ok p rec" and seg: "validate_segment r rec ex cur covered = Inr ()" and cov: "pages_ok covered"
  shows "pn_validated_mappings rec < usize_max"
proof -
  have "pr_start covered < pr_end covered" using pages_okD(1) [OF cov] .
  moreover have "pr_start covered = pn_validated_until rec" "pr_end covered \<le> pr_end (pn_range rec)"
    using validate_segment_Inr [OF seg] by (simp_all add: pages_contain_iff)
  moreover have "pr_end (pn_range rec) \<le> usize_max" "pr_start (pn_range rec) + pn_validated_mappings rec \<le> pn_validated_until rec"
    using rec pages_okD [of "pn_range rec"] by (simp_all add: record_ok_def)
  ultimately show ?thesis by linarith
qed

text \<open>The outcomes of a revalidation: the token is not reserved, the record is dropped, or it advances.\<close>

lemma revalidate_next_outcomes:
  assumes ok: "reg_ok r" and cov: "pages_ok covered" and res: "revalidate_next r t ex cur covered = (r', out)"
  obtains (idle) e where "out = Inl e" "r' = r"
    | (dropped) i e where "out = Inl e" "rg_records r' = (rg_records r)[i := None]"
    | (accepted) i rec where "out = Inr ()" "i < length (rg_records r)" "rg_records r ! i = Some rec" "pn_token rec = t"
      "validate_segment r rec ex cur covered = Inr ()"
      "r' = set_record r i (rec\<lparr>pn_validated_until := pr_end covered,
        pn_validated_mappings := Suc (pn_validated_mappings rec)\<rparr>)"
proof (cases "record_index r t")
  case None
  then show thesis using res idle by (auto simp: revalidate_next_def)
next
  case (Some i)
  then obtain rec where i: "i < length (rg_records r)" "rg_records r ! i = Some rec" "pn_token rec = t"
    using record_index_Some by blast
  have rec: "record_ok (rg_page_size r) rec" using reg_okD(6) [OF ok] i by (metis nth_mem)
  show thesis
  proof (cases "pn_state rec = RsReserved")
    case False
    then show thesis using res Some i idle by (auto simp: revalidate_next_def)
  next
    case reserved: True
    show thesis
    proof (cases "validate_segment r rec ex cur covered")
      case (Inl e)
      obtain r1 res1 where rm: "remove_record r i = (r1, res1)" by fastforce
      note r1 = remove_record_evolves [OF ok i(1,2) rm]
      then have "out = Inl e" "r' = r1"
        using res Some i reserved Inl rm by (simp_all add: revalidate_next_def)
      then show thesis using r1 dropped by blast
    next
      case (Inr u)
      then have seg: "validate_segment r rec ex cur covered = Inr ()" by simp
      from mapping_count_bound [OF rec seg cov]
      have "checked_add usize_max (pn_validated_mappings rec) 1 = Some (Suc (pn_validated_mappings rec))"
        by (simp add: checked_add_def)
      then show thesis
        using res Some i reserved seg accepted [OF _ i seg] by (simp add: revalidate_next_def Let_def)
    qed
  qed
qed

lemma revalidate_accepted:
  assumes "reg_ok r" and "pages_ok covered" and "revalidate_next r t ex cur covered = (r', Inr ())"
    and mem: "Some rec' \<in> set (rg_records r')"
  shows "pn_token rec' \<noteq> t \<and> carried r rec' \<or>
    pn_token rec' = t \<and> advanced r \<lparr>sg_token = t, sg_expected = ex, sg_current = cur, sg_covered = covered\<rparr> rec'"
  using assms(1-3)
proof (cases rule: revalidate_next_outcomes)
  case (accepted i rec)
  let ?new = "rec\<lparr>pn_validated_until := pr_end covered, pn_validated_mappings := Suc (pn_validated_mappings rec)\<rparr>"
  have live: "Some rec \<in> set (rg_records r)" using accepted(2,3) by (metis nth_mem)
  have adv: "advanced r \<lparr>sg_token = t, sg_expected = ex, sg_current = cur, sg_covered = covered\<rparr> ?new"
    unfolding advanced_def using live validate_segment_permits [OF accepted(5)] validate_segment_Inr [OF accepted(5)]
    by (intro exI [of _ rec]) (simp add: same_pin_def)
  from mem obtain k where k: "k < length (rg_records r)" "(rg_records r)[i := Some ?new] ! k = Some rec'"
    unfolding accepted(6) by (auto simp: set_record_def in_set_conv_nth)
  show ?thesis
  proof (cases "k = i")
    case True
    then have "rec' = ?new" using k by simp
    then show ?thesis using adv accepted(4) live by (auto simp: live_tokens_def)
  next
    case False
    then have other: "rg_records r ! k = Some rec'" using k by simp
    then have "pn_token rec' \<noteq> t"
      using reg_okD(2) [OF assms(1)] k(1) accepted(2-4) False
        distinct_keysD [of "map_option pn_token" "rg_records r" k i t] by (auto simp: tokens_ok_def)
    moreover have "carried r rec'" using other k(1) by (intro carriedI) (metis nth_mem)
    ultimately show ?thesis using live accepted(4) by (auto simp: live_tokens_def)
  qed
qed simp_all

lemma accepted_token_live:
  assumes "reg_ok r" and "revalidate_next r t ex cur covered = (r', Inr ())" and "pages_ok covered"
  shows "t \<in> live_tokens r"
  using assms(1,3,2)
proof (cases rule: revalidate_next_outcomes)
  case (accepted i rec)
  then have "Some rec \<in> set (rg_records r)" by (metis nth_mem)
  with accepted(4) show ?thesis by (auto simp: live_tokens_def)
qed simp_all

lemma reserve_records:
  assumes ok: "reg_ok r" and rng: "range_ok (rq_range request)" and res: "pin_reserve r request a = (r', out)"
    and mem: "Some rec' \<in> set (rg_records r')"
  shows "carried r rec' \<or> unused r rec'"
proof (cases out)
  case (Inl e)
  then show ?thesis using pin_reserve_Inl res mem carriedI by blast
next
  case (Inr t)
  from pin_reserve_ok [OF ok rng res [unfolded Inr]] obtain i rec where
    rec: "rg_next_token r = Some t" "pn_token rec = t" "pn_validated_until rec = pr_start (pn_range rec)"
      "pn_validated_mappings rec = 0" "rg_records r' = (rg_records r)[i := Some rec]" by blast
  then have "\<forall>new. Some rec = Some new \<longrightarrow> unused r new" by (simp add: unused_def)
  from carried_update [OF rec(5) this mem] show ?thesis .
qed

lemma commit_records:
  assumes res: "pin_commit r t = (r', out)" and mem: "Some rec' \<in> set (rg_records r')"
  shows "carried r rec'"
proof (cases "r' = r")
  case False
  then obtain i where idx: "record_index r t = Some i" and
    r': "r' = set_record r i ((the (rg_records r ! i))\<lparr>pn_state := RsActive\<rparr>)"
    using res by (auto simp: pin_commit_def Let_def split: option.splits if_splits)
  from record_index_Some [OF idx] obtain rec where
    i: "i < length (rg_records r)" "rg_records r ! i = Some rec" by blast
  have "carried r (rec\<lparr>pn_state := RsActive\<rparr>)"
    using i by (auto simp: carried_def same_pin_def) (metis nth_mem)
  then show ?thesis
    using carried_update [of r' r i "Some (rec\<lparr>pn_state := RsActive\<rparr>)" "carried r"] mem i r' by (auto simp: set_record_def)
qed (use mem carriedI in blast)

lemma removal_records:
  assumes "reg_ok r" and "pin_cancel r t = (r', out) \<or> pin_release r t = (r', out)"
    and mem: "Some rec' \<in> set (rg_records r')"
  shows "carried r rec'"
proof (cases "r' = r")
  case False
  then obtain i where idx: "record_index r t = Some i" and rm: "remove_record r i = (r', out)"
    using assms(2) by (auto simp: pin_cancel_def pin_release_def split: option.splits if_splits)
  from record_index_Some [OF idx] obtain rec where
    i: "i < length (rg_records r)" "rg_records r ! i = Some rec" by blast
  from remove_record_evolves [OF assms(1) i rm] have "rg_records r' = (rg_records r)[i := None]" by blast
  from carried_update [OF this _ mem, of "\<lambda>_. False"] show ?thesis by simp
qed (use mem carriedI in blast)

lemma teardown_records:
  assumes ok: "reg_ok r" and size: "length (rg_records r) \<le> usize_max" and res: "begin_teardown r = (r', out)"
    and mem: "Some rec' \<in> set (rg_records r')"
  shows "carried r rec'"
proof (cases "rg_state r = RegClosed")
  case True
  then show ?thesis using res mem carriedI by (simp add: begin_teardown_def)
next
  case False
  from begin_teardown_ok [OF ok False size] res have "rg_records r' = map surviving (rg_records r)" by auto
  with mem have "Some rec' \<in> set (rg_records r)" by (auto simp: surviving_Some [symmetric]) (metis surviving_Some)
  then show ?thesis by (rule carriedI)
qed

text \<open>A live record after a call: carried over, new, or advanced by the one segment the call accepted.\<close>

lemma reg_call_records:
  assumes "reg_call r segs r'" and "reg_ok r" and "Some rec' \<in> set (rg_records r')"
  shows "segments_of (pn_token rec') segs = [] \<and> (carried r rec' \<or> unused r rec') \<or>
    (\<exists>s. segments_of (pn_token rec') segs = [s] \<and> advanced r s rec')"
  using assms
proof (induction rule: reg_call.induct)
  case (st_revalidate covered r token ex current r')
  from revalidate_accepted [OF st_revalidate(3,1,2,4)] show ?case by (auto simp: segments_of_def)
next
  case (st_revalidate_failed covered r token ex current r' e)
  from st_revalidate_failed(3,1,2) have "carried r rec'"
  proof (cases rule: revalidate_next_outcomes)
    case idle
    then show ?thesis using st_revalidate_failed(4) carriedI by blast
  next
    case (dropped i e')
    then show ?thesis using carried_update [OF dropped(2) _ st_revalidate_failed(4), of "\<lambda>_. False"] by simp
  qed simp
  then show ?case by simp
next
  case (st_configure r owner quota r' res)
  then have "rg_records r' = rg_records r" using configure_owner_evolves by blast
  then show ?case using st_configure carriedI by simp
next
  case (st_remove_owner r owner r' res')
  then have "rg_records r' = rg_records r" using remove_owner_evolves by blast
  then show ?case using st_remove_owner carriedI by simp
next
  case (st_reserve request r space r' res'')
  then show ?case using reserve_records [of r request space r'] by auto
next
  case (st_commit r token r' res'')
  then have "carried r rec'" using commit_records by blast
  then show ?case by simp
next
  case (st_cancel r token r' res)
  then have "carried r rec'" using removal_records [of r token r' res] by blast
  then show ?case by simp
next
  case (st_release r token r' res)
  then have "carried r rec'" using removal_records [of r token r' res] by blast
  then show ?case by simp
next
  case (st_close r r' pres)
  then have "rg_records r' = rg_records r" by (auto simp: begin_close_def split: registry_state.splits)
  then show ?case using st_close carriedI by simp
next
  case (st_teardown r r' tres)
  then have "carried r rec'" using teardown_records by blast
  then show ?case by simp
next
  case (st_finish r r' res)
  then have "rg_records r' = rg_records r" by (auto simp: finish_teardown_def split: registry_state.splits if_splits)
  then show ?case using st_finish carriedI by simp
qed

section \<open>The cursor of a live record\<close>

definition revalidated :: "pin_segment list \<Rightarrow> pin_record \<Rightarrow> bool" where
  "revalidated segs rec \<longleftrightarrow>
     (let mine = segments_of (pn_token rec) segs in
      contiguous (pr_start (pn_range rec)) (map sg_covered mine) (pn_validated_until rec) \<and>
      length mine = pn_validated_mappings rec \<and> (\<forall>s \<in> set mine. segment_permits rec s))"

definition log_ok :: "pin_segment list \<Rightarrow> pin_registry \<Rightarrow> bool" where
  "log_ok segs r \<longleftrightarrow> (\<forall>s \<in> set segs. sg_token s < token_bound (rg_next_token r)) \<and>
     (\<forall>rec. Some rec \<in> set (rg_records r) \<longrightarrow> revalidated segs rec)"

lemma revalidated_carried:
  assumes "carried r rec'" and "log_ok segs r" and "segments_of (pn_token rec') acc = []"
  shows "revalidated (segs @ acc) rec'"
proof -
  from assms(1) obtain rec where rec: "Some rec \<in> set (rg_records r)" "same_pin rec rec'"
    "pn_validated_until rec' = pn_validated_until rec" "pn_validated_mappings rec' = pn_validated_mappings rec"
    unfolding carried_def by blast
  moreover from rec(1) assms(2) have "revalidated segs rec" by (simp add: log_ok_def)
  moreover have "segment_permits rec' = segment_permits rec"
    using rec(2) by (intro segment_permits_cong) (simp_all add: same_pin_def)
  ultimately show ?thesis using assms(3) by (auto simp: revalidated_def same_pin_def Let_def)
qed

lemma revalidated_advanced:
  assumes "advanced r s rec'" and "log_ok segs r" and "segments_of (pn_token rec') acc = [s]"
  shows "revalidated (segs @ acc) rec'"
proof -
  from assms(1) obtain rec where rec: "Some rec \<in> set (rg_records r)" "same_pin rec rec'" "segment_permits rec s"
    "pr_start (sg_covered s) = pn_validated_until rec" "pn_validated_until rec' = pr_end (sg_covered s)"
    "pn_validated_mappings rec' = Suc (pn_validated_mappings rec)"
    unfolding advanced_def by blast
  moreover from rec(1) assms(2) have "revalidated segs rec" by (simp add: log_ok_def)
  moreover have "segment_permits rec' = segment_permits rec"
    using rec(2) by (intro segment_permits_cong) (simp_all add: same_pin_def)
  ultimately show ?thesis using assms(3) by (auto simp: revalidated_def same_pin_def Let_def contiguous_snoc)
qed

lemma revalidated_unused:
  assumes "unused r rec'" and "log_ok segs r" and "segments_of (pn_token rec') acc = []"
  shows "revalidated (segs @ acc) rec'"
proof -
  have "segments_of (pn_token rec') segs = []"
    using assms(1,2) by (intro segments_of_none) (fastforce simp: unused_def log_ok_def)
  then show ?thesis using assms(1,3) by (simp add: revalidated_def unused_def)
qed

lemma log_ok_call:
  assumes call: "reg_call r acc r'" and ok: "reg_ok r" and log: "log_ok segs r"
  shows "log_ok (segs @ acc) r'"
  unfolding log_ok_def
proof (intro conjI allI impI ballI)
  have mono: "token_bound (rg_next_token r) \<le> token_bound (rg_next_token r')"
    using reg_call_evolves [OF call ok] by (simp add: evolves_def)
  show "revalidated (segs @ acc) rec" if "Some rec \<in> set (rg_records r')" for rec
    using reg_call_records [OF call ok that] revalidated_carried [OF _ log] revalidated_unused [OF _ log]
      revalidated_advanced [OF _ log] by blast
  fix s assume s: "s \<in> set (segs @ acc)"
  have "sg_token s < token_bound (rg_next_token r)"
  proof (cases "s \<in> set segs")
    case True
    then show ?thesis using log by (simp add: log_ok_def)
  next
    case False
    then have "s \<in> set acc" using s by simp
    with call have "sg_token s \<in> live_tokens r"
      by (cases rule: reg_call.cases) (auto dest: accepted_token_live [OF ok])
    then show ?thesis using pins.issued [OF ok] by fastforce
  qed
  with mono show "sg_token s < token_bound (rg_next_token r')" by simp
qed

lemma log_ok_run:
  assumes "reg_run r0 segs r" and "reg_ok r0" and "set (rg_records r0) \<subseteq> {None}"
  shows "reg_ok r \<and> log_ok segs r"
  using assms(1)
proof (induction rule: reg_run.induct)
  case run_start
  then show ?case using assms(2,3) by (auto simp: log_ok_def)
next
  case (run_call segs r acc r')
  then show ?case using log_ok_call reg_call_evolves by (auto simp: evolves_def)
qed

end
