(* ===== verification/Pin_Registry_Props.thy ===== *)
theory Pin_Registry_Props
  imports Pin_Revalidation
begin

text \<open>
  What the pin registry promises: exact accounting under quotas, protection of pinned mappings,
  tokens that are never reused, and a teardown that always completes once the pins are released.
\<close>

section \<open>Reachable registries\<close>

definition registry_from :: "nat \<Rightarrow> nat \<Rightarrow> nat \<Rightarrow> pin_quota \<Rightarrow> nat \<Rightarrow> pin_registry \<Rightarrow> bool" where
  "registry_from oc tc bytes quota first r \<longleftrightarrow> first \<le> u64_max \<and>
     (\<exists>r0. registry_new oc tc bytes quota first = Inr r0 \<and> reg_step\<^sup>*\<^sup>* r0 r)"

lemma registry_from_ok: "registry_from oc tc bytes quota first r \<Longrightarrow> reg_ok r"
  unfolding registry_from_def using registry_new_ok pins.inv_steps by blast

lemma owner_usage:
  assumes "reg_ok r" and "owner_accounting r owner = Inr usage"
  shows "usage = pa_total (ledger_of owner (rg_records r))"
proof -
  from assms(2) obtain i where idx: "owner_index r owner = Some i" and u: "usage = oa_usage (the (rg_owners r ! i))"
    by (auto simp: owner_accounting_def)
  from key_index_Some [OF idx [unfolded owner_index_def]] obtain acc where
    "i < length (rg_owners r)" "rg_owners r ! i = Some acc" "oa_owner acc = owner" by blast
  then show ?thesis using reg_okD(5) [OF assms(1)] u unfolding accounts_ok_def by (metis option.sel)
qed

lemma live_record_refundable:
  assumes ok: "reg_ok r" and t: "t \<in> live_tokens r"
  shows "\<exists>i rec. record_index r t = Some i \<and> i < length (rg_records r) \<and> rg_records r ! i = Some rec \<and> pn_token rec = t"
proof -
  have "record_index r t \<noteq> None" using t record_index_None by blast
  then show ?thesis using record_index_Some by blast
qed

text \<open>Every configured account is the one its owner reads.\<close>

lemma owner_accounting_live:
  assumes ok: "reg_ok r" and acc: "Some acc \<in> set (rg_owners r)"
  shows "owner_accounting r (oa_owner acc) = Inr (oa_usage acc) \<and> admits (oa_quota acc) (oa_usage acc)"
proof -
  have accs: "accounts_ok (rg_owners r) (rg_records r)" using ok by (rule reg_okD)
  from acc obtain k where k: "k < length (rg_owners r)" "rg_owners r ! k = Some acc" by (auto simp: in_set_conv_nth)
  have "owner_index r (oa_owner acc) \<noteq> None" unfolding owner_index_def key_index_None using acc by blast
  then obtain i where idx: "owner_index r (oa_owner acc) = Some i" by blast
  from key_index_Some [OF idx [unfolded owner_index_def]] obtain acc' where
    i: "i < length (rg_owners r)" "rg_owners r ! i = Some acc'" "oa_owner acc' = oa_owner acc" by blast
  have "i = k"
    using accs k i distinct_keysD [of "map_option oa_owner" "rg_owners r" i k "oa_owner acc"] by (auto simp: accounts_ok_def)
  then have "owner_accounting r (oa_owner acc) = Inr (oa_usage acc)" using idx k by (simp add: owner_accounting_def)
  moreover have "admits (oa_quota acc) (oa_usage acc)" using accs k unfolding accounts_ok_def by blast
  ultimately show ?thesis ..
qed

lemma owner_accounting_known:
  "reg_ok r \<Longrightarrow> Some acc \<in> set (rg_owners r) \<Longrightarrow> oa_owner acc = owner \<Longrightarrow>
   owner_accounting r owner = Inr (pa_total (ledger_of owner (rg_records r)))"
  using owner_accounting_live [of r acc] owner_usage [of r owner "oa_usage acc"] by auto

lemma remove_record_owner:
  assumes "remove_record r i = (r', Inr ())" and "rg_records r ! i = Some rec"
  shows "\<exists>acc. Some acc \<in> set (rg_owners r') \<and> oa_owner acc = pn_owner rec"
proof -
  let ?r1 = "r\<lparr>rg_records := (rg_records r)[i := None]\<rparr>"
  from assms obtain oi usage where idx: "owner_index ?r1 (pn_owner rec) = Some oi" and
    owners: "rg_owners r' = (rg_owners r)[oi := Some ((the (rg_owners r ! oi))\<lparr>oa_usage := usage\<rparr>)]"
    by (auto simp: remove_record_def Let_def set_owner_usage_def pn_owner_def split: option.splits sum.splits)
  from key_index_Some [OF idx [unfolded owner_index_def]] obtain acc where
    oi: "oi < length (rg_owners r)" "rg_owners r ! oi = Some acc" "oa_owner acc = pn_owner rec" by auto
  then have "Some (acc\<lparr>oa_usage := usage\<rparr>) \<in> set (rg_owners r')" unfolding owners by (simp add: set_update_memI)
  with oi(3) show ?thesis by (intro exI [of _ "acc\<lparr>oa_usage := usage\<rparr>"]) simp
qed

text \<open>Removing a live record succeeds and takes exactly its charge off the global and the owner's usage.\<close>

lemma removal_refunds:
  assumes ok: "reg_ok r" and rec: "rec \<in> set (live_records r)"
  shows "\<exists>i r' u. record_index r (pn_token rec) = Some i \<and> rg_records r ! i = Some rec \<and>
    remove_record r i = (r', Inr ()) \<and> rg_global_usage r = pa_plus (rg_global_usage r') (pn_charge rec) \<and>
    owner_accounting r' (pn_owner rec) = Inr u \<and>
    owner_accounting r (pn_owner rec) = Inr (pa_plus u (pn_charge rec))"
proof -
  from rec obtain k where k: "k < length (rg_records r)" "rg_records r ! k = Some rec"
    by (auto simp: live_records_def set_flatten_nth)
  have mem: "Some rec \<in> set (rg_records r)" using k by (metis nth_mem)
  then have "pn_token rec \<in> live_tokens r" by (auto simp: live_tokens_def)
  from live_record_refundable [OF ok this] obtain i rec' where
    i: "record_index r (pn_token rec) = Some i" "i < length (rg_records r)" "rg_records r ! i = Some rec'" "pn_token rec' = pn_token rec"
    by blast
  then have "i = k"
    using reg_okD(2) [OF ok] k by (auto simp: tokens_ok_def intro: distinct_keysD)
  then have rec': "rg_records r ! i = Some rec" using k(2) by simp
  from remove_record_ok [OF ok i(2) rec'] obtain r' where
    r': "remove_record r i = (r', Inr ())" "reg_ok r'" "rg_records r' = (rg_records r)[i := None]" by blast
  have "rg_global_usage r = pa_plus (rg_global_usage r') (pn_charge rec)"
    using reg_okD(3) [OF ok] reg_okD(3) [OF r'(2)] ledger_remove(1) [OF i(2) rec'] r'(3) by (simp add: pa_total_add)
  moreover from reg_okD(5) [OF ok] mem obtain acc where "Some acc \<in> set (rg_owners r)" "oa_owner acc = pn_owner rec"
    unfolding accounts_ok_def by (metis nth_mem)
  from owner_accounting_known [OF ok this]
  have "owner_accounting r (pn_owner rec) = Inr (pa_plus (pa_total (ledger_of (pn_owner rec) (rg_records r'))) (pn_charge rec))"
    using ledger_remove(2) [OF i(2) rec', of "pn_owner rec"] r'(3) by (simp add: pa_total_add)
  moreover from remove_record_owner [OF r'(1) rec']
  have "owner_accounting r' (pn_owner rec) = Inr (pa_total (ledger_of (pn_owner rec) (rg_records r')))"
    using owner_accounting_known [OF r'(2)] by blast
  ultimately show ?thesis using i(1) rec' r'(1) by blast
qed

section \<open>Accounting\<close>

text \<open>
  C30. Pin accounting is exact in every reachable registry. The global usage is the total of the
  charges of the live records and each configured owner's usage the total of its own; neither
  exceeds its quota, the global one or the owner's. A live record is charged the pages and bytes
  of its page-covering range and one token, and therefore cancelling a live reservation or
  releasing a live pin never fails and refunds exactly its charge, globally and to its owner.
\<close>

theorem pin_accounting_exact:
  assumes "registry_from oc tc bytes quota first r"
  shows "rg_global_usage r = pa_total (ledger (rg_records r)) \<and> admits (rg_global_quota r) (rg_global_usage r) \<and>
    (\<forall>owner usage. owner_accounting r owner = Inr usage \<longrightarrow> usage = pa_total (ledger_of owner (rg_records r))) \<and>
    (\<forall>acc. Some acc \<in> set (rg_owners r) \<longrightarrow>
       owner_accounting r (oa_owner acc) = Inr (oa_usage acc) \<and> admits (oa_quota acc) (oa_usage acc)) \<and>
    (\<forall>rec \<in> set (live_records r).
       pn_charge rec = \<lparr>pa_pages = page_count (pn_range rec), pa_bytes = pr_len (pn_range rec), pa_tokens = 1\<rparr> \<and>
       range_contains (pr_range (pn_range rec)) (rq_range (pn_request rec)) \<and>
       (\<exists>r' u. (case pn_state rec of RsReserved \<Rightarrow> pin_cancel r (pn_token rec) | RsActive \<Rightarrow> pin_release r (pn_token rec))
            = (r', Inr ()) \<and>
          rg_global_usage r = pa_plus (rg_global_usage r') (pn_charge rec) \<and>
          owner_accounting r' (rq_owner (pn_request rec)) = Inr u \<and>
          owner_accounting r (rq_owner (pn_request rec)) = Inr (pa_plus u (pn_charge rec))))"
proof (intro conjI ballI allI impI)
  have ok: "reg_ok r" using assms by (rule registry_from_ok)
  show "rg_global_usage r = pa_total (ledger (rg_records r))" "admits (rg_global_quota r) (rg_global_usage r)"
    using reg_okD(3,4) [OF ok] by simp_all
  show "usage = pa_total (ledger_of owner (rg_records r))" if "owner_accounting r owner = Inr usage" for owner usage
    using owner_usage [OF ok that] .
  show "owner_accounting r (oa_owner acc) = Inr (oa_usage acc)" "admits (oa_quota acc) (oa_usage acc)"
    if "Some acc \<in> set (rg_owners r)" for acc
    using owner_accounting_live [OF ok that] by simp_all
  fix rec assume rec: "rec \<in> set (live_records r)"
  have "record_ok (rg_page_size r) rec"
    using rec reg_okD(6) [OF ok] by (simp add: live_records_def set_flatten)
  then show "pn_charge rec = \<lparr>pa_pages = page_count (pn_range rec), pa_bytes = pr_len (pn_range rec), pa_tokens = 1\<rparr>"
    "range_contains (pr_range (pn_range rec)) (rq_range (pn_request rec))" by (simp_all add: record_ok_def)
  from removal_refunds [OF ok rec] obtain i r' u where
    f: "record_index r (pn_token rec) = Some i" "rg_records r ! i = Some rec" "remove_record r i = (r', Inr ())"
      "rg_global_usage r = pa_plus (rg_global_usage r') (pn_charge rec)"
      "owner_accounting r' (rq_owner (pn_request rec)) = Inr u"
      "owner_accounting r (rq_owner (pn_request rec)) = Inr (pa_plus u (pn_charge rec))"
    unfolding pn_owner_def by blast
  then have "(case pn_state rec of RsReserved \<Rightarrow> pin_cancel r (pn_token rec) | RsActive \<Rightarrow> pin_release r (pn_token rec))
      = (r', Inr ())"
    by (cases "pn_state rec") (simp_all add: pin_cancel_def pin_release_def)
  with f(4-6) show "\<exists>r' u. (case pn_state rec of RsReserved \<Rightarrow> pin_cancel r (pn_token rec) | RsActive \<Rightarrow> pin_release r (pn_token rec))
            = (r', Inr ()) \<and>
          rg_global_usage r = pa_plus (rg_global_usage r') (pn_charge rec) \<and>
          owner_accounting r' (rq_owner (pn_request rec)) = Inr u \<and>
          owner_accounting r (rq_owner (pn_request rec)) = Inr (pa_plus u (pn_charge rec))" by blast
qed

section \<open>Protection\<close>

text \<open>
  C31. Pinned mappings are protected. Take any registry reached from a new one, with the segments
  accepted by revalidation on the way. Two live pins that overlap in one address space and still
  fence their mapping are both reads. The segments accepted for a published pin tile its page
  range from start to end without a gap, one for each counted mapping, and each of them lies in
  a mapping of the pin's address space whose identity and generation were the expected ones and
  which permits the requested access, duration and use. A mapping mutation is admitted exactly
  when no reservation and no short-lived pin of that address space overlaps it.
\<close>

theorem pinned_pages_protected:
  assumes new: "registry_new oc tc bytes quota first = Inr r0" and first: "first \<le> u64_max"
    and run: "reg_run r0 segs r"
  shows "(\<forall>i < length (rg_records r). \<forall>j < length (rg_records r). \<forall>a b. i \<noteq> j \<and>
       rg_records r ! i = Some a \<and> rg_records r ! j = Some b \<and> fences a \<and> fences b \<and>
       ps_address_space (pn_snapshot a) = ps_address_space (pn_snapshot b) \<and>
       pages_overlap (pn_range a) (pn_range b) \<longrightarrow>
       rq_access (pn_request a) = PinRead \<and> rq_access (pn_request b) = PinRead) \<and>
    (\<forall>rec \<in> set (live_records r). pn_state rec = RsActive \<longrightarrow>
       (let mine = segments_of (pn_token rec) segs in
        contiguous (pr_start (pn_range rec)) (map sg_covered mine) (pr_end (pn_range rec)) \<and>
        length mine = pn_validated_mappings rec \<and> mine \<noteq> [] \<and> (\<forall>s \<in> set mine. segment_permits rec s))) \<and>
    (\<forall>iv. admit_mutation r iv = Inr () \<longleftrightarrow>
       (\<forall>rec \<in> set (live_records r).
          ps_address_space (pn_snapshot rec) = em_address_space (iv_expected iv) \<and>
          pages_overlap (pn_range rec) (iv_range iv) \<longrightarrow>
          pn_state rec = RsActive \<and> rq_duration (pn_request rec) = LongTerm))"
proof (intro conjI)
  from new have "set (rg_records r0) \<subseteq> {None}" by (auto simp: registry_new_def)
  with log_ok_run [OF run registry_new_ok [OF new first]] have ok: "reg_ok r" and log: "log_ok segs r" by auto
  have acc: "\<And>x. x \<noteq> PinWrite \<longleftrightarrow> x = PinRead" by (metis pin_access.exhaust pin_access.distinct(1))
  show "\<forall>i < length (rg_records r). \<forall>j < length (rg_records r). \<forall>a b. i \<noteq> j \<and>
       rg_records r ! i = Some a \<and> rg_records r ! j = Some b \<and> fences a \<and> fences b \<and>
       ps_address_space (pn_snapshot a) = ps_address_space (pn_snapshot b) \<and>
       pages_overlap (pn_range a) (pn_range b) \<longrightarrow>
       rq_access (pn_request a) = PinRead \<and> rq_access (pn_request b) = PinRead"
    using reg_okD(7) [OF ok] unfolding exclusive_def conflict_def acc [symmetric] by blast
  have rec: "record_ok (rg_page_size r) rec" if "rec \<in> set (live_records r)" for rec
    using that reg_okD(6) [OF ok] by (simp add: live_records_def set_flatten)
  show "\<forall>rec \<in> set (live_records r). pn_state rec = RsActive \<longrightarrow>
       (let mine = segments_of (pn_token rec) segs in
        contiguous (pr_start (pn_range rec)) (map sg_covered mine) (pr_end (pn_range rec)) \<and>
        length mine = pn_validated_mappings rec \<and> mine \<noteq> [] \<and> (\<forall>s \<in> set mine. segment_permits rec s))"
  proof (intro ballI impI)
    fix rec assume mem: "rec \<in> set (live_records r)" and act: "pn_state rec = RsActive"
    have "revalidated segs rec" using mem log by (simp add: log_ok_def live_records_def set_flatten)
    moreover have "pn_validated_until rec = pr_end (pn_range rec)" "pr_start (pn_range rec) < pr_end (pn_range rec)"
      using rec [OF mem] act pages_okD(1) [of "pn_range rec"] by (auto simp: record_ok_def)
    ultimately show "let mine = segments_of (pn_token rec) segs in
        contiguous (pr_start (pn_range rec)) (map sg_covered mine) (pr_end (pn_range rec)) \<and>
        length mine = pn_validated_mappings rec \<and> mine \<noteq> [] \<and> (\<forall>s \<in> set mine. segment_permits rec s)"
      by (auto simp: revalidated_def Let_def)
  qed
  have "fences rec \<longleftrightarrow> \<not> (pn_state rec = RsActive \<and> rq_duration (pn_request rec) = LongTerm)" for rec
    by (cases "pn_state rec") (auto simp: fences_def)
  then show "\<forall>iv. admit_mutation r iv = Inr () \<longleftrightarrow>
       (\<forall>rec \<in> set (live_records r).
          ps_address_space (pn_snapshot rec) = em_address_space (iv_expected iv) \<and>
          pages_overlap (pn_range rec) (iv_range iv) \<longrightarrow>
          pn_state rec = RsActive \<and> rq_duration (pn_request rec) = LongTerm)"
    by (auto simp: admit_mutation_def first_mutation_blocker_def find_None_iff)
qed

section \<open>Tokens\<close>

text \<open>
  C32. Pin tokens are never reused. Once a token has been issued and its record is gone, by
  cancellation, release, failed revalidation or teardown, every later operation on it answers
  with the unknown-token error and changes nothing, whatever happens in between.
\<close>

theorem pin_token_never_reused:
  assumes "registry_from oc tc bytes quota first r" and "t < token_bound (rg_next_token r)" and "t \<notin> live_tokens r"
    and "reg_step\<^sup>*\<^sup>* r r'"
  shows "pin_release r' t = (r', Inl UnknownToken) \<and> pin_cancel r' t = (r', Inl UnknownToken) \<and>
    pin_commit r' t = (r', Inl UnknownToken) \<and> pin_view r' t = Inl UnknownToken \<and>
    revalidate_next r' t ex current covered = (r', Inl UnknownToken)"
proof -
  have "t \<notin> live_tokens r'"
    using pins.stale_forever [OF assms(4) registry_from_ok [OF assms(1)] assms(3)] assms(2) by simp
  then have "record_index r' t = None" by (simp add: record_index_None)
  then show ?thesis
    by (simp add: pin_release_def pin_cancel_def pin_commit_def pin_view_def revalidate_next_def)
qed

section \<open>Teardown\<close>

fun release_all :: "nat list \<Rightarrow> pin_registry \<Rightarrow> (pin_registry, mm_error, unit) outcome" where
  "release_all [] r = (r, Inr ())"
| "release_all (t # ts) r =
     (case pin_release r t of (r1, Inl e) \<Rightarrow> (r1, Inl e) | (r1, Inr _) \<Rightarrow> release_all ts r1)"

definition all_active :: "pin_registry \<Rightarrow> bool" where
  "all_active r \<longleftrightarrow> (\<forall>rec. Some rec \<in> set (rg_records r) \<longrightarrow> pn_state rec = RsActive)"

lemma pin_release_live:
  assumes ok: "reg_ok r" and act: "all_active r" and t: "t \<in> live_tokens r"
  shows "\<exists>r'. pin_release r t = (r', Inr ()) \<and> reg_ok r' \<and> all_active r' \<and> live_tokens r' = live_tokens r - {t} \<and>
    rg_state r' = rg_state r"
proof -
  from live_record_refundable [OF ok t] obtain i rec where
    i: "record_index r t = Some i" "i < length (rg_records r)" "rg_records r ! i = Some rec" "pn_token rec = t"
    by blast
  have "pn_state rec = RsActive" using act i by (metis all_active_def nth_mem)
  moreover from remove_record_ok [OF ok i(2,3)] obtain r' where
    r': "remove_record r i = (r', Inr ())" "reg_ok r'" "rg_records r' = (rg_records r)[i := None]" "rg_state r' = rg_state r"
    by blast
  moreover have "all_active r'" using act r'(3) set_list_update_cases by (fastforce simp: all_active_def)
  moreover have "live_tokens r' = live_tokens r - {t}"
  proof -
    have "t \<notin> live_tokens r'"
    proof
      assume "t \<in> live_tokens r'"
      then obtain k rec' where "k < length (rg_records r)" "(rg_records r)[i := None] ! k = Some rec'" "pn_token rec' = t"
        by (auto simp: live_tokens_def r'(3) in_set_conv_nth)
      moreover from this have "k \<noteq> i" using i(2) by auto
      ultimately show False
        using reg_okD(2) [OF ok] i distinct_keysD [of "map_option pn_token" "rg_records r" k i t] by (auto simp: tokens_ok_def)
    qed
    moreover have "x \<in> live_tokens r'" if "x \<in> live_tokens r" "x \<noteq> t" for x
    proof -
      from that obtain k rec' where "k < length (rg_records r)" "rg_records r ! k = Some rec'" "pn_token rec' = x"
        by (auto simp: live_tokens_def in_set_conv_nth)
      moreover from this have "k \<noteq> i" using i that(2) by auto
      ultimately have "(rg_records r)[i := None] ! k = Some rec'" "k < length ((rg_records r)[i := None])" by simp_all
      then have "Some rec' \<in> set (rg_records r')" unfolding r'(3) by (metis nth_mem)
      then show ?thesis using \<open>pn_token rec' = x\<close> by (auto simp: live_tokens_def)
    qed
    ultimately show ?thesis using live_tokens_update [OF r'(3)] by auto
  qed
  ultimately show ?thesis using i by (intro exI [of _ r']) (simp add: pin_release_def)
qed

lemma release_all_empties:
  "reg_ok r \<Longrightarrow> all_active r \<Longrightarrow> set ts = live_tokens r \<Longrightarrow> distinct ts \<Longrightarrow>
   \<exists>r'. release_all ts r = (r', Inr ()) \<and> reg_ok r' \<and> live_tokens r' = {} \<and> rg_state r' = rg_state r"
proof (induction ts arbitrary: r)
  case Nil
  then show ?case by simp
next
  case (Cons t ts)
  then obtain r1 where
    r1: "pin_release r t = (r1, Inr ())" "reg_ok r1" "all_active r1" "live_tokens r1 = live_tokens r - {t}" "rg_state r1 = rg_state r"
    using pin_release_live [of r t] by auto
  moreover have "set ts = live_tokens r1" using Cons.prems r1(4) by auto
  ultimately show ?case using Cons.IH [of r1] Cons.prems by auto
qed

lemma no_tokens_no_records: "live_tokens r = {} \<Longrightarrow> live_records r = []"
  using set_flatten [of _ "rg_records r"] by (auto simp: live_tokens_def live_records_def) (metis list.set_intros(1) neq_Nil_conv)

text \<open>
  C33. Teardown always completes. From every reachable registry that is not yet closed, beginning
  teardown succeeds, cancels exactly the reservations and reports the published pins that
  remain; releasing those pins, in any order, succeeds one by one; and then finishing succeeds,
  leaving a closed registry with no record and no charge.
\<close>

theorem pin_teardown_completes:
  assumes "registry_from oc tc bytes quota first r" and "rg_state r \<noteq> RegClosed" and "length (rg_records r) \<le> usize_max"
  shows "\<exists>r1. begin_teardown r =
      (r1, Inr \<lparr>td_cancelled_reservations = reserved_count r, td_active_remaining = active_count r\<rparr>) \<and>
    live_tokens r1 = {pn_token rec | rec. rec \<in> set (live_records r) \<and> pn_state rec = RsActive} \<and>
    (\<forall>ts. set ts = live_tokens r1 \<and> distinct ts \<longrightarrow>
      (\<exists>r2 r3. release_all ts r1 = (r2, Inr ()) \<and> finish_teardown r2 = (r3, Inr ()) \<and> rg_state r3 = RegClosed \<and>
         live_records r3 = [] \<and> rg_global_usage r3 = pa_zero))"
proof -
  have ok: "reg_ok r" using assms(1) by (rule registry_from_ok)
  from begin_teardown_ok [OF ok assms(2,3)] obtain r1 where
    r1: "begin_teardown r = (r1, Inr \<lparr>td_cancelled_reservations = reserved_count r, td_active_remaining = active_count r\<rparr>)"
      "evolves r r1" "rg_state r1 = RegTearingDown" "rg_records r1 = map surviving (rg_records r)"
    by blast
  have mem: "Some rec \<in> set (rg_records r1) \<longleftrightarrow> Some rec \<in> set (rg_records r) \<and> pn_state rec = RsActive" for rec
    unfolding r1(4) set_map image_iff using surviving_Some [of _ rec] by metis
  have "reg_ok r1" using r1(2) by (simp add: evolves_def)
  moreover have "all_active r1" using mem by (simp add: all_active_def)
  ultimately have rel: "\<exists>r2 r3. release_all ts r1 = (r2, Inr ()) \<and> finish_teardown r2 = (r3, Inr ()) \<and>
      rg_state r3 = RegClosed \<and> live_records r3 = [] \<and> rg_global_usage r3 = pa_zero"
    if ts: "set ts = live_tokens r1" "distinct ts" for ts
  proof -
    obtain r2 where r2: "release_all ts r1 = (r2, Inr ())" "reg_ok r2" "live_tokens r2 = {}" "rg_state r2 = RegTearingDown"
      using release_all_empties [of r1 ts] \<open>reg_ok r1\<close> \<open>all_active r1\<close> ts r1(3) by auto
    have none: "live_records r2 = []" using r2(3) by (rule no_tokens_no_records)
    then have "rg_global_usage r2 = pa_zero" using reg_okD(3) [OF r2(2)] by (simp add: ledger_def live_records_def)
    moreover have "finish_teardown r2 = (r2\<lparr>rg_state := RegClosed\<rparr>, Inr ())"
      using none r2(4) by (simp add: finish_teardown_def progress_def active_count_def reserved_count_def)
    ultimately show ?thesis using r2(1) none by (auto simp: live_records_def)
  qed
  have "live_tokens r1 = {pn_token rec | rec. rec \<in> set (live_records r) \<and> pn_state rec = RsActive}"
    by (simp add: live_tokens_def mem live_records_def set_flatten)
  then show ?thesis using r1(1) rel by blast
qed

section \<open>A small history\<close>

definition ex_quota :: pin_quota where
  "ex_quota = \<lparr>pq_max_pages = 8, pq_max_bytes = 0x8000, pq_max_tokens = 4\<rparr>"

definition ex_request :: pin_request where
  "ex_request = \<lparr>rq_range = \<lparr>ur_start = 0x1800, ur_end = 0x2800\<rparr>, rq_access = PinWrite,
     rq_duration = AsyncIo, rq_use_kind = BlockIo, rq_owner = 7\<rparr>"

definition ex_reg0 :: pin_registry where
  "ex_reg0 = \<lparr>rg_page_size = 4096, rg_global_quota = ex_quota, rg_global_usage = pa_zero,
     rg_owners = [None], rg_records = [None, None], rg_next_token = Some 1, rg_state = RegOpen\<rparr>"

definition ex_reg1 :: pin_registry where
  "ex_reg1 = ex_reg0\<lparr>rg_owners := [Some \<lparr>oa_owner = 7, oa_quota = ex_quota, oa_usage = pa_zero\<rparr>]\<rparr>"

definition ex_charge :: pin_accounting where
  "ex_charge = \<lparr>pa_pages = 2, pa_bytes = 0x2000, pa_tokens = 1\<rparr>"

definition ex_reg2 :: pin_registry where
  "ex_reg2 = ex_reg1\<lparr>rg_owners := [Some \<lparr>oa_owner = 7, oa_quota = ex_quota, oa_usage = ex_charge\<rparr>],
     rg_global_usage := ex_charge, rg_next_token := Some 2,
     rg_records := [Some (new_record 1 ex_request 3 (pages_at 0x1000 0x2000 4096) ex_charge), None]\<rparr>"

definition ex_reg3 :: pin_registry where
  "ex_reg3 = ex_reg1\<lparr>rg_next_token := Some 2\<rparr>"

text \<open>Two mappings revalidate the reservation, one page each, and the pin is published.\<close>

definition ex_mapping :: "nat \<Rightarrow> nat \<Rightarrow> nat \<Rightarrow> mapping_snapshot" where
  "ex_mapping m generation start = \<lparr>ms_address_space = 3, ms_mapping = m, ms_generation = generation,
     ms_range = pages_at start 0x1000 4096, ms_access = ACCESS_READ OR ACCESS_WRITE, ms_kind = AnonymousPrivate,
     ms_long_term_pinnable = False, ms_writable_file_pin_supported = False\<rparr>"

definition ex_segment :: "nat \<Rightarrow> nat \<Rightarrow> nat \<Rightarrow> pin_segment" where
  "ex_segment m generation start = \<lparr>sg_token = 1, sg_expected = expected (ex_mapping m generation start),
     sg_current = ex_mapping m generation start, sg_covered = pages_at start 0x1000 4096\<rparr>"

definition ex_progress :: "nat \<Rightarrow> nat \<Rightarrow> record_state \<Rightarrow> pin_registry" where
  "ex_progress until n st = ex_reg2\<lparr>rg_records := [Some ((new_record 1 ex_request 3 (pages_at 0x1000 0x2000 4096) ex_charge)
     \<lparr>pn_validated_until := until, pn_validated_mappings := n, pn_state := st\<rparr>), None]\<rparr>"

lemma power_4096: "is_power_of_two 4096"
proof -
  have "4096 = (2 :: nat) ^ 12" by simp
  then show ?thesis unfolding is_power_of_two_iff by (intro exI [of _ 12]) simp
qed

lemma ex_covering: "covering (rq_range ex_request) 4096 = Inr (pages_at 0x1000 0x2000 4096)"
proof -
  have r: "range_ok (rq_range ex_request)" by (simp add: range_ok_def ex_request_def usize_max_def)
  show ?thesis using covering_Inr [OF r power_4096] by (simp add: ex_request_def usize_max_def)
qed

lemma ex_history:
  "registry_new 1 2 4096 ex_quota 1 = Inr ex_reg0" "reg_call ex_reg0 [] ex_reg1" "reg_call ex_reg1 [] ex_reg2"
  "reg_call ex_reg2 [] ex_reg3"
proof -
  show "registry_new 1 2 4096 ex_quota 1 = Inr ex_reg0"
    by (simp add: registry_new_def page_size_new_Inr [THEN iffD2, OF conjI [OF refl power_4096]] nonzero_id_def
        ex_reg0_def numeral_2_eq_2)
  have "configure_owner ex_reg0 7 ex_quota = (ex_reg1, Inr ())"
    by (simp add: configure_owner_def ensure_open_def owner_index_def ex_reg0_def ex_reg1_def)
  then show "reg_call ex_reg0 [] ex_reg1" by (rule st_configure)
  have plan: "reserve_plan ex_reg1 ex_request 3 =
      Inr (pages_at 0x1000 0x2000 4096, 0, 0, ex_charge, ex_charge, ex_charge)"
    by (simp add: reserve_plan_def ex_reg1_def ex_reg0_def ensure_open_def ex_covering validate_overlap_def
        live_records_def owner_index_def pa_for_range_def page_count_def pa_checked_add_def checked_add_def
        pa_zero_def admits_def ex_quota_def ex_charge_def u64_max_def)
      (simp add: ex_request_def)
  have "pin_reserve ex_reg1 ex_request 3 = (ex_reg2, Inr 1)"
    by (simp add: pin_reserve_def plan)
      (simp add: allocate_token_def set_owner_usage_def next_token_def checked_add_def u64_max_def ex_reg1_def
        ex_reg0_def ex_reg2_def)
  then show "reg_call ex_reg1 [] ex_reg2"
    by (intro st_reserve) (auto simp: range_ok_def ex_request_def usize_max_def)
  have "pin_cancel ex_reg2 1 = (ex_reg3, Inr ())"
    by (simp add: pin_cancel_def record_index_def remove_record_def owner_index_def set_owner_usage_def ex_reg2_def
        ex_reg1_def ex_reg0_def ex_reg3_def new_record_def ex_request_def pa_checked_sub_def checked_sub_def
        ex_charge_def pa_zero_def Let_def)
  then show "reg_call ex_reg2 [] ex_reg3" by (rule st_cancel)
qed

lemma ex_registry_from: "registry_from 1 2 4096 ex_quota 1 ex_reg2" "registry_from 1 2 4096 ex_quota 1 ex_reg3"
proof -
  have "reg_step ex_reg0 ex_reg1" "reg_step ex_reg1 ex_reg2" "reg_step ex_reg2 ex_reg3"
    using ex_history by (auto simp: reg_step_def)
  then have "reg_step\<^sup>*\<^sup>* ex_reg0 ex_reg2" "reg_step\<^sup>*\<^sup>* ex_reg0 ex_reg3"
    by (meson converse_rtranclp_into_rtranclp rtranclp.rtrancl_refl)+
  then show "registry_from 1 2 4096 ex_quota 1 ex_reg2" "registry_from 1 2 4096 ex_quota 1 ex_reg3"
    using ex_history(1) by (auto simp: registry_from_def u64_max_def)
qed

theorem pin_accounting_exact_witness:
  "rg_global_usage ex_reg2 = pa_total (ledger (rg_records ex_reg2)) \<and> pa_pages (rg_global_usage ex_reg2) = 2 \<and>
   owner_accounting ex_reg2 7 = Inr ex_charge \<and> admits ex_quota ex_charge"
  using pin_accounting_exact [OF ex_registry_from(1)] by (simp add: ex_reg2_def ex_charge_def)

lemma ex_revalidate:
  "revalidate_next (ex_progress 0x1000 0 RsReserved) 1 (expected (ex_mapping 4 9 0x1000)) (ex_mapping 4 9 0x1000)
     (pages_at 0x1000 0x1000 4096) = (ex_progress 0x2000 1 RsReserved, Inr ())"
  "revalidate_next (ex_progress 0x2000 1 RsReserved) 1 (expected (ex_mapping 5 2 0x2000)) (ex_mapping 5 2 0x2000)
     (pages_at 0x2000 0x1000 4096) = (ex_progress 0x3000 2 RsReserved, Inr ())"
  by (simp_all add: revalidate_next_def record_index_def ex_progress_def ex_reg2_def ex_reg1_def ex_reg0_def
      new_record_def Let_def validate_segment_def revalidate_range_def revalidate_def validate_mapping_def
      pages_contain_iff expected_def ex_mapping_def ex_request_def writable_def ACCESS_READ_def ACCESS_WRITE_def
      checked_add_def usize_max_def set_record_def)

lemma ex_commit: "pin_commit (ex_progress 0x3000 2 RsReserved) 1 = (ex_progress 0x3000 2 RsActive, Inr 1)"
  by (simp add: pin_commit_def record_index_def ex_progress_def ex_reg2_def new_record_def set_record_def)

lemma ex_run:
  "reg_run ex_reg0 [ex_segment 4 9 0x1000, ex_segment 5 2 0x2000] (ex_progress 0x3000 2 RsActive)"
proof -
  have cov: "pages_ok (pages_at 0x1000 0x1000 4096)" "pages_ok (pages_at 0x2000 0x1000 4096)"
    using power_4096 by (simp_all add: pages_ok_def range_ok_def pages_at_def usize_max_def pr_start_def pr_end_def)
  have start: "ex_reg2 = ex_progress 0x1000 0 RsReserved"
    by (simp add: ex_progress_def ex_reg2_def new_record_def)
  from run_call [OF run_call [OF run_start ex_history(2)] ex_history(3)]
  have "reg_run ex_reg0 [] (ex_progress 0x1000 0 RsReserved)" by (simp add: start)
  from run_call [OF this st_revalidate [OF cov(1) ex_revalidate(1)]]
  have "reg_run ex_reg0 [ex_segment 4 9 0x1000] (ex_progress 0x2000 1 RsReserved)" by (simp add: ex_segment_def)
  from run_call [OF this st_revalidate [OF cov(2) ex_revalidate(2)]]
  have "reg_run ex_reg0 [ex_segment 4 9 0x1000, ex_segment 5 2 0x2000] (ex_progress 0x3000 2 RsReserved)"
    by (simp add: ex_segment_def)
  from run_call [OF this st_commit [OF ex_commit]] show ?thesis by simp
qed

theorem pinned_pages_protected_witness:
  "contiguous 0x1000 (map sg_covered [ex_segment 4 9 0x1000, ex_segment 5 2 0x2000]) 0x3000 \<and>
   admit_mutation (ex_progress 0x3000 2 RsActive) \<lparr>iv_expected = expected (ex_mapping 5 2 0x2000),
     iv_range = pages_at 0x2000 0x1000 4096, iv_reason = InvUnmap\<rparr> \<noteq> Inr ()"
proof -
  let ?rec = "(new_record 1 ex_request 3 (pages_at 0x1000 0x2000 4096) ex_charge)
     \<lparr>pn_validated_until := 0x3000, pn_validated_mappings := 2, pn_state := RsActive\<rparr>"
  let ?iv = "\<lparr>iv_expected = expected (ex_mapping 5 2 0x2000), iv_range = pages_at 0x2000 0x1000 4096, iv_reason = InvUnmap\<rparr>"
  have live: "set (live_records (ex_progress 0x3000 2 RsActive)) = {?rec}"
    by (simp add: live_records_def ex_progress_def)
  have mine: "segments_of (pn_token ?rec) [ex_segment 4 9 0x1000, ex_segment 5 2 0x2000] =
      [ex_segment 4 9 0x1000, ex_segment 5 2 0x2000]"
    by (simp add: segments_of_def ex_segment_def new_record_def)
  have iv: "ps_address_space (pn_snapshot ?rec) = em_address_space (iv_expected ?iv)"
    "pages_overlap (pn_range ?rec) (iv_range ?iv)" "rq_duration (pn_request ?rec) \<noteq> LongTerm" "pn_state ?rec = RsActive"
    "pr_start (pn_range ?rec) = 0x1000" "pr_end (pn_range ?rec) = 0x3000"
    by (simp_all add: new_record_def expected_def ex_mapping_def ex_request_def pages_overlap_iff)
  have first: "1 \<le> u64_max" by (simp add: u64_max_def)
  from pinned_pages_protected [OF ex_history(1) first ex_run] show ?thesis
    unfolding live Let_def ball_simps mine iv(5,6) using iv by blast
qed

theorem pin_token_never_reused_witness:
  "pin_release ex_reg3 1 = (ex_reg3, Inl UnknownToken)"
  using pin_token_never_reused [OF ex_registry_from(2), of 1 ex_reg3]
  by (simp add: live_tokens_def ex_reg3_def ex_reg1_def ex_reg0_def)

theorem pin_teardown_completes_witness:
  "\<exists>r1 r2 r3. begin_teardown ex_reg2 =
     (r1, Inr \<lparr>td_cancelled_reservations = 1, td_active_remaining = 0\<rparr>) \<and>
     release_all [] r1 = (r2, Inr ()) \<and> finish_teardown r2 = (r3, Inr ()) \<and> rg_state r3 = RegClosed"
proof -
  have "rg_state ex_reg2 \<noteq> RegClosed" "length (rg_records ex_reg2) \<le> usize_max" "reserved_count ex_reg2 = 1"
    "active_count ex_reg2 = 0" "\<forall>rec \<in> set (live_records ex_reg2). pn_state rec \<noteq> RsActive"
    by (simp_all add: ex_reg2_def ex_reg1_def ex_reg0_def usize_max_def reserved_count_def active_count_def
        live_records_def new_record_def)
  note facts = this
  have none: "{pn_token rec | rec. rec \<in> set (live_records ex_reg2) \<and> pn_state rec = RsActive} = {}"
    using facts(5) by blast
  from pin_teardown_completes [OF ex_registry_from(1) facts(1,2)] obtain r1 where
    r1: "begin_teardown ex_reg2 = (r1, Inr \<lparr>td_cancelled_reservations = 1, td_active_remaining = 0\<rparr>)"
      "\<exists>r2 r3. release_all [] r1 = (r2, Inr ()) \<and> finish_teardown r2 = (r3, Inr ()) \<and> rg_state r3 = RegClosed"
    unfolding none facts(3,4) by (metis distinct.simps(1) empty_set)
  then show ?thesis by blast
qed

end
