(* ===== verification/Pin_Budget_Props.thy ===== *)
theory Pin_Budget_Props
  imports Pin_Registry_Safety
begin

text \<open>
  The system-wide pin budget refines an abstract budget that is just a finite map from live
  charge tokens to their accounting: slots, record search and the incrementally maintained
  usage are implementation detail.
\<close>

section \<open>Abstract budgets\<close>

record spec_budget =
  sb_held :: "nat \<rightharpoonup> pin_accounting"
  sb_next :: "nat option"

definition spec_total :: "(nat \<rightharpoonup> pin_accounting) \<Rightarrow> pin_accounting" where
  "spec_total m = pa_total (image_mset (\<lambda>t. the (m t)) (mset_set (dom m)))"

definition representable :: "pin_accounting \<Rightarrow> bool" where
  "representable a \<longleftrightarrow> pa_pages a \<le> u64_max \<and> pa_bytes a \<le> u64_max \<and> pa_tokens a \<le> u64_max"

text \<open>Reserving needs a free slot, a representable total within the quota and an unused token.\<close>

definition spec_reserve ::
  "nat \<Rightarrow> pin_quota \<Rightarrow> spec_budget \<Rightarrow> page_range \<Rightarrow> (spec_budget, mm_error, nat) outcome" where
  "spec_reserve capacity quota s pages =
     (let a = \<lparr>pa_pages = page_count pages, pa_bytes = pr_len pages, pa_tokens = 1\<rparr>;
          total = pa_plus (spec_total (sb_held s)) a
      in if card (dom (sb_held s)) = capacity then (s, Inl CapacityExceeded)
         else if \<not> representable total then (s, Inl MmOverflow)
         else if \<not> admits quota total then (s, Inl QuotaExceeded)
         else case sb_next s of
           None \<Rightarrow> (s, Inl MmIdExhausted)
         | Some t \<Rightarrow> (\<lparr>sb_held = (sb_held s)(t \<mapsto> a), sb_next = next_token t\<rparr>, Inr t))"

definition spec_free :: "spec_budget \<Rightarrow> nat \<Rightarrow> (spec_budget, mm_error, unit) outcome" where
  "spec_free s t =
     (if sb_held s t = None then (s, Inl UnknownToken)
      else (s\<lparr>sb_held := (sb_held s)(t := None)\<rparr>, Inr ()))"

section \<open>Abstraction and invariant\<close>

definition br_token :: "pin_budget_record \<Rightarrow> nat" where
  "br_token rec = bc_token (br_charge rec)"

definition held_of :: "pin_budget_record option list \<Rightarrow> nat \<rightharpoonup> pin_accounting" where
  "held_of xs t = (case position (\<lambda>x. case x of None \<Rightarrow> False | Some rec \<Rightarrow> br_token rec = t) xs of
     None \<Rightarrow> None | Some i \<Rightarrow> Some (br_accounting (the (xs ! i))))"

definition abs_budget :: "pin_budget \<Rightarrow> spec_budget" where
  "abs_budget b = \<lparr>sb_held = held_of (pb_records b), sb_next = pb_next_charge b\<rparr>"

definition budget_ok :: "pin_budget \<Rightarrow> bool" where
  "budget_ok b \<longleftrightarrow> is_power_of_two (pb_page_size b) \<and>
     distinct_keys (map_option br_token) (pb_records b) \<and>
     keys_below (map_option br_token) (token_bound (pb_next_charge b)) (pb_records b) \<and>
     (\<forall>t. pb_next_charge b = Some t \<longrightarrow> t \<le> u64_max) \<and>
     (\<forall>rec. Some rec \<in> set (pb_records b) \<longrightarrow> bc_budget (br_charge rec) = pb_identity b) \<and>
     pb_usage b = pa_total (image_mset br_accounting (mset (flatten (pb_records b)))) \<and>
     representable (pb_usage b) \<and> admits (pb_quota b) (pb_usage b)"

lemma held_of_Some:
  assumes "distinct_keys (map_option br_token) xs"
  shows "held_of xs t = Some a \<longleftrightarrow> (\<exists>i < length xs. \<exists>rec. xs ! i = Some rec \<and> br_token rec = t \<and> a = br_accounting rec)"
    (is "_ \<longleftrightarrow> ?R")
proof
  assume "held_of xs t = Some a"
  then obtain i where i: "position (\<lambda>x. case x of None \<Rightarrow> False | Some rec \<Rightarrow> br_token rec = t) xs = Some i"
    and a: "a = br_accounting (the (xs ! i))"
    by (auto simp: held_of_def simp del: option.case_eq_if split: option.split_asm)
  from key_index_Some [OF i] a show ?R by auto
next
  assume ?R
  then obtain i rec where i: "i < length xs" "xs ! i = Some rec" "br_token rec = t" "a = br_accounting rec" by blast
  then have "position (\<lambda>x. case x of None \<Rightarrow> False | Some rec \<Rightarrow> br_token rec = t) xs \<noteq> None"
    using nth_mem [of i xs] by (auto simp: key_index_None)
  then obtain k where k: "position (\<lambda>x. case x of None \<Rightarrow> False | Some rec \<Rightarrow> br_token rec = t) xs = Some k" by blast
  from key_index_Some [OF k] have "k = i"
    using distinct_keysD [OF assms, of k i t] i by auto
  then show "held_of xs t = Some a" using k i by (simp add: held_of_def)
qed

lemma held_of_dom: "dom (held_of xs) = br_token ` set (flatten xs)"
proof -
  have "held_of xs t = None \<longleftrightarrow> (\<forall>rec. Some rec \<in> set xs \<longrightarrow> br_token rec \<noteq> t)" for t
    unfolding held_of_def using key_index_None [of br_token t xs]
    by (cases "position (\<lambda>x. case x of None \<Rightarrow> False | Some rec \<Rightarrow> br_token rec = t) xs") auto
  then show ?thesis by (auto simp: dom_def set_flatten)
qed

lemma distinct_tokens: "distinct_keys (map_option br_token) xs \<Longrightarrow> distinct (map br_token (flatten xs))"
proof (induction xs rule: flatten.induct)
  case (2 xs)
  have "distinct_keys (map_option br_token) xs"
    using 2(2) unfolding distinct_keys_def by (metis Suc_inject Suc_less_eq length_Cons nth_Cons_Suc)
  then show ?case using 2(1) by simp
next
  case (3 x xs)
  have tail: "distinct_keys (map_option br_token) xs"
    using 3(2) unfolding distinct_keys_def by (metis Suc_inject Suc_less_eq length_Cons nth_Cons_Suc)
  have "br_token y \<noteq> br_token x" if mem: "y \<in> set (flatten xs)" for y
  proof
    assume same: "br_token y = br_token x"
    obtain i where "i < length xs" "xs ! i = Some y" using mem unfolding set_flatten_nth by blast
    then show False using distinct_keysD [OF 3(2), of 0 "Suc i" "br_token x"] same by simp
  qed
  then have "br_token x \<notin> set (map br_token (flatten xs))" by (metis imageE list.set_map)
  then show ?case using 3(1) [OF tail] by simp
qed simp

lemma spec_total_held:
  assumes "distinct_keys (map_option br_token) xs"
  shows "spec_total (held_of xs) = pa_total (image_mset br_accounting (mset (flatten xs)))"
proof -
  have dist: "distinct (map br_token (flatten xs))" using assms by (rule distinct_tokens)
  have "mset_set (dom (held_of xs)) = mset (map br_token (flatten xs))"
    using mset_set_set [OF dist] by (simp add: held_of_dom)
  moreover have "the (held_of xs (br_token rec)) = br_accounting rec" if "rec \<in> set (flatten xs)" for rec
  proof -
    from that obtain i where "i < length xs" "xs ! i = Some rec" by (auto simp: set_flatten_nth)
    then have "held_of xs (br_token rec) = Some (br_accounting rec)" using held_of_Some [OF assms] by blast
    then show ?thesis by simp
  qed
  ultimately have "image_mset (\<lambda>t. the (held_of xs t)) (mset_set (dom (held_of xs))) =
      image_mset br_accounting (mset (flatten xs))"
    by (simp add: image_mset.compositionality comp_def) (intro image_mset_cong, simp)
  then show ?thesis by (simp add: spec_total_def)
qed

lemma card_held:
  assumes "distinct_keys (map_option br_token) xs"
  shows "card (dom (held_of xs)) = length xs \<longleftrightarrow> position (\<lambda>x. x = None) xs = None"
proof -
  have "card (dom (held_of xs)) = length (flatten xs)"
    using distinct_card [OF distinct_tokens [OF assms]] by (simp add: held_of_dom)
  moreover have "length (flatten xs) \<le> length xs \<and> (length (flatten xs) = length xs \<longleftrightarrow> None \<notin> set xs)"
    for xs :: "pin_budget_record option list"
    by (induction xs rule: flatten.induct) auto
  ultimately show ?thesis unfolding position_None_iff by (metis not_None_eq)
qed

lemma pa_checked_add_cases:
  "pa_checked_add a c = (if representable (pa_plus a c) then Inr (pa_plus a c) else Inl MmOverflow)"
  by (auto simp: pa_checked_add_def representable_def pa_plus_def checked_add_def)

lemma held_of_insert:
  assumes "distinct_keys (map_option br_token) xs" and "i < length xs" and "xs ! i = None"
    and "br_token rec = t" and fresh: "\<And>r. Some r \<in> set xs \<Longrightarrow> br_token r \<noteq> t"
  shows "distinct_keys (map_option br_token) (xs[i := Some rec])"
    and "held_of (xs[i := Some rec]) = (held_of xs)(t \<mapsto> br_accounting rec)"
proof -
  show dist: "distinct_keys (map_option br_token) (xs[i := Some rec])"
    using assms(1,4) fresh by (intro distinct_keys_update) (auto, metis nth_mem)
  have "held_of (xs[i := Some rec]) u = Some a \<longleftrightarrow> ((held_of xs)(t \<mapsto> br_accounting rec)) u = Some a" for u a
  proof (cases "u = t")
    case True
    have "held_of (xs[i := Some rec]) t = Some (br_accounting rec)"
      using held_of_Some [OF dist, of t "br_accounting rec"] assms(2,4) by (metis length_list_update nth_list_update_eq)
    then show ?thesis using True by simp
  next
    case False
    have "(\<exists>k < length (xs[i := Some rec]). \<exists>r. xs[i := Some rec] ! k = Some r \<and> br_token r = u \<and> a = br_accounting r) \<longleftrightarrow>
        (\<exists>k < length xs. \<exists>r. xs ! k = Some r \<and> br_token r = u \<and> a = br_accounting r)"
      using False assms(2-4)
      by (metis length_list_update nth_list_update_eq nth_list_update_neq option.distinct(1) option.inject)
    then show ?thesis using False by (simp add: held_of_Some [OF dist] held_of_Some [OF assms(1)])
  qed
  then show "held_of (xs[i := Some rec]) = (held_of xs)(t \<mapsto> br_accounting rec)"
    by (metis (no_types, opaque_lifting) ext not_None_eq)
qed

lemma held_of_remove:
  assumes "distinct_keys (map_option br_token) xs" and "i < length xs" and "xs ! i = Some rec"
  shows "distinct_keys (map_option br_token) (xs[i := None])"
    and "held_of (xs[i := None]) = (held_of xs)(br_token rec := None)"
proof -
  show dist: "distinct_keys (map_option br_token) (xs[i := None])"
    using assms(1,2) by (intro distinct_keys_update_keep) auto
  have "held_of (xs[i := None]) u = Some a \<longleftrightarrow> ((held_of xs)(br_token rec := None)) u = Some a" for u a
  proof -
    have only: "k = i" if "k < length xs" "xs ! k = Some r" "br_token r = br_token rec" for k r
      using distinct_keysD [OF assms(1), of k i "br_token rec"] that assms(2,3) by simp
    have "(\<exists>k < length (xs[i := None]). \<exists>r. xs[i := None] ! k = Some r \<and> br_token r = u \<and> a = br_accounting r) \<longleftrightarrow>
        u \<noteq> br_token rec \<and> (\<exists>k < length xs. \<exists>r. xs ! k = Some r \<and> br_token r = u \<and> a = br_accounting r)" (is "?A \<longleftrightarrow> ?B")
    proof
      assume ?A
      then obtain k r where k: "k < length xs" "xs[i := None] ! k = Some r" "br_token r = u" "a = br_accounting r" by auto
      then have "k \<noteq> i" using assms(2) by auto
      then show ?B using k only [of k r] by auto
    next
      assume ?B
      then obtain k r where k: "u \<noteq> br_token rec" "k < length xs" "xs ! k = Some r" "br_token r = u" "a = br_accounting r" by auto
      then have "k \<noteq> i" using assms(3) by auto
      then show ?A using k by (intro exI [of _ k]) auto
    qed
    then show ?thesis by (simp add: held_of_Some [OF dist] held_of_Some [OF assms(1)])
  qed
  then show "held_of (xs[i := None]) = (held_of xs)(br_token rec := None)"
    by (metis (no_types, opaque_lifting) ext not_None_eq)
qed

section \<open>Refinement\<close>

lemma budget_reserve_refines:
  assumes ok: "budget_ok b" and rng: "range_ok (rq_range request)"
    and cov: "covering (rq_range request) (pb_page_size b) = Inr pages" and res: "budget_reserve b request = (b', r)"
  shows "budget_ok b' \<and> (abs_budget b', map_sum id bc_token r) =
    spec_reserve (length (pb_records b)) (pb_quota b) (abs_budget b) pages"
proof -
  let ?xs = "pb_records b" and ?a = "\<lparr>pa_pages = page_count pages, pa_bytes = pr_len pages, pa_tokens = 1\<rparr>"
  have dist: "distinct_keys (map_option br_token) ?xs" using ok by (simp add: budget_ok_def)
  have total: "spec_total (held_of ?xs) = pb_usage b" using ok spec_total_held [OF dist] by (simp add: budget_ok_def)
  note defs = budget_reserve_def spec_reserve_def abs_budget_def cov pa_for_range_def pa_checked_add_cases Let_def
  show ?thesis
  proof (cases "position (\<lambda>x. x = None) ?xs")
    case None
    then show ?thesis using res ok card_held [OF dist] by (auto simp: defs)
  next
    case (Some i)
    then have card: "card (dom (held_of ?xs)) \<noteq> length ?xs" using card_held [OF dist] by simp
    show ?thesis
    proof (cases "\<exists>t. representable (pa_plus (pb_usage b) ?a) \<and> admits (pb_quota b) (pa_plus (pb_usage b) ?a) \<and> pb_next_charge b = Some t")
      case False
      then have "r = (if \<not> representable (pa_plus (pb_usage b) ?a) then Inl MmOverflow
          else if \<not> admits (pb_quota b) (pa_plus (pb_usage b) ?a) then Inl QuotaExceeded else Inl MmIdExhausted)" "b' = b"
        using res Some by (auto simp: defs split: if_splits option.splits)
      then show ?thesis using False ok card total by (auto simp: spec_reserve_def abs_budget_def Let_def)
    next
      case True
      then obtain t where t: "representable (pa_plus (pb_usage b) ?a)" "admits (pb_quota b) (pa_plus (pb_usage b) ?a)"
        "pb_next_charge b = Some t" by blast
      let ?rec = "\<lparr>br_charge = \<lparr>bc_budget = pb_identity b, bc_token = t\<rparr>, br_range = pages, br_accounting = ?a\<rparr>"
      have r: "r = Inr \<lparr>bc_budget = pb_identity b, bc_token = t\<rparr>"
        and b': "b' = b\<lparr>pb_next_charge := next_token t, pb_usage := pa_plus (pb_usage b) ?a, pb_records := ?xs[i := Some ?rec]\<rparr>"
        using res Some t by (auto simp: defs)
      have i: "i < length ?xs" "?xs ! i = None" using free_index_Some [OF Some] by auto
      have below: "keys_below (map_option br_token) t ?xs" and max: "t \<le> u64_max"
        using ok t(3) by (simp_all add: budget_ok_def)
      then have fresh: "br_token q \<noteq> t" if "Some q \<in> set ?xs" for q using that by (force simp: keys_below_def)
      have tok: "br_token ?rec = t" by (simp add: br_token_def)
      note ins = held_of_insert [OF dist i tok fresh]
      have "keys_below (map_option br_token) (Suc t) (?xs[i := Some ?rec])"
        using keys_below_mono [OF below, of "Suc t"] tok by (intro keys_below_update) auto
      moreover have "next_token t = Some t' \<Longrightarrow> t' \<le> u64_max" for t'
        by (auto simp: next_token_def checked_iffs Option.bind_eq_Some_conv split: if_splits)
      moreover have "\<forall>rec. Some rec \<in> set (?xs[i := Some ?rec]) \<longrightarrow> bc_budget (br_charge rec) = pb_identity b"
        using ok set_list_update_cases by (fastforce simp: budget_ok_def)
      moreover have "pa_plus (pb_usage b) ?a = pa_total (image_mset br_accounting (mset (flatten (?xs[i := Some ?rec]))))"
        using ok by (simp add: mset_flatten_insert [OF i] budget_ok_def pa_total_add)
      ultimately have "budget_ok b'" using ok t ins(1) by (simp add: budget_ok_def b' token_bound_next [OF max])
      moreover have "held_of (?xs[i := Some ?rec]) = (held_of ?xs)(t \<mapsto> ?a)" using ins(2) by simp
      ultimately show ?thesis using t card total by (simp add: r b' spec_reserve_def abs_budget_def Let_def)
    qed
  qed
qed

lemma budget_free_refines:
  assumes ok: "budget_ok b" and own: "bc_budget charge = pb_identity b" and res: "budget_free b charge = (b', r)"
  shows "budget_ok b' \<and> (abs_budget b', r) = spec_free (abs_budget b) (bc_token charge)"
proof -
  let ?xs = "pb_records b" and ?t = "bc_token charge"
  have dist: "distinct_keys (map_option br_token) ?xs" using ok by (simp add: budget_ok_def)
  have same: "br_charge rec = charge \<longleftrightarrow> br_token rec = ?t" if "Some rec \<in> set ?xs" for rec
    using ok that own by (auto simp: budget_ok_def br_token_def intro: pin_budget_charge.equality)
  have eq: "position (\<lambda>r. case r of None \<Rightarrow> False | Some rec \<Rightarrow> br_charge rec = charge) ?xs =
      position (\<lambda>x. case x of None \<Rightarrow> False | Some rec \<Rightarrow> br_token rec = ?t) ?xs"
    using same by (intro position_cong) (auto split: option.splits)
  show ?thesis
  proof (cases "position (\<lambda>x. case x of None \<Rightarrow> False | Some rec \<Rightarrow> br_token rec = ?t) ?xs")
    case None
    then have "held_of ?xs ?t = None" by (simp add: held_of_def)
    then show ?thesis
      using res own None ok by (simp add: budget_free_def budget_record_index_def eq spec_free_def abs_budget_def)
  next
    case (Some i)
    from key_index_Some [OF Some] obtain rec where i: "i < length ?xs" "?xs ! i = Some rec" "br_token rec = ?t" by blast
    let ?rest = "pa_total (image_mset br_accounting (mset (flatten (?xs[i := None]))))"
    have usage: "pb_usage b = pa_plus ?rest (br_accounting rec)"
      using ok mset_flatten_remove [OF i(1,2)] by (simp add: budget_ok_def pa_total_add)
    have res': "r = Inr ()" "b' = b\<lparr>pb_records := ?xs[i := None], pb_usage := ?rest\<rparr>"
      using res own Some i usage by (auto simp: budget_free_def budget_record_index_def eq pa_checked_sub_plus)
    note del = held_of_remove [OF dist i(1,2)]
    have "representable ?rest" "admits (pb_quota b) ?rest"
      using ok usage admits_mono by (auto simp: budget_ok_def representable_def pa_plus_def)
    moreover have "keys_below (map_option br_token) (token_bound (pb_next_charge b)) (?xs[i := None])"
      using ok i(1) by (intro keys_below_update_keep) (auto simp: budget_ok_def)
    moreover have "\<forall>rec. Some rec \<in> set (?xs[i := None]) \<longrightarrow> bc_budget (br_charge rec) = pb_identity b"
      using ok set_list_update_cases by (fastforce simp: budget_ok_def)
    ultimately have "budget_ok b'" using ok del(1) by (simp add: budget_ok_def res'(2))
    moreover have "held_of ?xs ?t \<noteq> None" using Some by (simp add: held_of_def)
    ultimately show ?thesis using del(2) i(3) by (simp add: res' spec_free_def abs_budget_def)
  qed
qed

lemma budget_new_ok:
  assumes "budget_new capacity counter bytes quota first = (counter', Inr b)" and "first \<le> u64_max"
  shows "budget_ok b \<and> abs_budget b = \<lparr>sb_held = Map.empty, sb_next = Some first\<rparr> \<and> length (pb_records b) = capacity"
proof -
  have "pb_records b = replicate capacity None \<and> pb_next_charge b = Some first \<and> pb_usage b = pa_zero \<and>
      is_power_of_two (pb_page_size b)"
    using assms(1)
    by (auto simp: budget_new_def page_size_new_Inr nonzero_id_def split: sum.splits prod.splits if_splits)
  moreover have "held_of (replicate capacity None) = Map.empty"
    using held_of_dom [of "replicate capacity None"] by simp
  moreover have "representable pa_zero" by (simp add: representable_def pa_zero_def)
  ultimately show ?thesis using assms(2) by (simp add: budget_ok_def abs_budget_def)
qed

text \<open>
  C34. The pin budget refines a plain map of live charges. From a fresh budget on, reserving and
  releasing act on the abstraction, a finite map from charge tokens to their pages and bytes,
  exactly as the abstract budget does, with the same answer: the slot table, the record search
  and the running usage counter are invisible. A charge of another budget is refused and
  changes nothing.
\<close>

theorem pin_budget_refines:
  assumes "budget_ok b"
  shows "(\<forall>request pages b' r. range_ok (rq_range request) \<and>
        covering (rq_range request) (pb_page_size b) = Inr pages \<and> budget_reserve b request = (b', r) \<longrightarrow>
        budget_ok b' \<and> (abs_budget b', map_sum id bc_token r) =
          spec_reserve (length (pb_records b)) (pb_quota b) (abs_budget b) pages) \<and>
    (\<forall>charge b' r. bc_budget charge = pb_identity b \<and> budget_free b charge = (b', r) \<longrightarrow>
        budget_ok b' \<and> (abs_budget b', r) = spec_free (abs_budget b) (bc_token charge)) \<and>
    (\<forall>charge. bc_budget charge \<noteq> pb_identity b \<longrightarrow> budget_free b charge = (b, Inl BudgetMismatch)) \<and>
    pb_usage b = spec_total (sb_held (abs_budget b))"
proof (intro conjI allI impI)
  show "pb_usage b = spec_total (sb_held (abs_budget b))"
    using assms spec_total_held [of "pb_records b"] by (simp add: budget_ok_def abs_budget_def)
  fix charge :: pin_budget_charge assume "bc_budget charge \<noteq> pb_identity b"
  then show "budget_free b charge = (b, Inl BudgetMismatch)"
    by (simp add: budget_free_def budget_record_index_def)
qed (use budget_reserve_refines [OF assms] budget_free_refines [OF assms] in blast)+

theorem pin_budget_refines_witness:
  "\<exists>counter b. budget_new 2 1 4096 \<lparr>pq_max_pages = 4, pq_max_bytes = 0x4000, pq_max_tokens = 2\<rparr> 9 = (counter, Inr b) \<and>
     budget_ok b \<and> pb_usage b = spec_total Map.empty \<and>
     budget_free b \<lparr>bc_budget = 5, bc_token = 9\<rparr> = (b, Inl BudgetMismatch)"
proof -
  let ?q = "\<lparr>pq_max_pages = 4, pq_max_bytes = 0x4000, pq_max_tokens = 2\<rparr>"
  have "4096 = (2 :: nat) ^ 12" by simp
  then have p: "is_power_of_two 4096" unfolding is_power_of_two_iff by (intro exI [of _ 12]) simp
  obtain b where new: "budget_new 2 1 4096 ?q 9 = (2, Inr b)" and ident: "pb_identity b = 1"
    by (simp add: budget_new_def page_size_new_Inr [THEN iffD2, OF conjI [OF refl p]] nonzero_id_def
        allocate_pin_budget_identity_def identity_update_def u64_max_def)
  have ok: "budget_ok b \<and> abs_budget b = \<lparr>sb_held = Map.empty, sb_next = Some 9\<rparr>"
    using budget_new_ok [OF new] by (simp add: u64_max_def)
  from pin_budget_refines [OF conjunct1 [OF ok]] ok ident new show ?thesis by auto
qed

end
