(* ===== verification/Cred_Idmap.thy ===== *)
theory Cred_Idmap
  imports Abi_Prelude
begin

text \<open>
  The identity maps of a user namespace, \<^verbatim>\<open>cred/src/idmap.rs\<close> and \<^verbatim>\<open>error.rs\<close>: typed kernel and
  namespace-visible identifiers, validation of map rows, resolution of rows through the parent
  map, the forward and reverse indexes, and the binary search both lookups share. Identifiers
  are 32-bit words. \<open>alloc_ok s\<close> is the allocator's answer at the allocation \<open>s\<close> of one call.

  A sort by key in the source is unstable. Rows with equal keys overlap, so the check after the
  sort rejects them whatever their order, and \<open>sort_key\<close> describes the sort.
\<close>

section \<open>Errors and typed identifiers\<close>

datatype cred_error = CrInvalidInput | CrNotPermitted | CrNoMemory | CrCapacity

datatype alloc_site =
    AllocOrderedRows
  | AllocResolvedRows
  | AllocIdentityRow
  | AllocReverseIndex
  | AllocMapObject
  | AllocRowSnapshot
  | AllocGroupList
  | AllocGroupObject
  | AllocCredentialObject

definition invalid_id :: u32 where
  "invalid_id = - 1"

definition id_map_max_extents :: nat where
  "id_map_max_extents = 340"

datatype kuid = Kuid (kuid_raw: u32)
datatype kgid = Kgid (kgid_raw: u32)
datatype user_uid = UserUid (user_uid_raw: u32)
datatype user_gid = UserGid (user_gid_raw: u32)

definition kuid_from_raw :: "u32 \<Rightarrow> kuid option" where
  "kuid_from_raw raw = (if raw = invalid_id then None else Some (Kuid raw))"

definition kgid_from_raw :: "u32 \<Rightarrow> kgid option" where
  "kgid_from_raw raw = (if raw = invalid_id then None else Some (Kgid raw))"

definition user_uid_from_raw :: "u32 \<Rightarrow> user_uid option" where
  "user_uid_from_raw raw = (if raw = invalid_id then None else Some (UserUid raw))"

definition user_gid_from_raw :: "u32 \<Rightarrow> user_gid option" where
  "user_gid_from_raw raw = (if raw = invalid_id then None else Some (UserGid raw))"

definition kuid_initial_root :: kuid where
  "kuid_initial_root = Kuid 0"

definition kgid_initial_root :: kgid where
  "kgid_initial_root = Kgid 0"

definition user_uid_root :: user_uid where
  "user_uid_root = UserUid 0"

definition user_gid_root :: user_gid where
  "user_gid_root = UserGid 0"

section \<open>Rows, extents and the map\<close>

text \<open>
  Rows as userspace writes them and validated extents have the same three fields; a row's
  \<open>lower_first\<close> is in the parent's view, an extent's is kernel-global.
\<close>

record id_extent =
  ex_first :: u32
  ex_lower_first :: u32
  ex_count :: u32

definition input_extent_new :: "u32 \<Rightarrow> u32 \<Rightarrow> u32 \<Rightarrow> id_extent" where
  "input_extent_new f l c = \<lparr>ex_first = f, ex_lower_first = l, ex_count = c\<rparr>"

definition upper_end :: "id_extent \<Rightarrow> u32" where
  "upper_end e = ex_first e + ex_count e"

definition lower_end :: "id_extent \<Rightarrow> u32" where
  "lower_end e = ex_lower_first e + ex_count e"

record id_map =
  im_forward :: "id_extent list"
  im_reverse :: "id_extent list"

definition checked_add_u32 :: "u32 \<Rightarrow> u32 \<Rightarrow> u32 option" where
  "checked_add_u32 a b = (if unat a + unat b < 2 ^ 32 then Some (a + b) else None)"

definition valid_range_end :: "u32 \<Rightarrow> u32 \<Rightarrow> u32 option" where
  "valid_range_end first n =
     (if n = 0 \<or> first = invalid_id then None else checked_add_u32 first n)"

definition validate_range :: "u32 \<Rightarrow> u32 \<Rightarrow> cred_error + u32" where
  "validate_range first n = ok_or CrInvalidInput (valid_range_end first n)"

fun validate_non_overlapping ::
  "(id_extent \<Rightarrow> u32) \<Rightarrow> (id_extent \<Rightarrow> u32) \<Rightarrow> id_extent list \<Rightarrow> cred_error + unit" where
  "validate_non_overlapping start end_of (a # b # rest) =
     (if end_of a > start b then Inl CrInvalidInput
      else validate_non_overlapping start end_of (b # rest))"
| "validate_non_overlapping start end_of _ = Inr ()"

text \<open>The loops that validate every row, and the two window checks of \<open>validate_id_map_input\<close>.\<close>

fun validate_ranges :: "id_extent list \<Rightarrow> cred_error + unit" where
  "validate_ranges [] = Inr ()"
| "validate_ranges (e # es) =
     and_then (validate_range (ex_first e) (ex_count e)) (\<lambda>_.
     and_then (validate_range (ex_lower_first e) (ex_count e)) (\<lambda>_. validate_ranges es))"

fun validate_windows :: "(id_extent \<Rightarrow> u32) \<Rightarrow> id_extent list \<Rightarrow> cred_error + unit" where
  "validate_windows start (a # b # rest) =
     and_then (ok_or CrInvalidInput (valid_range_end (start a) (ex_count a))) (\<lambda>previous_end.
       if previous_end > start b then Inl CrInvalidInput else validate_windows start (b # rest))"
| "validate_windows start _ = Inr ()"

definition validate_id_map_input ::
  "(alloc_site \<Rightarrow> bool) \<Rightarrow> id_extent list \<Rightarrow> cred_error + unit" where
  "validate_id_map_input alloc_ok input =
     (if input = [] \<or> length input > id_map_max_extents then Inl CrInvalidInput
      else if \<not> alloc_ok AllocOrderedRows then Inl CrNoMemory
      else and_then (validate_ranges input) (\<lambda>_.
        let ordered = sort_key ex_first input
        in and_then (validate_windows ex_first ordered) (\<lambda>_.
             validate_windows ex_lower_first (sort_key ex_lower_first ordered))))"

section \<open>Lookups\<close>

text \<open>The search loop: the first index in \<open>[left, right)\<close> whose start is above \<open>id\<close>.\<close>

function find_left :: "(id_extent \<Rightarrow> u32) \<Rightarrow> id_extent list \<Rightarrow> u32 \<Rightarrow> nat \<Rightarrow> nat \<Rightarrow> nat" where
  "find_left start extents i left right =
     (if left < right then
        let middle = left + (right - left) div 2
        in if start (extents ! middle) \<le> i then find_left start extents i (middle + 1) right
           else find_left start extents i left middle
      else left)"
  by pat_completeness auto

termination
  by (relation "measure (\<lambda>(_, _, _, left, right). right - left)") auto

declare find_left.simps [simp del]

definition find_extent ::
  "(id_extent \<Rightarrow> u32) \<Rightarrow> (id_extent \<Rightarrow> u32) \<Rightarrow> id_extent list \<Rightarrow> u32 \<Rightarrow> id_extent option" where
  "find_extent start end_of extents i =
     (case checked_sub (find_left start extents i 0 (length extents)) 1 of
        None \<Rightarrow> None
      | Some k \<Rightarrow>
          (case vec_get extents k of
             None \<Rightarrow> None
           | Some candidate \<Rightarrow> if i < end_of candidate then Some candidate else None))"

definition map_id_to_kernel :: "id_map \<Rightarrow> u32 \<Rightarrow> u32 option" where
  "map_id_to_kernel m i =
     (case find_extent ex_first upper_end (im_forward m) i of
        None \<Rightarrow> None
      | Some e \<Rightarrow> checked_add_u32 (ex_lower_first e) (i - ex_first e))"

definition map_id_from_kernel :: "id_map \<Rightarrow> u32 \<Rightarrow> u32 option" where
  "map_id_from_kernel m i =
     (case find_extent ex_lower_first lower_end (im_reverse m) i of
        None \<Rightarrow> None
      | Some e \<Rightarrow> checked_add_u32 (ex_first e) (i - ex_lower_first e))"

definition map_range_to_kernel :: "id_map \<Rightarrow> u32 \<Rightarrow> u32 \<Rightarrow> u32 option" where
  "map_range_to_kernel m first n =
     (case valid_range_end first n of
        None \<Rightarrow> None
      | Some range_end \<Rightarrow>
          (case find_extent ex_first upper_end (im_forward m) first of
             None \<Rightarrow> None
           | Some e \<Rightarrow>
               if range_end > upper_end e then None
               else checked_add_u32 (ex_lower_first e) (first - ex_first e)))"

definition user_uid_to_kernel :: "id_map \<Rightarrow> user_uid \<Rightarrow> kuid option" where
  "user_uid_to_kernel m i = Option.bind (map_id_to_kernel m (user_uid_raw i)) kuid_from_raw"

definition kernel_uid_to_user :: "id_map \<Rightarrow> kuid \<Rightarrow> user_uid option" where
  "kernel_uid_to_user m i = Option.bind (map_id_from_kernel m (kuid_raw i)) user_uid_from_raw"

definition user_gid_to_kernel :: "id_map \<Rightarrow> user_gid \<Rightarrow> kgid option" where
  "user_gid_to_kernel m i = Option.bind (map_id_to_kernel m (user_gid_raw i)) kgid_from_raw"

definition kernel_gid_to_user :: "id_map \<Rightarrow> kgid \<Rightarrow> user_gid option" where
  "kernel_gid_to_user m i = Option.bind (map_id_from_kernel m (kgid_raw i)) user_gid_from_raw"

definition idmap_is_empty :: "id_map \<Rightarrow> bool" where
  "idmap_is_empty m \<longleftrightarrow> im_forward m = []"

definition idmap_len :: "id_map \<Rightarrow> nat" where
  "idmap_len m = length (im_forward m)"

section \<open>Construction\<close>

definition try_empty :: "(alloc_site \<Rightarrow> bool) \<Rightarrow> cred_error + id_map" where
  "try_empty alloc_ok =
     (if alloc_ok AllocMapObject then Inr \<lparr>im_forward = [], im_reverse = []\<rparr> else Inl CrNoMemory)"

definition try_from_kernel_extents ::
  "(alloc_site \<Rightarrow> bool) \<Rightarrow> id_extent list \<Rightarrow> cred_error + id_map" where
  "try_from_kernel_extents alloc_ok extents =
     (if extents = [] \<or> length extents > id_map_max_extents then Inl CrInvalidInput
      else and_then (validate_ranges extents) (\<lambda>_.
        let forward = sort_key ex_first extents
        in and_then (validate_non_overlapping ex_first upper_end forward) (\<lambda>_.
             if \<not> alloc_ok AllocReverseIndex then Inl CrNoMemory
             else let reverse = sort_key ex_lower_first forward
               in and_then (validate_non_overlapping ex_lower_first lower_end reverse) (\<lambda>_.
                    if alloc_ok AllocMapObject
                    then Inr \<lparr>im_forward = forward, im_reverse = reverse\<rparr>
                    else Inl CrNoMemory))))"

definition try_identity :: "(alloc_site \<Rightarrow> bool) \<Rightarrow> cred_error + id_map" where
  "try_identity alloc_ok =
     (if \<not> alloc_ok AllocIdentityRow then Inl CrNoMemory
      else try_from_kernel_extents alloc_ok
        [\<lparr>ex_first = 0, ex_lower_first = 0, ex_count = invalid_id\<rparr>])"

fun resolve_rows :: "id_map \<Rightarrow> id_extent list \<Rightarrow> cred_error + id_extent list" where
  "resolve_rows parent [] = Inr []"
| "resolve_rows parent (row # rows) =
     and_then (ok_or CrNotPermitted (map_range_to_kernel parent (ex_lower_first row) (ex_count row)))
       (\<lambda>lower. and_then (resolve_rows parent rows) (\<lambda>resolved.
          Inr (\<lparr>ex_first = ex_first row, ex_lower_first = lower, ex_count = ex_count row\<rparr>
               # resolved)))"

definition try_from_parent_slice ::
  "(alloc_site \<Rightarrow> bool) \<Rightarrow> id_extent list \<Rightarrow> id_map \<Rightarrow> cred_error + id_map" where
  "try_from_parent_slice alloc_ok input parent =
     and_then (validate_id_map_input alloc_ok input) (\<lambda>_.
       if \<not> alloc_ok AllocResolvedRows then Inl CrNoMemory
       else and_then (resolve_rows parent input) (try_from_kernel_extents alloc_ok))"

definition try_from_parent ::
  "(alloc_site \<Rightarrow> bool) \<Rightarrow> id_extent list \<Rightarrow> id_map \<Rightarrow> cred_error + id_map" where
  "try_from_parent alloc_ok input parent = try_from_parent_slice alloc_ok input parent"

definition try_extents_for_lower ::
  "(alloc_site \<Rightarrow> bool) \<Rightarrow> id_map \<Rightarrow> id_map \<Rightarrow> cred_error + id_extent list" where
  "try_extents_for_lower alloc_ok m lower =
     (if \<not> alloc_ok AllocRowSnapshot then Inl CrNoMemory
      else Inr (map (\<lambda>e. \<lparr>ex_first = ex_first e,
             ex_lower_first = (case map_id_from_kernel lower (ex_lower_first e) of
                                 None \<Rightarrow> invalid_id | Some l \<Rightarrow> l),
             ex_count = ex_count e\<rparr>) (im_forward m)))"

end
