(* ===== verification/Cred_Namespace.thy ===== *)
theory Cred_Namespace
  imports Cred_Idmap
begin

text \<open>
  User namespaces, \<^verbatim>\<open>cred/src/namespace.rs\<close>, and the read-only view of their topology that
  credential policy takes (the trait \<open>UserNamespaceView\<close> of \<^verbatim>\<open>credential.rs\<close>). A shared namespace
  handle is a value of the type variable \<open>'n\<close>, and pointer equality of handles is equality. The
  embedding kernel's implementation of the trait is the parameter record \<open>namespace_view\<close>.
\<close>

record 'n namespace_view =
  nv_parent :: "'n \<Rightarrow> 'n option"
  nv_level :: "'n \<Rightarrow> nat"
  nv_owner_kuid :: "'n \<Rightarrow> kuid"
  nv_root_kuid :: "'n \<Rightarrow> kuid option"
  nv_is_initial :: "'n \<Rightarrow> bool"

definition user_namespace_max_creation_parent_level :: nat where
  "user_namespace_max_creation_parent_level = 32"

definition user_namespace_overflow_id :: u32 where
  "user_namespace_overflow_id = 65534"

section \<open>Topology of one namespace\<close>

record 'n namespace_domain =
  nd_level :: nat
  nd_parent :: "'n option"
  nd_owner :: kuid
  nd_group :: kgid
  nd_parent_could_setfcap :: bool

definition domain_initial :: "'n namespace_domain" where
  "domain_initial = \<lparr>nd_level = 0, nd_parent = None, nd_owner = kuid_initial_root,
     nd_group = kgid_initial_root, nd_parent_could_setfcap = True\<rparr>"

definition domain_is_initial :: "'n namespace_domain \<Rightarrow> bool" where
  "domain_is_initial d \<longleftrightarrow> nd_parent d = None"

definition domain_try_child ::
  "('n, 'z) namespace_view_scheme \<Rightarrow> 'n \<Rightarrow> id_map \<Rightarrow> id_map \<Rightarrow> kuid \<Rightarrow> kgid \<Rightarrow> bool \<Rightarrow>
   cred_error + 'n namespace_domain" where
  "domain_try_child V parent parent_uid_map parent_gid_map owner grp could_setfcap =
     (let parent_level = nv_level V parent
      in if parent_level > user_namespace_max_creation_parent_level then Inl CrCapacity
         else and_then (ok_or CrCapacity (checked_add u32_max parent_level 1)) (\<lambda>level.
           if kernel_uid_to_user parent_uid_map owner = None
              \<or> kernel_gid_to_user parent_gid_map grp = None
           then Inl CrNotPermitted
           else Inr \<lparr>nd_level = level, nd_parent = Some parent, nd_owner = owner,
                  nd_group = grp, nd_parent_could_setfcap = could_setfcap\<rparr>))"

section \<open>Publication of the maps\<close>

datatype map_slot =
    SlotFixed id_map
  | SlotPublishOnce (slot_empty: id_map) (slot_published: "id_map option")

fun slot_map :: "map_slot \<Rightarrow> id_map" where
  "slot_map (SlotFixed m) = m"
| "slot_map (SlotPublishOnce fallback published) = (case published of None \<Rightarrow> fallback | Some m \<Rightarrow> m)"

fun slot_is_published :: "map_slot \<Rightarrow> bool" where
  "slot_is_published (SlotFixed m) = True"
| "slot_is_published (SlotPublishOnce fallback published) = (published \<noteq> None)"

definition slot_try_publish :: "map_slot \<Rightarrow> id_map \<Rightarrow> (map_slot, cred_error, unit) outcome" where
  "slot_try_publish s replacement =
     (if idmap_is_empty replacement then (s, Inl CrInvalidInput)
      else case s of
        SlotFixed m \<Rightarrow> (s, Inl CrNotPermitted)
      | SlotPublishOnce fallback published \<Rightarrow>
          if published \<noteq> None then (s, Inl CrNotPermitted)
          else (SlotPublishOnce fallback (Some replacement), Inr ()))"

record namespace_maps =
  nm_uid_map :: map_slot
  nm_gid_map :: map_slot
  nm_setgroups_allowed :: bool

definition maps_try_initial :: "(alloc_site \<Rightarrow> bool) \<Rightarrow> cred_error + namespace_maps" where
  "maps_try_initial alloc_ok =
     and_then (try_identity alloc_ok) (\<lambda>identity.
       Inr \<lparr>nm_uid_map = SlotFixed identity, nm_gid_map = SlotFixed identity,
            nm_setgroups_allowed = True\<rparr>)"

definition maps_try_child :: "(alloc_site \<Rightarrow> bool) \<Rightarrow> bool \<Rightarrow> cred_error + namespace_maps" where
  "maps_try_child alloc_ok allowed =
     and_then (try_empty alloc_ok) (\<lambda>fallback.
       Inr \<lparr>nm_uid_map = SlotPublishOnce fallback None, nm_gid_map = SlotPublishOnce fallback None,
            nm_setgroups_allowed = allowed\<rparr>)"

definition maps_uid_map :: "namespace_maps \<Rightarrow> id_map" where
  "maps_uid_map s = slot_map (nm_uid_map s)"

definition maps_gid_map :: "namespace_maps \<Rightarrow> id_map" where
  "maps_gid_map s = slot_map (nm_gid_map s)"

definition uid_map_written :: "namespace_maps \<Rightarrow> bool" where
  "uid_map_written s = slot_is_published (nm_uid_map s)"

definition gid_map_written :: "namespace_maps \<Rightarrow> bool" where
  "gid_map_written s = slot_is_published (nm_gid_map s)"

definition may_setgroups :: "namespace_maps \<Rightarrow> bool" where
  "may_setgroups s \<longleftrightarrow> slot_is_published (nm_gid_map s) \<and> nm_setgroups_allowed s"

definition try_publish_uid_map ::
  "namespace_maps \<Rightarrow> id_map \<Rightarrow> (namespace_maps, cred_error, unit) outcome" where
  "try_publish_uid_map s replacement =
     (case slot_try_publish (nm_uid_map s) replacement of
        (slot, r) \<Rightarrow> (s\<lparr>nm_uid_map := slot\<rparr>, r))"

definition try_publish_gid_map ::
  "namespace_maps \<Rightarrow> id_map \<Rightarrow> bool \<Rightarrow> (namespace_maps, cred_error, unit) outcome" where
  "try_publish_gid_map s replacement require_setgroups_denied =
     (if idmap_is_empty replacement then (s, Inl CrInvalidInput)
      else if require_setgroups_denied \<and> nm_setgroups_allowed s then (s, Inl CrNotPermitted)
      else case slot_try_publish (nm_gid_map s) replacement of
        (slot, r) \<Rightarrow> (s\<lparr>nm_gid_map := slot\<rparr>, r))"

definition try_update_setgroups_policy ::
  "namespace_maps \<Rightarrow> bool \<Rightarrow> (namespace_maps, cred_error, unit) outcome" where
  "try_update_setgroups_policy s allow =
     (if allow then
        if \<not> nm_setgroups_allowed s then (s, Inl CrNotPermitted) else (s, Inr ())
      else if slot_is_published (nm_gid_map s) then (s, Inl CrNotPermitted)
      else (s\<lparr>nm_setgroups_allowed := False\<rparr>, Inr ()))"

section \<open>The maps are written once\<close>

inductive maps_step :: "namespace_maps \<Rightarrow> namespace_maps \<Rightarrow> bool" where
  "maps_step s (fst (try_publish_uid_map s m))"
| "maps_step s (fst (try_publish_gid_map s m deny))"
| "maps_step s (fst (try_update_setgroups_policy s allow))"

lemma slot_publish_keeps:
  "slot_is_published s \<Longrightarrow> slot_try_publish s m = (s', r) \<Longrightarrow> s' = s"
  by (cases s) (auto simp: slot_try_publish_def split: if_splits)

text \<open>
  What a later writer can no longer change: a published map, a denial of \<open>setgroups\<close>, and the
  permission itself once the group map is published.
\<close>

definition maps_frozen :: "namespace_maps \<Rightarrow> namespace_maps \<Rightarrow> bool" where
  "maps_frozen s s' \<longleftrightarrow>
     (uid_map_written s \<longrightarrow> nm_uid_map s' = nm_uid_map s) \<and>
     (gid_map_written s \<longrightarrow>
        nm_gid_map s' = nm_gid_map s \<and> nm_setgroups_allowed s' = nm_setgroups_allowed s) \<and>
     (\<not> nm_setgroups_allowed s \<longrightarrow> \<not> nm_setgroups_allowed s')"

lemma maps_step_frozen: "maps_step s s' \<Longrightarrow> maps_frozen s s'"
  by (induction rule: maps_step.induct)
    (auto simp: maps_frozen_def try_publish_uid_map_def try_publish_gid_map_def
      try_update_setgroups_policy_def uid_map_written_def gid_map_written_def
      split: prod.splits dest: slot_publish_keeps)

lemma maps_frozen_trans: "maps_frozen a b \<Longrightarrow> maps_frozen b c \<Longrightarrow> maps_frozen a c"
  by (auto simp: maps_frozen_def uid_map_written_def gid_map_written_def)

lemma maps_write_once: "maps_step\<^sup>*\<^sup>* s s' \<Longrightarrow> maps_frozen s s'"
  by (induction rule: rtranclp_induct)
    (auto intro: maps_frozen_trans maps_step_frozen simp: maps_frozen_def [of s s])

lemma domain_child_level:
  "domain_try_child V parent um gm owner grp c = Inr d \<Longrightarrow>
   nd_level d = nv_level V parent + 1 \<and> nd_level d \<le> 33 \<and> nd_parent d = Some parent"
  by (auto simp: domain_try_child_def Let_def checked_iffs
      user_namespace_max_creation_parent_level_def split: if_splits)

end
