(* ===== verification/Cred_Credential.thy ===== *)
theory Cred_Credential
  imports Cred_Namespace
begin

unbundle bit_operations_syntax

text \<open>
  Credentials, \<^verbatim>\<open>cred/src/credential.rs\<close>: capability sets with securebits, supplementary groups,
  the validated transition that builds an unpublished credential, the token that binds it to the
  exact old credential, and the namespace-relative capability rules. A capability array
  \<open>[u32; 2]\<close> is a pair of words and a loop over its words works on both components. The Linux
  constants that the source imports from the UAPI package are the parameter record \<open>linux_uapi\<close>.

  A shared immutable object is its address together with its value, \<open>Arc::ptr_eq\<close> compares the
  addresses, and a fallible allocation takes the allocator's answer: the new address, or none.
\<close>

section \<open>Constants and allocation\<close>

record linux_uapi =
  cap_last_cap :: nat
  ngroups_max :: nat
  cap_setuid :: nat
  cap_chown :: nat
  cap_mknod :: nat
  cap_dac_override :: nat
  cap_dac_read_search :: nat
  cap_fowner :: nat
  cap_fsetid :: nat
  cap_mac_override :: nat
  cap_linux_immutable :: nat

type_synonym 'a arc = "nat \<times> 'a"

definition arc_try_new :: "nat option \<Rightarrow> 'a \<Rightarrow> cred_error + 'a arc" where
  "arc_try_new addr v = ok_or CrNoMemory (map_option (\<lambda>a. (a, v)) addr)"

definition arc_ptr_eq :: "'a arc \<Rightarrow> 'a arc \<Rightarrow> bool" where
  "arc_ptr_eq a b \<longleftrightarrow> fst a = fst b"

type_synonym cap_words = "u32 \<times> u32"

definition cw_zero :: cap_words where
  "cw_zero = (0, 0)"

definition cw_and :: "cap_words \<Rightarrow> cap_words \<Rightarrow> cap_words" where
  "cw_and a b = (fst a AND fst b, snd a AND snd b)"

definition cw_or :: "cap_words \<Rightarrow> cap_words \<Rightarrow> cap_words" where
  "cw_or a b = (fst a OR fst b, snd a OR snd b)"

definition cw_get :: "cap_words \<Rightarrow> nat \<Rightarrow> u32" where
  "cw_get a word = (if word = 0 then fst a else snd a)"

definition cw_set :: "cap_words \<Rightarrow> nat \<Rightarrow> u32 \<Rightarrow> cap_words" where
  "cw_set a word v = (if word = 0 then (v, snd a) else (fst a, v))"

definition capability_valid_mask_word :: "linux_uapi \<Rightarrow> nat \<Rightarrow> u32" where
  "capability_valid_mask_word K word =
     (let first_capability = word * 32
      in if cap_last_cap K < first_capability then 0
         else let last_bit = cap_last_cap K - first_capability
           in if last_bit \<ge> 31 then - 1 else push_bit (last_bit + 1) 1 - 1)"

definition capability_valid_mask :: "linux_uapi \<Rightarrow> cap_words" where
  "capability_valid_mask K = (capability_valid_mask_word K 0, capability_valid_mask_word K 1)"

section \<open>Securebits\<close>

definition secbit_noroot :: u32 where "secbit_noroot = push_bit 0 1"
definition secbit_no_setuid_fixup :: u32 where "secbit_no_setuid_fixup = push_bit 2 1"
definition secbit_keep_caps :: u32 where "secbit_keep_caps = push_bit 4 1"
definition secbit_keep_caps_locked :: u32 where "secbit_keep_caps_locked = push_bit 5 1"
definition secbit_no_cap_ambient_raise :: u32 where "secbit_no_cap_ambient_raise = push_bit 6 1"
definition secbit_exec_restrict_file :: u32 where "secbit_exec_restrict_file = push_bit 8 1"
definition secbit_exec_deny_interactive :: u32 where "secbit_exec_deny_interactive = push_bit 10 1"

definition secure_all_bits :: u32 where
  "secure_all_bits = secbit_noroot OR secbit_no_setuid_fixup OR secbit_keep_caps
     OR secbit_no_cap_ambient_raise OR secbit_exec_restrict_file OR secbit_exec_deny_interactive"

definition secure_all_locks :: u32 where
  "secure_all_locks = push_bit 1 secure_all_bits"

definition secure_all_unprivileged :: u32 where
  "secure_all_unprivileged = secbit_exec_restrict_file OR secbit_exec_deny_interactive"

section \<open>Identities and groups\<close>

record credential_ids =
  ruid :: kuid
  euid :: kuid
  suid :: kuid
  fsuid :: kuid
  rgid :: kgid
  egid :: kgid
  sgid :: kgid
  fsgid :: kgid

definition ids_initial_root :: credential_ids where
  "ids_initial_root = \<lparr>ruid = kuid_initial_root, euid = kuid_initial_root,
     suid = kuid_initial_root, fsuid = kuid_initial_root, rgid = kgid_initial_root,
     egid = kgid_initial_root, sgid = kgid_initial_root, fsgid = kgid_initial_root\<rparr>"

type_synonym group_info = "kgid list"

definition groups_try_new ::
  "linux_uapi \<Rightarrow> (alloc_site \<Rightarrow> bool) \<Rightarrow> kgid list \<Rightarrow> cred_error + group_info" where
  "groups_try_new K alloc_ok groups =
     (if length groups > ngroups_max K then Inl CrInvalidInput
      else if alloc_ok AllocGroupObject then Inr (sort_key kgid_raw groups) else Inl CrNoMemory)"

text \<open>A binary search on the sorted list decides membership.\<close>

definition groups_contain :: "group_info \<Rightarrow> kgid \<Rightarrow> bool" where
  "groups_contain groups gid \<longleftrightarrow> gid \<in> set groups"

section \<open>Capability sets\<close>

record capability_sets =
  cs_effective :: cap_words
  cs_permitted :: cap_words
  cs_inheritable :: cap_words
  cs_bounding :: cap_words
  cs_ambient :: cap_words
  cs_securebits :: u32

definition validate_word :: "u32 \<Rightarrow> u32 \<Rightarrow> u32 \<Rightarrow> u32 \<Rightarrow> u32 \<Rightarrow> u32 \<Rightarrow> cred_error + unit" where
  "validate_word valid_mask e p i b a =
     (if (e OR p OR i OR b OR a) AND NOT valid_mask \<noteq> 0 then Inl CrInvalidInput
      else if e AND NOT p \<noteq> 0 \<or> a AND NOT (p AND i) \<noteq> 0 then Inl CrNotPermitted
      else Inr ())"

definition caps_validate :: "linux_uapi \<Rightarrow> capability_sets \<Rightarrow> cred_error + unit" where
  "caps_validate K c =
     (if cs_securebits c AND NOT (secure_all_bits OR secure_all_locks) \<noteq> 0 then Inl CrInvalidInput
      else and_then (validate_word (fst (capability_valid_mask K)) (fst (cs_effective c))
             (fst (cs_permitted c)) (fst (cs_inheritable c)) (fst (cs_bounding c)) (fst (cs_ambient c)))
        (\<lambda>_. validate_word (snd (capability_valid_mask K)) (snd (cs_effective c))
             (snd (cs_permitted c)) (snd (cs_inheritable c)) (snd (cs_bounding c)) (snd (cs_ambient c))))"

definition caps_try_new ::
  "linux_uapi \<Rightarrow> cap_words \<Rightarrow> cap_words \<Rightarrow> cap_words \<Rightarrow> cap_words \<Rightarrow> cap_words \<Rightarrow> u32 \<Rightarrow>
   cred_error + capability_sets" where
  "caps_try_new K e p i b a s =
     (let sets = \<lparr>cs_effective = e, cs_permitted = p, cs_inheritable = i, cs_bounding = b,
        cs_ambient = a, cs_securebits = s\<rparr>
      in and_then (caps_validate K sets) (\<lambda>_. Inr sets))"

definition caps_full :: "linux_uapi \<Rightarrow> capability_sets" where
  "caps_full K = \<lparr>cs_effective = capability_valid_mask K, cs_permitted = capability_valid_mask K,
     cs_inheritable = cw_zero, cs_bounding = capability_valid_mask K, cs_ambient = cw_zero,
     cs_securebits = 0\<rparr>"

definition caps_empty :: capability_sets where
  "caps_empty = \<lparr>cs_effective = cw_zero, cs_permitted = cw_zero, cs_inheritable = cw_zero,
     cs_bounding = cw_zero, cs_ambient = cw_zero, cs_securebits = 0\<rparr>"

definition cap_mask :: "linux_uapi \<Rightarrow> nat \<Rightarrow> (nat \<times> u32) option" where
  "cap_mask K capability =
     (if capability > cap_last_cap K then None
      else let word = capability div 32
        in if word \<ge> 2 then None else Some (word, push_bit (capability mod 32) 1))"

definition words_contain :: "linux_uapi \<Rightarrow> cap_words \<Rightarrow> nat \<Rightarrow> bool" where
  "words_contain K ws capability =
     (case cap_mask K capability of None \<Rightarrow> False | Some (word, m) \<Rightarrow> cw_get ws word AND m \<noteq> 0)"

definition has_effective :: "linux_uapi \<Rightarrow> capability_sets \<Rightarrow> nat \<Rightarrow> bool" where
  "has_effective K c capability = words_contain K (cs_effective c) capability"

definition bounding_contains :: "linux_uapi \<Rightarrow> capability_sets \<Rightarrow> nat \<Rightarrow> bool" where
  "bounding_contains K c capability = words_contain K (cs_bounding c) capability"

definition ambient_contains :: "linux_uapi \<Rightarrow> capability_sets \<Rightarrow> nat \<Rightarrow> bool" where
  "ambient_contains K c capability = words_contain K (cs_ambient c) capability"

definition try_raise_ambient ::
  "linux_uapi \<Rightarrow> capability_sets \<Rightarrow> nat \<Rightarrow> (capability_sets, cred_error, unit) outcome" where
  "try_raise_ambient K c capability =
     (case cap_mask K capability of
        None \<Rightarrow> (c, Inl CrInvalidInput)
      | Some (word, m) \<Rightarrow>
          if cs_securebits c AND secbit_no_cap_ambient_raise \<noteq> 0
             \<or> cw_get (cs_permitted c) word AND m = 0 \<or> cw_get (cs_inheritable c) word AND m = 0
          then (c, Inl CrNotPermitted)
          else (c\<lparr>cs_ambient := cw_set (cs_ambient c) word (cw_get (cs_ambient c) word OR m)\<rparr>,
                Inr ()))"

definition try_lower_ambient ::
  "linux_uapi \<Rightarrow> capability_sets \<Rightarrow> nat \<Rightarrow> (capability_sets, cred_error, unit) outcome" where
  "try_lower_ambient K c capability =
     (case cap_mask K capability of
        None \<Rightarrow> (c, Inl CrInvalidInput)
      | Some (word, m) \<Rightarrow>
          (c\<lparr>cs_ambient := cw_set (cs_ambient c) word (cw_get (cs_ambient c) word AND NOT m)\<rparr>,
           Inr ()))"

definition clear_ambient :: "capability_sets \<Rightarrow> capability_sets" where
  "clear_ambient c = c\<lparr>cs_ambient := cw_zero\<rparr>"

definition reconcile_ambient :: "capability_sets \<Rightarrow> capability_sets" where
  "reconcile_ambient c =
     c\<lparr>cs_ambient := cw_and (cs_ambient c) (cw_and (cs_permitted c) (cs_inheritable c))\<rparr>"

definition try_drop_bounding ::
  "linux_uapi \<Rightarrow> capability_sets \<Rightarrow> nat \<Rightarrow> (capability_sets, cred_error, unit) outcome" where
  "try_drop_bounding K c capability =
     (case cap_mask K capability of
        None \<Rightarrow> (c, Inl CrInvalidInput)
      | Some (word, m) \<Rightarrow>
          (c\<lparr>cs_bounding := cw_set (cs_bounding c) word (cw_get (cs_bounding c) word AND NOT m)\<rparr>,
           Inr ()))"

definition locked_values_changed :: "u32 \<Rightarrow> u32 \<Rightarrow> u32" where
  "locked_values_changed old requested =
     drop_bit 1 (old AND secure_all_locks) AND (old XOR requested) AND secure_all_bits"

definition locks_cleared :: "u32 \<Rightarrow> u32 \<Rightarrow> u32" where
  "locks_cleared old requested = old AND secure_all_locks AND NOT requested"

definition try_set_securebits ::
  "capability_sets \<Rightarrow> u32 \<Rightarrow> (capability_sets, cred_error, unit) outcome" where
  "try_set_securebits c requested =
     (if requested AND NOT (secure_all_bits OR secure_all_locks) \<noteq> 0 then (c, Inl CrNotPermitted)
      else if locked_values_changed (cs_securebits c) requested \<noteq> 0
              \<or> locks_cleared (cs_securebits c) requested \<noteq> 0
      then (c, Inl CrNotPermitted)
      else (c\<lparr>cs_securebits := requested\<rparr>, Inr ()))"

definition try_set_keep_caps ::
  "capability_sets \<Rightarrow> bool \<Rightarrow> (capability_sets, cred_error, unit) outcome" where
  "try_set_keep_caps c enabled =
     (if cs_securebits c AND secbit_keep_caps_locked \<noteq> 0 then (c, Inl CrNotPermitted)
      else if enabled then (c\<lparr>cs_securebits := cs_securebits c OR secbit_keep_caps\<rparr>, Inr ())
      else (c\<lparr>cs_securebits := cs_securebits c AND NOT secbit_keep_caps\<rparr>, Inr ()))"

section \<open>Filesystem snapshots\<close>

record fs_credential_snapshot =
  fs_uid :: kuid
  fs_gid :: kgid
  fs_groups :: group_info
  fs_effective :: cap_words
  fs_applies_to_initial :: bool

definition selected_capability :: "linux_uapi \<Rightarrow> fs_credential_snapshot \<Rightarrow> nat \<Rightarrow> bool" where
  "selected_capability K f capability = words_contain K (fs_effective f) capability"

definition fs_has_capability :: "linux_uapi \<Rightarrow> fs_credential_snapshot \<Rightarrow> nat \<Rightarrow> bool" where
  "fs_has_capability K f capability =
     (if \<not> fs_applies_to_initial f then False else selected_capability K f capability)"

section \<open>Credentials\<close>

record 'n credential =
  cr_ids :: credential_ids
  cr_groups :: group_info
  cr_caps :: capability_sets
  cr_no_new_privs :: bool
  cr_user_ns :: 'n

definition credential_try_root ::
  "linux_uapi \<Rightarrow> 'n namespace_view \<Rightarrow> (alloc_site \<Rightarrow> bool) \<Rightarrow> nat option \<Rightarrow> 'n \<Rightarrow>
   cred_error + 'n credential arc" where
  "credential_try_root K V alloc_ok addr user_ns =
     (if \<not> nv_is_initial V user_ns then Inl CrInvalidInput
      else if \<not> alloc_ok AllocGroupList then Inl CrNoMemory
      else and_then (groups_try_new K alloc_ok [kgid_initial_root]) (\<lambda>groups.
        arc_try_new addr \<lparr>cr_ids = ids_initial_root, cr_groups = groups, cr_caps = caps_full K,
          cr_no_new_privs = False, cr_user_ns = user_ns\<rparr>))"

definition try_with_user_namespace ::
  "linux_uapi \<Rightarrow> 'n namespace_view \<Rightarrow> nat option \<Rightarrow> 'n credential \<Rightarrow> 'n \<Rightarrow>
   cred_error + 'n credential arc" where
  "try_with_user_namespace K V addr current user_ns =
     and_then (ok_or CrNotPermitted (checked_add u32_max (nv_level V (cr_user_ns current)) 1))
       (\<lambda>expected_level. and_then (ok_or CrNotPermitted (nv_parent V user_ns)) (\<lambda>parent.
          if nv_is_initial V user_ns \<or> nv_level V user_ns \<noteq> expected_level
             \<or> parent \<noteq> cr_user_ns current
             \<or> nv_owner_kuid V user_ns \<noteq> euid (cr_ids current)
          then Inl CrNotPermitted
          else arc_try_new addr \<lparr>cr_ids = cr_ids current, cr_groups = cr_groups current,
                 cr_caps = caps_full K, cr_no_new_privs = cr_no_new_privs current,
                 cr_user_ns = user_ns\<rparr>))"

datatype transition_mode = TransitionNormal | ExecClearsKeepCaps

definition try_from_transition ::
  "linux_uapi \<Rightarrow> nat option \<Rightarrow> 'n credential \<Rightarrow> credential_ids \<Rightarrow> group_info \<Rightarrow>
   capability_sets \<Rightarrow> bool \<Rightarrow> 'n \<Rightarrow> transition_mode \<Rightarrow> cred_error + 'n credential arc" where
  "try_from_transition K addr old ids groups caps no_new_privs user_ns mode =
     and_then (caps_validate K caps) (\<lambda>_.
       if cr_user_ns old \<noteq> user_ns \<or> (cr_no_new_privs old \<and> \<not> no_new_privs) then Inl CrNotPermitted
       else
         let old_securebits = cs_securebits (cr_caps old);
             new_securebits = cs_securebits caps;
             changed = locked_values_changed old_securebits new_securebits;
             keep_pair = secbit_keep_caps OR secbit_keep_caps_locked;
             changed_locked_values =
               (if mode = ExecClearsKeepCaps \<and> old_securebits AND keep_pair = keep_pair
                   \<and> new_securebits AND secbit_keep_caps = 0
                then changed AND NOT secbit_keep_caps else changed)
         in if changed_locked_values \<noteq> 0 \<or> locks_cleared old_securebits new_securebits \<noteq> 0
            then Inl CrNotPermitted
            else arc_try_new addr \<lparr>cr_ids = ids, cr_groups = groups, cr_caps = caps,
                   cr_no_new_privs = no_new_privs, cr_user_ns = user_ns\<rparr>)"

definition fs_credential_snapshot_of ::
  "'n namespace_view \<Rightarrow> 'n credential \<Rightarrow> fs_credential_snapshot" where
  "fs_credential_snapshot_of V c =
     \<lparr>fs_uid = fsuid (cr_ids c), fs_gid = fsgid (cr_ids c), fs_groups = cr_groups c,
      fs_effective = cs_effective (cr_caps c),
      fs_applies_to_initial = nv_is_initial V (cr_user_ns c)\<rparr>"

definition has_effective_capability ::
  "linux_uapi \<Rightarrow> 'n namespace_view \<Rightarrow> 'n credential \<Rightarrow> nat \<Rightarrow> bool" where
  "has_effective_capability K V c capability \<longleftrightarrow>
     nv_is_initial V (cr_user_ns c) \<and> has_effective K (cr_caps c) capability"

definition has_effective_capability_in_own_user_ns ::
  "linux_uapi \<Rightarrow> 'n credential \<Rightarrow> nat \<Rightarrow> bool" where
  "has_effective_capability_in_own_user_ns K c capability = has_effective K (cr_caps c) capability"

definition is_initial_root_euid :: "'n namespace_view \<Rightarrow> 'n credential \<Rightarrow> bool" where
  "is_initial_root_euid V c \<longleftrightarrow>
     nv_is_initial V (cr_user_ns c) \<and> euid (cr_ids c) = kuid_initial_root"

definition is_initial_root_ruid :: "'n namespace_view \<Rightarrow> 'n credential \<Rightarrow> bool" where
  "is_initial_root_ruid V c \<longleftrightarrow>
     nv_is_initial V (cr_user_ns c) \<and> ruid (cr_ids c) = kuid_initial_root"

section \<open>Capability rules over the namespace tree\<close>

text \<open>\<open>subset & !set == 0\<close> on every word.\<close>

definition capability_subset :: "cap_words \<Rightarrow> cap_words \<Rightarrow> bool" where
  "capability_subset subset_words set_words \<longleftrightarrow>
     fst subset_words AND NOT (fst set_words) = 0 \<and>
     snd subset_words AND NOT (snd set_words) = 0"

function owns_descendant_loop :: "'n namespace_view \<Rightarrow> 'n \<Rightarrow> kuid \<Rightarrow> 'n \<Rightarrow> bool" where
  "owns_descendant_loop V set_ns set_euid subset_ns =
     (if nv_level V subset_ns > nv_level V set_ns then
        case nv_parent V subset_ns of
          None \<Rightarrow> False
        | Some parent \<Rightarrow>
            if nv_level V parent \<ge> nv_level V subset_ns then False
            else if parent = set_ns \<and> nv_owner_kuid V subset_ns = set_euid then True
            else owns_descendant_loop V set_ns set_euid parent
      else False)"
  by pat_completeness auto

termination
  by (relation "measure (\<lambda>(V, _, _, n). nv_level V n)") auto

declare owns_descendant_loop.simps [simp del]

definition credential_cap_is_subset ::
  "'n namespace_view \<Rightarrow> 'n credential \<Rightarrow> 'n credential \<Rightarrow> bool" where
  "credential_cap_is_subset V set_cred subset_cred =
     (if cr_user_ns set_cred = cr_user_ns subset_cred
      then capability_subset (cs_permitted (cr_caps subset_cred)) (cs_permitted (cr_caps set_cred))
      else owns_descendant_loop V (cr_user_ns set_cred) (euid (cr_ids set_cred))
             (cr_user_ns subset_cred))"

function ns_capable_loop ::
  "linux_uapi \<Rightarrow> 'n namespace_view \<Rightarrow> 'n credential \<Rightarrow> nat \<Rightarrow> 'n \<Rightarrow> bool" where
  "ns_capable_loop K V actor capability namespace =
     (if namespace = cr_user_ns actor
      then has_effective_capability_in_own_user_ns K actor capability
      else if nv_level V namespace \<le> nv_level V (cr_user_ns actor) then False
      else case nv_parent V namespace of
        None \<Rightarrow> False
      | Some parent \<Rightarrow>
          if nv_level V parent \<ge> nv_level V namespace then False
          else if parent = cr_user_ns actor \<and> nv_owner_kuid V namespace = euid (cr_ids actor)
          then True
          else ns_capable_loop K V actor capability parent)"
  by pat_completeness auto

termination
  by (relation "measure (\<lambda>(_, V, _, _, n). nv_level V n)") auto

declare ns_capable_loop.simps [simp del]

definition ns_capable ::
  "linux_uapi \<Rightarrow> 'n namespace_view \<Rightarrow> 'n credential \<Rightarrow> 'n \<Rightarrow> nat \<Rightarrow> bool" where
  "ns_capable K V actor target_user_ns capability =
     (if cap_mask K capability = None then False
      else ns_capable_loop K V actor capability target_user_ns)"

section \<open>Prepared transitions\<close>

record 'n prepared_credential =
  pc_old :: "'n credential arc"
  pc_proposed :: "'n credential arc"
  pc_reset_process_security :: bool

definition effects_between :: "'n namespace_view \<Rightarrow> 'n credential \<Rightarrow> 'n credential \<Rightarrow> bool" where
  "effects_between V old proposed \<longleftrightarrow>
     euid (cr_ids old) \<noteq> euid (cr_ids proposed) \<or> egid (cr_ids old) \<noteq> egid (cr_ids proposed)
     \<or> fsuid (cr_ids old) \<noteq> fsuid (cr_ids proposed) \<or> fsgid (cr_ids old) \<noteq> fsgid (cr_ids proposed)
     \<or> \<not> credential_cap_is_subset V old proposed"

definition try_prepare_transition ::
  "linux_uapi \<Rightarrow> 'n namespace_view \<Rightarrow> nat option \<Rightarrow> 'n credential arc \<Rightarrow> credential_ids \<Rightarrow>
   group_info \<Rightarrow> capability_sets \<Rightarrow> bool \<Rightarrow> cred_error + 'n prepared_credential" where
  "try_prepare_transition K V addr old ids groups caps no_new_privs =
     and_then (try_from_transition K addr (snd old) ids groups caps no_new_privs
         (cr_user_ns (snd old)) TransitionNormal) (\<lambda>proposed.
       Inr \<lparr>pc_old = old, pc_proposed = proposed,
            pc_reset_process_security = effects_between V (snd old) (snd proposed)\<rparr>)"

definition prepared_try_into_proposed ::
  "'n prepared_credential \<Rightarrow> 'n credential arc \<Rightarrow> cred_error + 'n credential arc" where
  "prepared_try_into_proposed p expected_old =
     (if \<not> arc_ptr_eq (pc_old p) expected_old then Inl CrNotPermitted else Inr (pc_proposed p))"

end
