(* ===== verification/Cred_Transition.thy ===== *)
theory Cred_Transition
  imports Cred_Credential
begin

unbundle bit_operations_syntax

text \<open>
  The planners of \<^verbatim>\<open>cred/src/transition.rs\<close>: the user-ID and group-ID families of system calls and
  \<open>capset\<close>, with the capability fixups that follow a change of user ID, and the step that turns a
  plan into a prepared credential bound to the exact old one. A borrowed credential is its address
  and value. \<open>plan_content_write_setid_cleanup\<close> of \<^verbatim>\<open>content_write.rs\<close> is here too.
\<close>

section \<open>Inputs, authorities and plans\<close>

text \<open>The three authority types each hold one flag with two named values; the flag is the model.\<close>

type_synonym user_id_authority = bool
type_synonym group_id_authority = bool
type_synonym capset_authority = bool

datatype user_id_input =
    SetUid kuid
  | SetReUid "kuid option" "kuid option"
  | SetResUid "kuid option" "kuid option" "kuid option"
  | SetFsUid kuid

datatype group_id_input =
    SetGid kgid
  | SetReGid "kgid option" "kgid option"
  | SetResGid "kgid option" "kgid option" "kgid option"
  | SetFsGid kgid

record capset_request =
  cq_effective :: cap_words
  cq_permitted :: cap_words
  cq_inheritable :: cap_words

definition capset_request_try_new ::
  "linux_uapi \<Rightarrow> cap_words \<Rightarrow> cap_words \<Rightarrow> cap_words \<Rightarrow> cred_error + capset_request" where
  "capset_request_try_new K e p i =
     (if (fst e OR fst p OR fst i) AND NOT (fst (capability_valid_mask K)) \<noteq> 0
         \<or> (snd e OR snd p OR snd i) AND NOT (snd (capability_valid_mask K)) \<noteq> 0
      then Inl CrInvalidInput
      else Inr \<lparr>cq_effective = e, cq_permitted = p, cq_inheritable = i\<rparr>)"

record 'n user_id_plan =
  up_old :: "'n credential arc"
  up_input :: user_id_input
  up_authority :: user_id_authority
  up_ids :: credential_ids
  up_capabilities :: capability_sets

record 'n group_id_plan =
  gp_old :: "'n credential arc"
  gp_input :: group_id_input
  gp_authority :: group_id_authority
  gp_ids :: credential_ids

record 'n capset_plan =
  cp_old :: "'n credential arc"
  cp_request :: capset_request
  cp_authority :: capset_authority
  cp_capabilities :: capability_sets

section \<open>Capability fixups\<close>

definition fixup_uid_capabilities ::
  "linux_uapi \<Rightarrow> kuid option \<Rightarrow> credential_ids \<Rightarrow> credential_ids \<Rightarrow> capability_sets \<Rightarrow>
   cred_error + capability_sets" where
  "fixup_uid_capabilities K root_kuid old_ids new_ids c =
     (if (ruid old_ids = ruid new_ids \<and> euid old_ids = euid new_ids \<and> suid old_ids = suid new_ids)
         \<or> cs_securebits c AND secbit_no_setuid_fixup \<noteq> 0
      then Inr c
      else
        let old_had_root = list_ex (\<lambda>i. root_kuid = Some i) [ruid old_ids, euid old_ids, suid old_ids];
            new_has_root = list_ex (\<lambda>i. root_kuid = Some i) [ruid new_ids, euid new_ids, suid new_ids];
            loses_root = old_had_root \<and> \<not> new_has_root;
            drops = loses_root \<and> cs_securebits c AND secbit_keep_caps = 0;
            permitted = (if drops then cw_zero else cs_permitted c);
            effective = (if drops then cw_zero else cs_effective c);
            ambient = (if loses_root then cw_zero else cs_ambient c);
            effective = (if root_kuid = Some (euid old_ids) \<and> root_kuid \<noteq> Some (euid new_ids)
                         then cw_zero else effective);
            effective = (if root_kuid \<noteq> Some (euid old_ids) \<and> root_kuid = Some (euid new_ids)
                         then permitted else effective)
        in caps_try_new K effective permitted (cs_inheritable c) (cs_bounding c) ambient
             (cs_securebits c))"

definition filesystem_capabilities :: "linux_uapi \<Rightarrow> nat list" where
  "filesystem_capabilities K = [cap_chown K, cap_mknod K, cap_dac_override K,
     cap_dac_read_search K, cap_fowner K, cap_fsetid K, cap_mac_override K, cap_linux_immutable K]"

definition fixup_fs_capability ::
  "linux_uapi \<Rightarrow> bool \<Rightarrow> bool \<Rightarrow> cap_words \<Rightarrow> nat \<Rightarrow> cap_words \<Rightarrow> cap_words" where
  "fixup_fs_capability K leaves_root enters_root permitted capability effective =
     (case cap_mask K capability of
        None \<Rightarrow> effective
      | Some (word, m) \<Rightarrow>
          if leaves_root then cw_set effective word (cw_get effective word AND NOT m)
          else if enters_root \<and> cw_get permitted word AND m \<noteq> 0
          then cw_set effective word (cw_get effective word OR m)
          else effective)"

definition fixup_fsuid_capabilities ::
  "linux_uapi \<Rightarrow> kuid option \<Rightarrow> kuid \<Rightarrow> kuid \<Rightarrow> capability_sets \<Rightarrow> cred_error + capability_sets" where
  "fixup_fsuid_capabilities K root_kuid old_fsuid new_fsuid c =
     (if old_fsuid = new_fsuid \<or> cs_securebits c AND secbit_no_setuid_fixup \<noteq> 0 then Inr c
      else
        let leaves_root = root_kuid = Some old_fsuid \<and> root_kuid \<noteq> Some new_fsuid;
            enters_root = root_kuid \<noteq> Some old_fsuid \<and> root_kuid = Some new_fsuid;
            effective = fold (fixup_fs_capability K leaves_root enters_root (cs_permitted c))
              (filesystem_capabilities K) (cs_effective c)
        in caps_try_new K effective (cs_permitted c) (cs_inheritable c) (cs_bounding c)
             (cs_ambient c) (cs_securebits c))"

section \<open>User and group identifiers\<close>

definition is_some_and :: "'a option \<Rightarrow> ('a \<Rightarrow> bool) \<Rightarrow> bool" where
  "is_some_and x P = (case x of None \<Rightarrow> False | Some a \<Rightarrow> P a)"

definition is_none_or :: "'a option \<Rightarrow> ('a \<Rightarrow> bool) \<Rightarrow> bool" where
  "is_none_or x P = (case x of None \<Rightarrow> True | Some a \<Rightarrow> P a)"

definition unwrap_or :: "'a option \<Rightarrow> 'a \<Rightarrow> 'a" where
  "unwrap_or x d = (case x of None \<Rightarrow> d | Some a \<Rightarrow> a)"

definition setresuid_is_noop ::
  "credential_ids \<Rightarrow> kuid option \<Rightarrow> kuid option \<Rightarrow> kuid option \<Rightarrow> bool" where
  "setresuid_is_noop old r e s \<longleftrightarrow>
     is_none_or r (\<lambda>i. i = ruid old) \<and> is_none_or e (\<lambda>i. i = euid old \<and> i = fsuid old) \<and>
     is_none_or s (\<lambda>i. i = suid old)"

definition setresgid_is_noop ::
  "credential_ids \<Rightarrow> kgid option \<Rightarrow> kgid option \<Rightarrow> kgid option \<Rightarrow> bool" where
  "setresgid_is_noop old r e s \<longleftrightarrow>
     is_none_or r (\<lambda>i. i = rgid old) \<and> is_none_or e (\<lambda>i. i = egid old \<and> i = fsgid old) \<and>
     is_none_or s (\<lambda>i. i = sgid old)"

definition plan_user_id_transition ::
  "linux_uapi \<Rightarrow> 'n namespace_view \<Rightarrow> 'n credential arc \<Rightarrow> user_id_input \<Rightarrow> user_id_authority \<Rightarrow>
   cred_error + 'n user_id_plan" where
  "plan_user_id_transition K V old input privileged =
     (let old_ids = cr_ids (snd old);
          caps = cr_caps (snd old);
          root = nv_root_kuid V (cr_user_ns (snd old));
          plan = (\<lambda>ids c. Inr \<lparr>up_old = old, up_input = input, up_authority = privileged,
                    up_ids = ids, up_capabilities = c\<rparr>);
          fixed = (\<lambda>ids. and_then (fixup_uid_capabilities K root old_ids ids caps) (plan ids))
      in case input of
        SetUid uid \<Rightarrow>
          if privileged then fixed (old_ids\<lparr>ruid := uid, euid := uid, suid := uid, fsuid := uid\<rparr>)
          else if uid \<noteq> ruid old_ids \<and> uid \<noteq> suid old_ids then Inl CrNotPermitted
          else fixed (old_ids\<lparr>euid := uid, fsuid := uid\<rparr>)
      | SetReUid r e \<Rightarrow>
          if \<not> privileged \<and>
             (is_some_and r (\<lambda>i. i \<noteq> ruid old_ids \<and> i \<noteq> euid old_ids) \<or>
              is_some_and e (\<lambda>i. i \<noteq> ruid old_ids \<and> i \<noteq> euid old_ids \<and> i \<noteq> suid old_ids))
          then Inl CrNotPermitted
          else
            let new_euid = unwrap_or e (euid old_ids);
                ids = old_ids\<lparr>ruid := unwrap_or r (ruid old_ids), euid := new_euid, fsuid := new_euid\<rparr>
            in fixed (if r \<noteq> None \<or> is_some_and e (\<lambda>i. i \<noteq> ruid old_ids)
                      then ids\<lparr>suid := new_euid\<rparr> else ids)
      | SetResUid r e s \<Rightarrow>
          if setresuid_is_noop old_ids r e s then plan old_ids caps
          else if \<not> privileged \<and>
            list_ex (\<lambda>i. i \<noteq> ruid old_ids \<and> i \<noteq> euid old_ids \<and> i \<noteq> suid old_ids) (flatten [r, e, s])
          then Inl CrNotPermitted
          else fixed (old_ids\<lparr>ruid := unwrap_or r (ruid old_ids), euid := unwrap_or e (euid old_ids),
                 suid := unwrap_or s (suid old_ids), fsuid := unwrap_or e (euid old_ids)\<rparr>)
      | SetFsUid uid \<Rightarrow>
          if privileged \<or> uid = ruid old_ids \<or> uid = euid old_ids \<or> uid = suid old_ids
             \<or> uid = fsuid old_ids
          then and_then (fixup_fsuid_capabilities K root (fsuid old_ids) uid caps)
                 (plan (old_ids\<lparr>fsuid := uid\<rparr>))
          else plan old_ids caps)"

definition plan_group_id_transition ::
  "'n credential arc \<Rightarrow> group_id_input \<Rightarrow> group_id_authority \<Rightarrow> cred_error + 'n group_id_plan" where
  "plan_group_id_transition old input privileged =
     (let old_ids = cr_ids (snd old);
          plan = (\<lambda>ids. Inr \<lparr>gp_old = old, gp_input = input, gp_authority = privileged,
                    gp_ids = ids\<rparr>)
      in case input of
        SetGid gid \<Rightarrow>
          if privileged then plan (old_ids\<lparr>rgid := gid, egid := gid, sgid := gid, fsgid := gid\<rparr>)
          else if gid \<noteq> rgid old_ids \<and> gid \<noteq> sgid old_ids then Inl CrNotPermitted
          else plan (old_ids\<lparr>egid := gid, fsgid := gid\<rparr>)
      | SetReGid r e \<Rightarrow>
          if \<not> privileged \<and>
             (is_some_and r (\<lambda>i. i \<noteq> rgid old_ids \<and> i \<noteq> egid old_ids) \<or>
              is_some_and e (\<lambda>i. i \<noteq> rgid old_ids \<and> i \<noteq> egid old_ids \<and> i \<noteq> sgid old_ids))
          then Inl CrNotPermitted
          else
            let new_egid = unwrap_or e (egid old_ids);
                ids = old_ids\<lparr>rgid := unwrap_or r (rgid old_ids), egid := new_egid, fsgid := new_egid\<rparr>
            in plan (if r \<noteq> None \<or> is_some_and e (\<lambda>i. i \<noteq> rgid old_ids)
                     then ids\<lparr>sgid := new_egid\<rparr> else ids)
      | SetResGid r e s \<Rightarrow>
          if setresgid_is_noop old_ids r e s then plan old_ids
          else if \<not> privileged \<and>
            list_ex (\<lambda>i. i \<noteq> rgid old_ids \<and> i \<noteq> egid old_ids \<and> i \<noteq> sgid old_ids) (flatten [r, e, s])
          then Inl CrNotPermitted
          else plan (old_ids\<lparr>rgid := unwrap_or r (rgid old_ids), egid := unwrap_or e (egid old_ids),
                 sgid := unwrap_or s (sgid old_ids), fsgid := unwrap_or e (egid old_ids)\<rparr>)
      | SetFsGid gid \<Rightarrow>
          if privileged \<or> gid = rgid old_ids \<or> gid = egid old_ids \<or> gid = sgid old_ids
             \<or> gid = fsgid old_ids
          then plan (old_ids\<lparr>fsgid := gid\<rparr>) else plan old_ids)"

section \<open>Capset\<close>

definition plan_capset ::
  "linux_uapi \<Rightarrow> 'n credential arc \<Rightarrow> capset_request \<Rightarrow> capset_authority \<Rightarrow>
   cred_error + 'n capset_plan" where
  "plan_capset K old request has_setpcap =
     (let c = cr_caps (snd old)
      in if \<not> capability_subset (cq_effective request) (cq_permitted request)
            \<or> \<not> capability_subset (cq_permitted request) (cs_permitted c)
         then Inl CrNotPermitted
         else if \<not> capability_subset (cq_inheritable request)
                    (cw_or (cs_inheritable c) (cs_bounding c))
         then Inl CrNotPermitted
         else if \<not> has_setpcap \<and> \<not> capability_subset (cq_inheritable request)
                    (cw_or (cs_inheritable c) (cs_permitted c))
         then Inl CrNotPermitted
         else and_then (caps_try_new K (cq_effective request) (cq_permitted request)
                (cq_inheritable request) (cs_bounding c)
                (cw_and (cs_ambient c) (cw_and (cq_permitted request) (cq_inheritable request)))
                (cs_securebits c))
              (\<lambda>capabilities. Inr \<lparr>cp_old = old, cp_request = request, cp_authority = has_setpcap,
                 cp_capabilities = capabilities\<rparr>))"

section \<open>From a plan to a prepared credential\<close>

definition try_prepare_planned_credential ::
  "linux_uapi \<Rightarrow> 'n namespace_view \<Rightarrow> nat option \<Rightarrow> 'n credential arc \<Rightarrow> 'n credential arc \<Rightarrow>
   credential_ids \<Rightarrow> capability_sets \<Rightarrow> cred_error + 'n prepared_credential" where
  "try_prepare_planned_credential K V addr planned_old expected_old ids capabilities =
     (if \<not> arc_ptr_eq planned_old expected_old then Inl CrNotPermitted
      else try_prepare_transition K V addr expected_old ids (cr_groups (snd expected_old))
             capabilities (cr_no_new_privs (snd expected_old)))"

definition user_id_try_prepare ::
  "linux_uapi \<Rightarrow> 'n namespace_view \<Rightarrow> nat option \<Rightarrow> 'n user_id_plan \<Rightarrow> 'n credential arc \<Rightarrow>
   cred_error + 'n prepared_credential" where
  "user_id_try_prepare K V addr plan expected_old =
     try_prepare_planned_credential K V addr (up_old plan) expected_old (up_ids plan)
       (up_capabilities plan)"

definition group_id_try_prepare ::
  "linux_uapi \<Rightarrow> 'n namespace_view \<Rightarrow> nat option \<Rightarrow> 'n group_id_plan \<Rightarrow> 'n credential arc \<Rightarrow>
   cred_error + 'n prepared_credential" where
  "group_id_try_prepare K V addr plan expected_old =
     try_prepare_planned_credential K V addr (gp_old plan) expected_old (gp_ids plan)
       (cr_caps (snd expected_old))"

definition capset_try_prepare ::
  "linux_uapi \<Rightarrow> 'n namespace_view \<Rightarrow> nat option \<Rightarrow> 'n capset_plan \<Rightarrow> 'n credential arc \<Rightarrow>
   cred_error + 'n prepared_credential" where
  "capset_try_prepare K V addr plan expected_old =
     try_prepare_planned_credential K V addr (cp_old plan) expected_old (cr_ids (snd expected_old))
       (cp_capabilities plan)"

definition user_id_changes_credential :: "'n user_id_plan \<Rightarrow> bool" where
  "user_id_changes_credential p \<longleftrightarrow>
     up_ids p \<noteq> cr_ids (snd (up_old p)) \<or> up_capabilities p \<noteq> cr_caps (snd (up_old p))"

definition group_id_changes_credential :: "'n group_id_plan \<Rightarrow> bool" where
  "group_id_changes_credential p \<longleftrightarrow> gp_ids p \<noteq> cr_ids (snd (gp_old p))"

definition capset_changes_credential :: "'n capset_plan \<Rightarrow> bool" where
  "capset_changes_credential p \<longleftrightarrow> cp_capabilities p \<noteq> cr_caps (snd (cp_old p))"

section \<open>Set-ID cleanup on a content write\<close>

definition content_write_mode_try_from_bits :: "u16 \<Rightarrow> u16 option" where
  "content_write_mode_try_from_bits bits = (if bits AND NOT 0xFFF \<noteq> 0 then None else Some bits)"

datatype setid_cleanup =
    CleanupPreserve
  | ClearSetUserId
  | ClearSetGroupId
  | ClearSetUserAndGroupId

record content_write_plan =
  cw_mode :: u16
  cw_preserves_setid :: bool
  cw_cleanup :: setid_cleanup
  cw_next_mode :: u16

definition plan_content_write_setid_cleanup :: "u16 \<Rightarrow> bool \<Rightarrow> content_write_plan" where
  "plan_content_write_setid_cleanup bits preserves_setid =
     (let clear_user = \<not> preserves_setid \<and> bits AND 0x800 \<noteq> 0;
          clear_group = \<not> preserves_setid \<and> bits AND (0x400 OR 0x8) = (0x400 OR 0x8);
          cleared = (if clear_user then 0x800 else 0) OR (if clear_group then 0x400 else 0);
          cleanup = (case (clear_user, clear_group) of
              (False, False) \<Rightarrow> CleanupPreserve
            | (True, False) \<Rightarrow> ClearSetUserId
            | (False, True) \<Rightarrow> ClearSetGroupId
            | (True, True) \<Rightarrow> ClearSetUserAndGroupId)
      in \<lparr>cw_mode = bits, cw_preserves_setid = preserves_setid, cw_cleanup = cleanup,
          cw_next_mode = bits AND NOT cleared\<rparr>)"

end
