(* ===== verification/Cred_Exec.thy ===== *)
theory Cred_Exec
  imports Cred_Transition
begin

unbundle bit_operations_syntax

text \<open>
  Credentials of a new program image, \<^verbatim>\<open>cred/src/exec.rs\<close>, and the file-capability record it
  consumes, \<^verbatim>\<open>file_capability.rs\<close>. The derivation is one function of the source; its stages (set-ID
  identities, the file-capability record, the permitted set before ambient capabilities, the
  downgrade of an unsafe exec) are definitions of their own, composed by
  \<open>derive_exec_credential\<close> in the order of the source. The coherent pair of identity maps a
  namespace hands out is the parameter \<open>maps\<close>.
\<close>

section \<open>File capabilities\<close>

record file_capabilities =
  fc_permitted :: cap_words
  fc_inheritable :: cap_words
  fc_effective :: bool
  fc_rootid :: kuid

definition file_capabilities_try_new ::
  "linux_uapi \<Rightarrow> cap_words \<Rightarrow> cap_words \<Rightarrow> bool \<Rightarrow> kuid \<Rightarrow> cred_error + file_capabilities" where
  "file_capabilities_try_new K permitted inheritable effective rootid =
     (if (fst permitted OR fst inheritable) AND NOT (fst (capability_valid_mask K)) \<noteq> 0
         \<or> (snd permitted OR snd inheritable) AND NOT (snd (capability_valid_mask K)) \<noteq> 0
      then Inl CrInvalidInput
      else Inr \<lparr>fc_permitted = permitted, fc_inheritable = inheritable, fc_effective = effective,
             fc_rootid = rootid\<rparr>)"

text \<open>\<open>u32::from_le_bytes\<close> of four bytes.\<close>

definition from_le_bytes :: "u8 \<Rightarrow> u8 \<Rightarrow> u8 \<Rightarrow> u8 \<Rightarrow> u32" where
  "from_le_bytes b0 b1 b2 b3 =
     ucast b0 OR push_bit 8 (ucast b1) OR push_bit 16 (ucast b2) OR push_bit 24 (ucast b3)"

definition read_le_u32 :: "u8 list \<Rightarrow> nat \<Rightarrow> cred_error + u32" where
  "read_le_u32 bytes offset =
     (if offset + 4 \<le> length bytes
      then Inr (from_le_bytes (bytes ! offset) (bytes ! (offset + 1)) (bytes ! (offset + 2))
             (bytes ! (offset + 3)))
      else Inl CrInvalidInput)"

definition vfs_cap_revision_mask :: u32 where "vfs_cap_revision_mask = 0xff000000"
definition vfs_cap_revision_1 :: u32 where "vfs_cap_revision_1 = 0x01000000"
definition vfs_cap_revision_2 :: u32 where "vfs_cap_revision_2 = 0x02000000"
definition vfs_cap_revision_3 :: u32 where "vfs_cap_revision_3 = 0x03000000"
definition vfs_cap_flags_effective :: u32 where "vfs_cap_flags_effective = 1"

definition parse_file_capabilities :: "linux_uapi \<Rightarrow> u8 list \<Rightarrow> cred_error + file_capabilities" where
  "parse_file_capabilities K bytes =
     and_then (read_le_u32 bytes 0) (\<lambda>magic.
       let revision = magic AND vfs_cap_revision_mask;
           flags = magic AND NOT vfs_cap_revision_mask
       in if flags AND NOT vfs_cap_flags_effective \<noteq> 0 then Inl CrInvalidInput
          else and_then
            (if revision = vfs_cap_revision_1 then Inr 12
             else if revision = vfs_cap_revision_2 then Inr 20
             else if revision = vfs_cap_revision_3 then Inr 24
             else Inl CrInvalidInput) (\<lambda>expected_size.
            if length bytes \<noteq> expected_size then Inl CrInvalidInput
            else and_then (read_le_u32 bytes 4) (\<lambda>p0. and_then (read_le_u32 bytes 8) (\<lambda>i0.
              and_then (if revision \<noteq> vfs_cap_revision_1 then read_le_u32 bytes 12 else Inr 0) (\<lambda>p1.
              and_then (if revision \<noteq> vfs_cap_revision_1 then read_le_u32 bytes 16 else Inr 0) (\<lambda>i1.
              and_then (if revision = vfs_cap_revision_3
                 then and_then (read_le_u32 bytes 20) (\<lambda>raw. ok_or CrInvalidInput (kuid_from_raw raw))
                 else Inr kuid_initial_root) (\<lambda>rootid.
                file_capabilities_try_new K (p0, p1) (i0, i1)
                  (flags AND vfs_cap_flags_effective \<noteq> 0) rootid)))))))"

section \<open>Inputs and results of an exec\<close>

record exec_file_owner =
  eo_uid :: kuid
  eo_gid :: kgid

datatype exec_mount_privilege = MountHonor | MountNoSuid
datatype exec_trace_state = NotSuppressingPrivilege | SuppressingPrivilege
datatype exec_image_readability = ImageReadable | ImageUnreadable
datatype exec_dumpability = NotDumpable | UserDumpable

record exec_credential_input =
  ei_mode :: u16
  ei_owner :: "exec_file_owner option"
  ei_mount_privilege :: exec_mount_privilege
  ei_trace_state :: exec_trace_state
  ei_image_readability :: exec_image_readability
  ei_file_capabilities :: "file_capabilities option"

record exec_aux_identity =
  ax_uid :: user_uid
  ax_euid :: user_uid
  ax_gid :: user_gid
  ax_egid :: user_gid
  ax_secure :: bool

definition aux_trusted_boot :: exec_aux_identity where
  "aux_trusted_boot = \<lparr>ax_uid = user_uid_root, ax_euid = user_uid_root, ax_gid = user_gid_root,
     ax_egid = user_gid_root, ax_secure = False\<rparr>"

definition overflow_uid :: user_uid where
  "overflow_uid = (case user_uid_from_raw user_namespace_overflow_id of
     Some uid \<Rightarrow> uid | None \<Rightarrow> user_uid_root)"

definition overflow_gid :: user_gid where
  "overflow_gid = (case user_gid_from_raw user_namespace_overflow_id of
     Some gid \<Rightarrow> gid | None \<Rightarrow> user_gid_root)"

definition aux_from_ids ::
  "credential_ids \<Rightarrow> id_map \<Rightarrow> id_map \<Rightarrow> bool \<Rightarrow> exec_aux_identity" where
  "aux_from_ids ids uid_map gid_map secure =
     \<lparr>ax_uid = unwrap_or (kernel_uid_to_user uid_map (ruid ids)) overflow_uid,
      ax_euid = unwrap_or (kernel_uid_to_user uid_map (euid ids)) overflow_uid,
      ax_gid = unwrap_or (kernel_gid_to_user gid_map (rgid ids)) overflow_gid,
      ax_egid = unwrap_or (kernel_gid_to_user gid_map (egid ids)) overflow_gid,
      ax_secure = secure\<rparr>"

record exec_credential_effects =
  ee_aux_identity :: exec_aux_identity
  ee_dumpability :: exec_dumpability
  ee_clear_pdeath_signal :: bool
  ee_clear_personality_on_setid :: bool

record exec_ptrace_revalidation =
  er_privilege_sensitive :: bool
  er_prepared_trace_state :: exec_trace_state

definition revalidation_is_stale ::
  "exec_ptrace_revalidation \<Rightarrow> exec_trace_state \<Rightarrow> bool" where
  "revalidation_is_stale r current \<longleftrightarrow>
     er_privilege_sensitive r \<and> er_prepared_trace_state r \<noteq> SuppressingPrivilege \<and>
     current = SuppressingPrivilege"

record 'n exec_credential_proposal =
  ep_old :: "'n credential arc"
  ep_proposed :: "'n credential arc"
  ep_input :: exec_credential_input
  ep_effects :: exec_credential_effects
  ep_revalidation :: exec_ptrace_revalidation

definition proposal_try_into_proposed ::
  "'n exec_credential_proposal \<Rightarrow> 'n credential arc \<Rightarrow> cred_error + 'n credential arc" where
  "proposal_try_into_proposed p expected_old =
     (if \<not> arc_ptr_eq (ep_old p) expected_old then Inl CrNotPermitted else Inr (ep_proposed p))"

section \<open>Stages of the derivation\<close>

function root_owns_ancestor_loop :: "'n namespace_view \<Rightarrow> kuid \<Rightarrow> 'n \<Rightarrow> bool" where
  "root_owns_ancestor_loop V rootid namespace =
     (case nv_parent V namespace of
        None \<Rightarrow> False
      | Some parent \<Rightarrow>
          if nv_level V parent \<ge> nv_level V namespace then False
          else if nv_root_kuid V parent = Some rootid then True
          else root_owns_ancestor_loop V rootid parent)"
  by pat_completeness auto

termination
  by (relation "measure (\<lambda>(V, _, n). nv_level V n)") auto

declare root_owns_ancestor_loop.simps [simp del]

definition file_root_owns_current_namespace ::
  "'n namespace_view \<Rightarrow> 'n \<Rightarrow> kuid option \<Rightarrow> kuid \<Rightarrow> bool" where
  "file_root_owns_current_namespace V user_ns current_root_kuid rootid =
     (if current_root_kuid = Some rootid then True else root_owns_ancestor_loop V rootid user_ns)"

definition any_bits_outside :: "cap_words \<Rightarrow> cap_words \<Rightarrow> bool" where
  "any_bits_outside l r \<longleftrightarrow> fst l AND NOT (fst r) \<noteq> 0 \<or> snd l AND NOT (snd r) \<noteq> 0"

definition owner_is_mapped :: "exec_file_owner \<Rightarrow> id_map \<Rightarrow> id_map \<Rightarrow> bool" where
  "owner_is_mapped owner uid_map gid_map \<longleftrightarrow>
     kernel_uid_to_user uid_map (eo_uid owner) \<noteq> None \<and>
     kernel_gid_to_user gid_map (eo_gid owner) \<noteq> None"

definition exec_mapped_owner ::
  "id_map \<times> id_map \<Rightarrow> exec_credential_input \<Rightarrow> exec_file_owner option" where
  "exec_mapped_owner m input =
     (case ei_owner input of
        None \<Rightarrow> None
      | Some owner \<Rightarrow> if owner_is_mapped owner (fst m) (snd m) then Some owner else None)"

definition exec_set_uid :: "exec_file_owner option \<Rightarrow> exec_credential_input \<Rightarrow> bool" where
  "exec_set_uid mapped_owner input \<longleftrightarrow> mapped_owner \<noteq> None \<and> ei_mode input AND 0x800 \<noteq> 0"

definition exec_set_gid :: "exec_file_owner option \<Rightarrow> exec_credential_input \<Rightarrow> bool" where
  "exec_set_gid mapped_owner input \<longleftrightarrow>
     mapped_owner \<noteq> None \<and> ei_mode input AND (0x400 OR 0x8) = (0x400 OR 0x8)"

definition exec_setid_admitted :: "'n credential \<Rightarrow> exec_credential_input \<Rightarrow> bool" where
  "exec_setid_admitted old input \<longleftrightarrow>
     ei_mount_privilege input = MountHonor \<and> \<not> cr_no_new_privs old"

definition exec_setid_ids ::
  "'n credential \<Rightarrow> exec_file_owner option \<Rightarrow> exec_credential_input \<Rightarrow> credential_ids" where
  "exec_setid_ids old mapped_owner input =
     (case mapped_owner of
        None \<Rightarrow> cr_ids old
      | Some owner \<Rightarrow>
          if exec_setid_admitted old input then
            let ids = (if exec_set_uid mapped_owner input
                       then (cr_ids old)\<lparr>euid := eo_uid owner\<rparr> else cr_ids old)
            in if exec_set_gid mapped_owner input then ids\<lparr>egid := eo_gid owner\<rparr> else ids
          else cr_ids old)"

definition exec_id_changed :: "'n credential \<Rightarrow> credential_ids \<Rightarrow> bool" where
  "exec_id_changed old ids \<longleftrightarrow>
     euid ids \<noteq> euid (cr_ids old) \<or>
     (egid ids \<noteq> fsgid (cr_ids old) \<and> \<not> groups_contain (cr_groups old) (egid ids))"

definition exec_file_capabilities ::
  "'n namespace_view \<Rightarrow> 'n credential \<Rightarrow> kuid option \<Rightarrow> exec_credential_input \<Rightarrow>
   file_capabilities option" where
  "exec_file_capabilities V old root_kuid input =
     (if ei_mount_privilege input \<noteq> MountHonor then None
      else case ei_file_capabilities input of
        None \<Rightarrow> None
      | Some caps \<Rightarrow>
          if file_root_owns_current_namespace V (cr_user_ns old) root_kuid (fc_rootid caps)
          then Some caps else None)"

definition exec_file_sets :: "file_capabilities option \<Rightarrow> cap_words \<times> cap_words \<times> bool" where
  "exec_file_sets file =
     (case file of
        None \<Rightarrow> (cw_zero, cw_zero, False)
      | Some f \<Rightarrow> (fc_permitted f, fc_inheritable f, fc_effective f))"

definition exec_file_granted :: "capability_sets \<Rightarrow> cap_words \<Rightarrow> cap_words \<Rightarrow> cap_words" where
  "exec_file_granted c file_permitted file_inheritable =
     cw_or (cw_and (cs_bounding c) file_permitted) (cw_and (cs_inheritable c) file_inheritable)"

definition exec_root_compat ::
  "capability_sets \<Rightarrow> kuid option \<Rightarrow> credential_ids \<Rightarrow> bool \<Rightarrow> bool" where
  "exec_root_compat c root_kuid ids has_fcap \<longleftrightarrow>
     cs_securebits c AND secbit_noroot = 0 \<and>
     (root_kuid = Some (ruid ids) \<or> root_kuid = Some (euid ids)) \<and>
     \<not> (has_fcap \<and> root_kuid \<noteq> Some (ruid ids) \<and> root_kuid = Some (euid ids))"

definition exec_unsafe :: "'n credential \<Rightarrow> exec_credential_input \<Rightarrow> bool" where
  "exec_unsafe old input \<longleftrightarrow>
     cr_no_new_privs old \<or> ei_trace_state input = SuppressingPrivilege"

definition exec_setid_downgraded ::
  "linux_uapi \<Rightarrow> 'n credential \<Rightarrow> exec_credential_input \<Rightarrow> bool \<Rightarrow> bool" where
  "exec_setid_downgraded K old input privilege_sensitive \<longleftrightarrow>
     privilege_sensitive \<and> exec_unsafe old input \<and>
     (cr_no_new_privs old \<or> \<not> has_effective_capability_in_own_user_ns K old (cap_setuid K))"

definition exec_final_ids :: "credential_ids \<Rightarrow> bool \<Rightarrow> credential_ids" where
  "exec_final_ids ids downgraded =
     (let ids = (if downgraded then ids\<lparr>euid := ruid ids, egid := rgid ids\<rparr> else ids)
      in ids\<lparr>suid := euid ids, fsuid := euid ids, sgid := egid ids, fsgid := egid ids\<rparr>)"

definition exec_capabilities ::
  "linux_uapi \<Rightarrow> capability_sets \<Rightarrow> cap_words \<Rightarrow> bool \<Rightarrow> bool \<Rightarrow> cred_error + capability_sets" where
  "exec_capabilities K c permitted_without_ambient clear_ambient_set file_effective =
     (let ambient = (if clear_ambient_set then cw_zero else cs_ambient c);
          permitted = cw_or permitted_without_ambient ambient;
          effective = (if file_effective then permitted else ambient);
          ambient = cw_and ambient (cw_and permitted (cs_inheritable c))
      in caps_try_new K effective permitted (cs_inheritable c) (cs_bounding c) ambient
           (cs_securebits c AND NOT secbit_keep_caps))"

text \<open>The process-image effects; \<open>setid\<close> are the identities before the downgrade, \<open>ids\<close> the final ones.\<close>

definition exec_effects ::
  "'n credential \<Rightarrow> exec_credential_input \<Rightarrow> id_map \<times> id_map \<Rightarrow> credential_ids \<Rightarrow>
   credential_ids \<Rightarrow> kuid option \<Rightarrow> capability_sets \<Rightarrow> bool \<Rightarrow> bool \<Rightarrow> exec_credential_effects" where
  "exec_effects old input m setid ids root_kuid capabilities file_effective gained_before_unsafe =
     (let old_ids = cr_ids old;
          mapped_owner = exec_mapped_owner m input;
          old_permitted = cs_permitted (cr_caps old);
          differs_from_real_ids = (euid ids \<noteq> ruid old_ids \<or> egid ids \<noteq> rgid old_ids);
          changed_effective_or_fs_ids =
            (euid old_ids \<noteq> euid ids \<or> egid old_ids \<noteq> egid ids
             \<or> fsuid old_ids \<noteq> fsuid ids \<or> fsgid old_ids \<noteq> fsgid ids);
          permitted_gained = any_bits_outside (cs_permitted capabilities) old_permitted;
          admitted = exec_setid_admitted old input;
          honored_setuid = (admitted \<and> exec_set_uid mapped_owner input);
          honored_setgid = (admitted \<and> exec_set_gid mapped_owner input);
          capabilities_beyond_ambient =
            any_bits_outside (cs_permitted capabilities) (cs_ambient capabilities);
          non_root_file_privilege =
            (root_kuid \<noteq> Some (ruid ids) \<and> (file_effective \<or> capabilities_beyond_ambient));
          secure_exec =
            (exec_id_changed old setid \<or> differs_from_real_ids \<or> non_root_file_privilege);
          pre_exec_ids_mismatched = (euid old_ids \<noteq> ruid old_ids \<or> egid old_ids \<noteq> rgid old_ids)
      in \<lparr>ee_aux_identity = aux_from_ids ids (fst m) (snd m) secure_exec,
          ee_dumpability =
            (if ei_image_readability input = ImageUnreadable \<or> pre_exec_ids_mismatched
                \<or> changed_effective_or_fs_ids \<or> permitted_gained
             then NotDumpable else UserDumpable),
          ee_clear_pdeath_signal =
            (secure_exec \<or> changed_effective_or_fs_ids \<or> permitted_gained),
          ee_clear_personality_on_setid =
            (honored_setuid \<or> honored_setgid \<or> gained_before_unsafe)\<rparr>)"

section \<open>The derivation\<close>

definition derive_exec_credential ::
  "linux_uapi \<Rightarrow> 'n namespace_view \<Rightarrow> ('n \<Rightarrow> id_map \<times> id_map) \<Rightarrow> nat option \<Rightarrow>
   'n credential arc \<Rightarrow> exec_credential_input \<Rightarrow> cred_error + 'n exec_credential_proposal" where
  "derive_exec_credential K V maps addr old_arc input =
     (let old = snd old_arc;
          m = maps (cr_user_ns old);
          c = cr_caps old;
          root_kuid = user_uid_to_kernel (fst m) user_uid_root;
          setid = exec_setid_ids old (exec_mapped_owner m input) input;
          id_changed = exec_id_changed old setid;
          file = exec_file_capabilities V old root_kuid input;
          has_fcap = (file \<noteq> None);
          (file_permitted, file_inheritable, file_effective) = exec_file_sets file;
          granted = exec_file_granted c file_permitted file_inheritable
      in if file_effective \<and> any_bits_outside file_permitted granted then Inl CrNotPermitted
         else
           let root_compat = exec_root_compat c root_kuid setid has_fcap;
               permitted0 = (if root_compat then cw_or (cs_bounding c) (cs_inheritable c) else granted);
               file_effective = (if root_compat \<and> root_kuid = Some (euid setid) then True
                                 else file_effective);
               gained_before_unsafe = any_bits_outside permitted0 (cs_permitted c);
               privilege_sensitive = (id_changed \<or> gained_before_unsafe);
               ids = exec_final_ids setid (exec_setid_downgraded K old input privilege_sensitive);
               permitted_without_ambient =
                 (if privilege_sensitive \<and> exec_unsafe old input
                  then cw_and permitted0 (cs_permitted c) else permitted0)
           in and_then (exec_capabilities K c permitted_without_ambient (has_fcap \<or> id_changed)
                  file_effective) (\<lambda>capabilities.
              and_then (try_from_transition K addr old ids (cr_groups old) capabilities
                  (cr_no_new_privs old) (cr_user_ns old) ExecClearsKeepCaps) (\<lambda>proposed.
                Inr \<lparr>ep_old = old_arc, ep_proposed = proposed, ep_input = input,
                     ep_effects = exec_effects old input m setid ids root_kuid capabilities
                       file_effective gained_before_unsafe,
                     ep_revalidation = \<lparr>er_privilege_sensitive = privilege_sensitive,
                       er_prepared_trace_state = ei_trace_state input\<rparr>\<rparr>)))"

definition commoncap_exec_transition :: "'n exec_credential_proposal \<Rightarrow> cred_error + unit" where
  "commoncap_exec_transition proposal =
     (let old = snd (ep_old proposal); proposed = snd (ep_proposed proposal)
      in if cr_user_ns old \<noteq> cr_user_ns proposed
            \<or> cr_no_new_privs old \<noteq> cr_no_new_privs proposed then Inl CrNotPermitted
         else if (cr_no_new_privs old \<or> ei_trace_state (ep_input proposal) = SuppressingPrivilege)
            \<and> \<not> capability_subset (cs_permitted (cr_caps proposed)) (cs_permitted (cr_caps old))
         then Inl CrNotPermitted
         else Inr ())"

end
