(* ===== verification/Cred_Caps_Safety.thy ===== *)
theory Cred_Caps_Safety
  imports Cred_Exec
begin

unbundle bit_operations_syntax

text \<open>
  Capability words as sets of capability numbers, and what a validated transition promises: the
  word operations are the set operations, \<open>validate\<close> decides the inclusions a capability state
  must satisfy, every operation on capability sets keeps them, and a locked securebit cannot be
  changed.
\<close>

section \<open>Capability words as sets\<close>

definition cap_set :: "cap_words \<Rightarrow> nat set" where
  "cap_set ws = {n. if n < 32 then bit (fst ws) n else bit (snd ws) (n - 32)}"

lemma andnot_eq_0_iff: "(a :: 'w :: len word) AND NOT b = 0 \<longleftrightarrow> (\<forall>n. bit a n \<longrightarrow> bit b n)"
  by (auto simp: bit_eq_iff bit_simps dest: bit_imp_le_length)

lemma bit_u32_less: "bit (w :: u32) n \<Longrightarrow> n < 32"
  using bit_imp_le_length [of w n] by simp

lemma cap_set_subset_iff:
  "cap_set a \<subseteq> cap_set b \<longleftrightarrow> (\<forall>n. bit (fst a) n \<longrightarrow> bit (fst b) n) \<and> (\<forall>n. bit (snd a) n \<longrightarrow> bit (snd b) n)"
proof
  assume sub: "cap_set a \<subseteq> cap_set b"
  have "bit (fst b) n" if "bit (fst a) n" for n
    using sub that bit_u32_less [OF that] by (auto simp: cap_set_def dest!: subsetD [of _ _ n])
  moreover have "bit (snd b) n" if "bit (snd a) n" for n
    using sub that by (auto simp: cap_set_def dest!: subsetD [of _ _ "n + 32"])
  ultimately show "(\<forall>n. bit (fst a) n \<longrightarrow> bit (fst b) n) \<and> (\<forall>n. bit (snd a) n \<longrightarrow> bit (snd b) n)"
    by blast
qed (auto simp: cap_set_def)

lemma capability_subset_iff: "capability_subset a b \<longleftrightarrow> cap_set a \<subseteq> cap_set b"
  by (simp add: capability_subset_def andnot_eq_0_iff cap_set_subset_iff)

lemma any_bits_outside_iff: "any_bits_outside a b \<longleftrightarrow> \<not> cap_set a \<subseteq> cap_set b"
  by (simp add: any_bits_outside_def andnot_eq_0_iff cap_set_subset_iff)

lemma cap_set_zero [simp]: "cap_set cw_zero = {}"
  by (simp add: cap_set_def cw_zero_def)

lemma cap_set_and [simp]: "cap_set (cw_and a b) = cap_set a \<inter> cap_set b"
  by (auto simp: cap_set_def cw_and_def bit_simps)

lemma cap_set_or [simp]: "cap_set (cw_or a b) = cap_set a \<union> cap_set b"
  by (auto simp: cap_set_def cw_or_def bit_simps)

section \<open>Valid capability states\<close>

definition caps_ok :: "linux_uapi \<Rightarrow> capability_sets \<Rightarrow> bool" where
  "caps_ok K c \<longleftrightarrow>
     cs_securebits c AND NOT (secure_all_bits OR secure_all_locks) = 0 \<and>
     cap_set (cs_permitted c) \<union> cap_set (cs_inheritable c) \<union> cap_set (cs_bounding c)
       \<subseteq> cap_set (capability_valid_mask K) \<and>
     cap_set (cs_effective c) \<subseteq> cap_set (cs_permitted c) \<and>
     cap_set (cs_ambient c) \<subseteq> cap_set (cs_permitted c) \<inter> cap_set (cs_inheritable c)"

lemma or_andnot_eq_0_iff:
  "((a :: 'w :: len word) OR b) AND NOT m = 0 \<longleftrightarrow> a AND NOT m = 0 \<and> b AND NOT m = 0"
  by (auto simp: andnot_eq_0_iff bit_simps)

lemma validate_word_iff:
  "validate_word m e p i b a = Inr () \<longleftrightarrow>
     p AND NOT m = 0 \<and> i AND NOT m = 0 \<and> b AND NOT m = 0 \<and> e AND NOT p = 0 \<and>
     a AND NOT (p AND i) = 0"
  unfolding validate_word_def or_andnot_eq_0_iff andnot_eq_0_iff by (auto simp: bit_and_iff bit_or_iff)

lemma caps_validate_iff: "caps_validate K c = Inr () \<longleftrightarrow> caps_ok K c"
proof -
  have "caps_ok K c \<longleftrightarrow> cs_securebits c AND NOT (secure_all_bits OR secure_all_locks) = 0 \<and>
    capability_subset (cs_permitted c) (capability_valid_mask K) \<and>
    capability_subset (cs_inheritable c) (capability_valid_mask K) \<and>
    capability_subset (cs_bounding c) (capability_valid_mask K) \<and>
    capability_subset (cs_effective c) (cs_permitted c) \<and>
    capability_subset (cs_ambient c) (cw_and (cs_permitted c) (cs_inheritable c))"
    by (auto simp: caps_ok_def capability_subset_iff)
  then show ?thesis
    by (auto simp: caps_validate_def validate_word_iff capability_subset_def cw_and_def)
qed

lemma caps_try_new_Inr_iff:
  "caps_try_new K e p i b a s = Inr c \<longleftrightarrow>
     c = \<lparr>cs_effective = e, cs_permitted = p, cs_inheritable = i, cs_bounding = b, cs_ambient = a,
          cs_securebits = s\<rparr> \<and> caps_ok K c"
  by (auto simp: caps_try_new_def Let_def caps_validate_iff)

lemma caps_try_new_ok:
  "caps_ok K \<lparr>cs_effective = e, cs_permitted = p, cs_inheritable = i, cs_bounding = b, cs_ambient = a,
     cs_securebits = s\<rparr> \<Longrightarrow>
   caps_try_new K e p i b a s = Inr \<lparr>cs_effective = e, cs_permitted = p, cs_inheritable = i,
     cs_bounding = b, cs_ambient = a, cs_securebits = s\<rparr>"
  by (simp add: caps_try_new_Inr_iff)

lemma caps_full_ok: "caps_ok K (caps_full K)"
  by (simp add: caps_ok_def caps_full_def)

lemma caps_empty_ok: "caps_ok K caps_empty"
  by (simp add: caps_ok_def caps_empty_def)

section \<open>Single capabilities\<close>

lemma cap_mask_SomeD: "cap_mask K n = Some (word, m) \<Longrightarrow> n < 64 \<and> word = n div 32 \<and> m = push_bit (n mod 32) 1"
  by (auto simp: cap_mask_def Let_def split: if_splits)

lemma bit_test: "(w :: u32) AND push_bit k 1 \<noteq> 0 \<longleftrightarrow> bit w k"
  by (simp add: push_bit_eq_mult and_exp_eq_0_iff_not_bit)

lemma cap_set_bit:
  "cap_mask K n = Some (word, m) \<Longrightarrow> cw_get ws word AND m \<noteq> 0 \<longleftrightarrow> n \<in> cap_set ws"
  using cap_mask_SomeD [of K n word m] bit_test [of "cw_get ws word" "n mod 32"]
  by (cases "n < 32") (auto simp: cw_get_def cap_set_def le_div_geq le_mod_geq)

lemma cap_set_set_or:
  assumes "cap_mask K n = Some (word, m)"
  shows "cap_set (cw_set ws word (cw_get ws word OR m)) = insert n (cap_set ws)"
  using cap_mask_SomeD [OF assms]
  by (cases "n < 32")
    (auto simp: cw_get_def cw_set_def cap_set_def le_div_geq le_mod_geq bit_simps dest: bit_u32_less)

lemma cap_set_set_andnot:
  assumes "cap_mask K n = Some (word, m)"
  shows "cap_set (cw_set ws word (cw_get ws word AND NOT m)) = cap_set ws - {n}"
  using cap_mask_SomeD [OF assms]
  by (cases "n < 32")
    (auto simp: cw_get_def cw_set_def cap_set_def le_div_geq le_mod_geq bit_simps dest: bit_u32_less)

lemma words_contain_iff: "words_contain K ws n \<longleftrightarrow> cap_mask K n \<noteq> None \<and> n \<in> cap_set ws"
  by (auto simp: words_contain_def cap_set_bit split: option.splits prod.splits)

section \<open>Operations keep a capability state valid\<close>

lemma caps_ok_ops:
  assumes "caps_ok K c"
  shows "caps_ok K (fst (try_raise_ambient K c n))"
    and "caps_ok K (fst (try_lower_ambient K c n))"
    and "caps_ok K (clear_ambient c)"
    and "caps_ok K (reconcile_ambient c)"
    and "caps_ok K (fst (try_drop_bounding K c n))"
  using assms
  by (auto simp: caps_ok_def try_raise_ambient_def try_lower_ambient_def clear_ambient_def
      reconcile_ambient_def try_drop_bounding_def cap_set_set_or cap_set_set_andnot
      cap_set_bit [symmetric] split: option.splits)

lemma bit_flag: "bit (push_bit k 1 :: u32) n \<longleftrightarrow> n = k \<and> k < 32"
  by (auto simp: bit_simps)

lemma bit_secure_all_bits: "bit secure_all_bits n \<longleftrightarrow> n \<in> {0, 2, 4, 6, 8, 10}"
  unfolding secure_all_bits_def secbit_noroot_def secbit_no_setuid_fixup_def secbit_keep_caps_def
    secbit_no_cap_ambient_raise_def secbit_exec_restrict_file_def secbit_exec_deny_interactive_def
    bit_or_iff bit_flag
  by auto

lemma bit_secure_all_locks: "bit secure_all_locks n \<longleftrightarrow> n \<in> {1, 3, 5, 7, 9, 11}"
  unfolding secure_all_locks_def bit_push_bit_iff bit_secure_all_bits by auto

lemma bit_keep_caps: "bit secbit_keep_caps n \<longleftrightarrow> n = 4"
  unfolding secbit_keep_caps_def bit_flag by auto

lemma bit_keep_caps_locked: "bit secbit_keep_caps_locked n \<longleftrightarrow> n = 5"
  unfolding secbit_keep_caps_locked_def bit_flag by auto

lemma securebits_ok_ops:
  assumes "caps_ok K c"
  shows "caps_ok K (fst (try_set_securebits c w))" and "caps_ok K (fst (try_set_keep_caps c b))"
  using assms unfolding caps_ok_def try_set_securebits_def try_set_keep_caps_def andnot_eq_0_iff
  by (auto simp: bit_or_iff bit_and_iff bit_secure_all_bits bit_secure_all_locks bit_keep_caps)

section \<open>Locked securebits\<close>

lemma eq_0_iff_no_bit: "(w :: u32) = 0 \<longleftrightarrow> (\<forall>n. \<not> bit w n)"
  by (simp add: bit_eq_iff) (use bit_u32_less in blast)

text \<open>A locked value is one whose adjacent lock bit is set.\<close>

lemma locked_values_unchanged_iff:
  "locked_values_changed old new = 0 \<longleftrightarrow>
   (\<forall>k \<in> {0, 2, 4, 6, 8, 10}. bit old (k + 1) \<longrightarrow> bit new k = bit old k)"
proof -
  have "bit (locked_values_changed old new) n \<longleftrightarrow>
    n \<in> {0, 2, 4, 6, 8, 10} \<and> bit old (n + 1) \<and> bit old n \<noteq> bit new n" for n
    unfolding locked_values_changed_def bit_and_iff bit_xor_iff bit_drop_bit_eq bit_secure_all_bits
      bit_secure_all_locks o_def by auto
  then show ?thesis unfolding eq_0_iff_no_bit by blast
qed

lemma locks_kept_iff:
  "locks_cleared old new = 0 \<longleftrightarrow> (\<forall>k \<in> {1, 3, 5, 7, 9, 11}. bit old k \<longrightarrow> bit new k)"
proof -
  have "bit (locks_cleared old new) n \<longleftrightarrow> n \<in> {1, 3, 5, 7, 9, 11} \<and> bit old n \<and> \<not> bit new n" for n
    unfolding locks_cleared_def bit_and_iff bit_not_iff bit_secure_all_locks
    by (auto dest: bit_u32_less)
  then show ?thesis unfolding eq_0_iff_no_bit by blast
qed

lemma keep_caps_relaxation_iff:
  "locked_values_changed old new AND NOT secbit_keep_caps = 0 \<longleftrightarrow>
   (\<forall>k \<in> {0, 2, 6, 8, 10}. bit old (k + 1) \<longrightarrow> bit new k = bit old k)"
proof -
  have "bit (locked_values_changed old new AND NOT secbit_keep_caps) n \<longleftrightarrow>
    n \<in> {0, 2, 6, 8, 10} \<and> bit old (n + 1) \<and> bit old n \<noteq> bit new n" for n
    unfolding locked_values_changed_def bit_and_iff bit_xor_iff bit_drop_bit_eq bit_secure_all_bits
      bit_secure_all_locks bit_not_iff bit_keep_caps o_def by auto
  then show ?thesis unfolding eq_0_iff_no_bit by blast
qed

text \<open>What a later credential keeps of the securebits: every lock, and every locked value but the
  one exec may clear.\<close>

definition locks_respected :: "u32 \<Rightarrow> u32 \<Rightarrow> bool" where
  "locks_respected old new \<longleftrightarrow>
     (\<forall>k \<in> {1, 3, 5, 7, 9, 11}. bit old k \<longrightarrow> bit new k) \<and>
     (\<forall>k \<in> {0, 2, 6, 8, 10}. bit old (k + 1) \<longrightarrow> bit new k = bit old k)"

lemma locks_respected_trans:
  "locks_respected a b \<Longrightarrow> locks_respected b c \<Longrightarrow> locks_respected a c"
  by (auto simp: locks_respected_def)

section \<open>Validated transitions\<close>

lemma try_from_transition_InrD:
  assumes "try_from_transition K addr old ids groups caps nnp ns mode = Inr new"
  shows "snd new = \<lparr>cr_ids = ids, cr_groups = groups, cr_caps = caps, cr_no_new_privs = nnp,
      cr_user_ns = ns\<rparr>"
    and "caps_ok K caps" and "ns = cr_user_ns old" and "cr_no_new_privs old \<Longrightarrow> nnp"
    and "locks_respected (cs_securebits (cr_caps old)) (cs_securebits caps)"
proof -
  let ?old = "cs_securebits (cr_caps old)" and ?new = "cs_securebits caps"
  have facts: "snd new = \<lparr>cr_ids = ids, cr_groups = groups, cr_caps = caps, cr_no_new_privs = nnp,
      cr_user_ns = ns\<rparr> \<and> caps_ok K caps \<and> ns = cr_user_ns old \<and> (cr_no_new_privs old \<longrightarrow> nnp) \<and>
    locks_cleared ?old ?new = 0 \<and>
    locked_values_changed ?old ?new AND NOT secbit_keep_caps = 0"
    using assms
    by (auto simp: try_from_transition_def Let_def caps_validate_iff arc_try_new_def split: if_splits)
  then show "snd new = \<lparr>cr_ids = ids, cr_groups = groups, cr_caps = caps, cr_no_new_privs = nnp,
      cr_user_ns = ns\<rparr>" "caps_ok K caps" "ns = cr_user_ns old" "cr_no_new_privs old \<Longrightarrow> nnp"
    by auto
  show "locks_respected ?old ?new"
    using facts unfolding locks_kept_iff keep_caps_relaxation_iff locks_respected_def by blast
qed

text \<open>Exec drops exactly \<open>KEEP_CAPS\<close>, which is always a permitted change.\<close>

lemma exec_securebits_ok:
  fixes old :: "'n credential"
  assumes "caps_ok K caps" and "cs_securebits caps = cs_securebits (cr_caps old) AND NOT secbit_keep_caps"
  shows "try_from_transition K addr old ids groups caps (cr_no_new_privs old) (cr_user_ns old)
      ExecClearsKeepCaps =
    arc_try_new addr \<lparr>cr_ids = ids, cr_groups = groups, cr_caps = caps,
      cr_no_new_privs = cr_no_new_privs old, cr_user_ns = cr_user_ns old\<rparr>"
proof -
  let ?old = "cs_securebits (cr_caps old)" and ?new = "cs_securebits caps"
  let ?pair = "secbit_keep_caps OR secbit_keep_caps_locked"
  have new: "bit ?new n \<longleftrightarrow> bit ?old n \<and> n \<noteq> 4" for n
    unfolding assms(2) bit_and_iff bit_not_iff bit_keep_caps by (auto dest: bit_u32_less)
  have keep: "?new AND secbit_keep_caps = 0"
    unfolding eq_0_iff_no_bit bit_and_iff bit_keep_caps by (simp add: new)
  have "locks_cleared ?old ?new = 0" unfolding locks_kept_iff by (simp add: new)
  moreover have "locked_values_changed ?old ?new AND NOT secbit_keep_caps = 0"
    unfolding keep_caps_relaxation_iff by (simp add: new)
  moreover have "locked_values_changed ?old ?new = 0" if "?old AND ?pair \<noteq> ?pair"
  proof -
    have "?old AND ?pair = ?pair" if "bit ?old 4" "bit ?old 5"
      using that by (intro bit_word_eqI)
        (auto simp: bit_and_iff bit_or_iff bit_keep_caps bit_keep_caps_locked)
    with that have "\<not> (bit ?old 4 \<and> bit ?old 5)" by blast
    then show ?thesis unfolding locked_values_unchanged_iff by (auto simp: new)
  qed
  ultimately show ?thesis
    using keep caps_validate_iff [THEN iffD2, OF assms(1)] by (auto simp: try_from_transition_def Let_def)
qed

end
