(* ===== verification/Cred_Idmap_Props.thy ===== *)
theory Cred_Idmap_Props
  imports Cred_Idmap
begin

text \<open>
  Correctness of the identity maps. The binary search is exact on an index of disjoint extents,
  so both lookups of a validated map decide one relation; the two directions are inverse to
  each other, and the map of a child namespace is the composition of its rows with the map of
  its parent.
\<close>

section \<open>Ranges\<close>

lemma checked_add_u32_Some_iff:
  "checked_add_u32 a b = Some c \<longleftrightarrow> unat a + unat b < 2 ^ 32 \<and> c = a + b"
  by (auto simp: checked_add_u32_def)

lemma unat_add_u32: "unat (a :: u32) + unat b < 2 ^ 32 \<Longrightarrow> unat (a + b) = unat a + unat b"
  by (simp add: unat_word_ariths)

lemma unat_less_u32: "unat (a :: u32) < 2 ^ 32"
  using unsigned_less [of a, where ?'a = nat] by simp

lemma unat_invalid_id: "unat invalid_id = 2 ^ 32 - 1"
  by (simp add: invalid_id_def unsigned_minus_1_eq_mask mask_eq_exp_minus_1)

lemma valid_range_end_Some_iff:
  "valid_range_end f n = Some e \<longleftrightarrow> 0 < unat n \<and> unat f + unat n < 2 ^ 32 \<and> e = f + n"
  using unat_invalid_id unsigned_eq_0_iff [of n, where ?'a = nat]
  by (auto simp: valid_range_end_def checked_add_u32_Some_iff)

text \<open>The two half-open intervals of an extent, over the naturals.\<close>

definition range_ok :: "(id_extent \<Rightarrow> u32) \<Rightarrow> id_extent \<Rightarrow> bool" where
  "range_ok start e \<longleftrightarrow> 0 < unat (ex_count e) \<and> unat (start e) + unat (ex_count e) < 2 ^ 32"

definition in_range :: "(id_extent \<Rightarrow> u32) \<Rightarrow> id_extent \<Rightarrow> u32 \<Rightarrow> bool" where
  "in_range start e i \<longleftrightarrow>
     unat (start e) \<le> unat i \<and> unat i < unat (start e) + unat (ex_count e)"

definition before :: "(id_extent \<Rightarrow> u32) \<Rightarrow> id_extent \<Rightarrow> id_extent \<Rightarrow> bool" where
  "before start a b \<longleftrightarrow> unat (start a) + unat (ex_count a) \<le> unat (start b)"

definition apart :: "(id_extent \<Rightarrow> u32) \<Rightarrow> id_extent \<Rightarrow> id_extent \<Rightarrow> bool" where
  "apart start a b \<longleftrightarrow> before start a b \<or> before start b a"

abbreviation extent_ok :: "id_extent \<Rightarrow> bool" where
  "extent_ok e \<equiv> range_ok ex_first e \<and> range_ok ex_lower_first e"

lemma end_word:
  "range_ok start e \<Longrightarrow> unat (start e + ex_count e) = unat (start e) + unat (ex_count e)"
  by (simp add: range_ok_def unat_add_u32)

lemma validate_ranges_Inr_iff: "validate_ranges es = Inr () \<longleftrightarrow> (\<forall>e \<in> set es. extent_ok e)"
  by (induction es) (auto simp: validate_range_def valid_range_end_Some_iff range_ok_def)

lemma validate_ranges_Inl: "validate_ranges es = Inl x \<Longrightarrow> x = CrInvalidInput"
  by (induction es) (auto simp: validate_range_def)

section \<open>Disjointness and sorting\<close>

lemma before_trans:
  "before start a b \<Longrightarrow> before start b c \<Longrightarrow> before start a c"
  by (simp add: before_def)

lemma sorted_wrt_Cons2:
  assumes "transp R"
  shows "sorted_wrt R (a # b # xs) \<longleftrightarrow> R a b \<and> sorted_wrt R (b # xs)"
  using sorted_wrt2 [OF assms] by blast

lemma transp_before: "transp (before start)"
  by (rule transpI) (rule before_trans)

lemma validate_non_overlapping_iff:
  assumes "\<forall>e \<in> set es. range_ok start e" and "\<And>e. end_of e = start e + ex_count e"
  shows "validate_non_overlapping start end_of es = Inr () \<longleftrightarrow> sorted_wrt (before start) es"
  using assms
  by (induction start end_of es rule: validate_non_overlapping.induct)
    (auto simp: sorted_wrt_Cons2 [OF transp_before] before_def word_less_nat_alt end_word
      sorted_wrt1 simp del: sorted_wrt.simps(2))

lemma validate_windows_iff:
  assumes "\<forall>e \<in> set es. range_ok start e"
  shows "validate_windows start es = Inr () \<longleftrightarrow> sorted_wrt (before start) es"
  using assms
  by (induction start es rule: validate_windows.induct)
    (auto simp: sorted_wrt_Cons2 [OF transp_before] before_def word_less_nat_alt unat_add_u32
      valid_range_end_Some_iff range_ok_def sorted_wrt1 simp del: sorted_wrt.simps(2))

lemma validate_windows_Inl: "validate_windows start es = Inl x \<Longrightarrow> x = CrInvalidInput"
  by (induction start es rule: validate_windows.induct) (auto split: if_splits)

lemma validate_non_overlapping_Inl:
  "validate_non_overlapping start end_of es = Inl x \<Longrightarrow> x = CrInvalidInput"
  by (induction start end_of es rule: validate_non_overlapping.induct) (auto split: if_splits)

lemma apart_sym: "apart start a b \<longleftrightarrow> apart start b a"
  by (auto simp: apart_def)

lemma sorted_wrt_insort_key:
  assumes "\<And>a b. R a b = R b a"
  shows "sorted_wrt R (insort_key f x xs) \<longleftrightarrow> (\<forall>y \<in> set xs. R x y) \<and> sorted_wrt R xs"
  by (induction xs) (auto simp: set_insort_key assms)

lemma sorted_wrt_sort_key:
  assumes "\<And>a b. R a b = R b a"
  shows "sorted_wrt R (sort_key f xs) \<longleftrightarrow> sorted_wrt R xs"
  by (induction xs) (simp_all add: sorted_wrt_insort_key [of R, OF assms])

lemma sorted_before_iff_apart:
  assumes "sorted (map start es)" and "\<forall>e \<in> set es. range_ok start e"
  shows "sorted_wrt (before start) es \<longleftrightarrow> sorted_wrt (apart start) es"
  using assms
  by (induction es) (fastforce simp: apart_def before_def range_ok_def word_le_nat_alt)+

lemma sort_before_iff_apart:
  assumes "\<forall>e \<in> set es. range_ok start e"
  shows "sorted_wrt (before start) (sort_key start es) \<longleftrightarrow> sorted_wrt (apart start) es"
  using sorted_before_iff_apart [of start "sort_key start es"] assms
    sorted_wrt_sort_key [of "apart start", OF apart_sym]
  by simp

section \<open>Exact search\<close>

lemma find_left_spec:
  assumes "left \<le> right" and "right \<le> length es" and "sorted (map start es)"
    and "\<forall>k < left. start (es ! k) \<le> i" and "\<forall>k < length es. right \<le> k \<longrightarrow> i < start (es ! k)"
  shows "find_left start es i left right \<le> length es \<and>
    (\<forall>k < find_left start es i left right. start (es ! k) \<le> i) \<and>
    (\<forall>k < length es. find_left start es i left right \<le> k \<longrightarrow> i < start (es ! k))"
  using assms
proof (induction start es i left right rule: find_left.induct)
  case (1 start es i left right)
  let ?goal = "\<lambda>r. r \<le> length es \<and> (\<forall>k < r. start (es ! k) \<le> i) \<and>
    (\<forall>k < length es. r \<le> k \<longrightarrow> i < start (es ! k))"
  define middle where "middle = left + (right - left) div 2"
  have mono: "start (es ! j) \<le> start (es ! k)" if "j \<le> k" "k < length es" for j k
    using that sorted_nth_mono [OF "1.prems"(3), of j k] by simp
  show ?case
  proof (cases "left < right")
    case False
    then have "find_left start es i left right = left" by (subst find_left.simps) simp
    with "1.prems" False show ?thesis by auto
  next
    case True
    then have m: "left \<le> middle" "middle < right" by (auto simp: middle_def)
    show ?thesis
    proof (cases "start (es ! middle) \<le> i")
      case le: True
      have "\<forall>k < middle + 1. start (es ! k) \<le> i"
      proof (intro allI impI)
        fix k assume "k < middle + 1"
        then have "start (es ! k) \<le> start (es ! middle)" using mono [of k middle] m "1.prems"(2) by simp
        then show "start (es ! k) \<le> i" using le by simp
      qed
      then have "?goal (find_left start es i (middle + 1) right)"
        using "1.IH"(1) [OF True middle_def le] "1.prems" m by simp
      moreover have "find_left start es i left right = find_left start es i (middle + 1) right"
        using True le by (subst find_left.simps) (simp add: Let_def middle_def)
      ultimately show ?thesis by simp
    next
      case gt: False
      have hi: "\<forall>k < length es. middle \<le> k \<longrightarrow> i < start (es ! k)"
        using gt mono by (meson not_le order_less_le_trans)
      have "middle \<le> length es" using m "1.prems"(2) by simp
      then have "?goal (find_left start es i left middle)"
        by (rule "1.IH"(2) [OF True middle_def gt m(1) _ "1.prems"(3,4) hi])
      moreover have "find_left start es i left right = find_left start es i left middle"
        using True gt by (subst find_left.simps) (simp add: Let_def middle_def)
      ultimately show ?thesis by simp
    qed
  qed
qed

lemma before_sorted_starts:
  "sorted_wrt (before start) es \<Longrightarrow> sorted (map start es)"
  by (induction es) (auto simp: before_def word_le_nat_alt)

lemma find_extent_iff:
  assumes srt: "sorted_wrt (before start) es" and ok: "\<forall>e \<in> set es. range_ok start e"
    and end_of: "\<And>e. end_of e = start e + ex_count e"
  shows "find_extent start end_of es i = Some e \<longleftrightarrow> e \<in> set es \<and> in_range start e i"
proof -
  define r where "r = find_left start es i 0 (length es)"
  have r: "r \<le> length es" "\<And>k. k < r \<Longrightarrow> start (es ! k) \<le> i"
    "\<And>k. k < length es \<Longrightarrow> r \<le> k \<Longrightarrow> i < start (es ! k)"
    using find_left_spec [of 0 "length es" es start i] before_sorted_starts [OF srt]
    by (simp_all flip: r_def)
  have hit: "k = r - 1 \<and> 0 < r" if k: "k < length es" "in_range start (es ! k) i" for k
  proof -
    have "k < r" using r(3) [OF k(1)] k(2) by (force simp: in_range_def word_less_nat_alt)
    moreover have False if "k < r - 1"
    proof -
      have "before start (es ! k) (es ! (r - 1))"
        using that r(1) by (intro sorted_wrt_nth_less [OF srt]) auto
      moreover have "start (es ! (r - 1)) \<le> i" using r(2) [of "r - 1"] that by simp
      ultimately show False using k(2) by (simp add: before_def in_range_def word_le_nat_alt)
    qed
    ultimately show ?thesis by (cases "k < r - 1") auto
  qed
  have last: "i < end_of (es ! (r - 1)) \<longleftrightarrow> in_range start (es ! (r - 1)) i" if "0 < r"
    using that r(1) r(2) [of "r - 1"] ok end_word [of start "es ! (r - 1)"]
    by (simp add: in_range_def word_less_nat_alt word_le_nat_alt end_of)
  have eq: "find_extent start end_of es i =
    (if 0 < r \<and> in_range start (es ! (r - 1)) i then Some (es ! (r - 1)) else None)"
    using last less_le_trans [OF _ r(1), of "r - 1"] unfolding find_extent_def r_def [symmetric]
    by (cases "r = 0") (simp_all add: checked_sub_def vec_get_def Suc_le_eq)
  show ?thesis
  proof
    assume "find_extent start end_of es i = Some e"
    with eq r(1) show "e \<in> set es \<and> in_range start e i" by (auto split: if_splits)
  next
    assume e: "e \<in> set es \<and> in_range start e i"
    then obtain k where k: "k < length es" "e = es ! k" by (auto simp: in_set_conv_nth)
    with e hit [of k] eq show "find_extent start end_of es i = Some e" by simp
  qed
qed

section \<open>The translation relation of a map\<close>

definition idmap_ok :: "id_map \<Rightarrow> bool" where
  "idmap_ok m \<longleftrightarrow>
     (\<forall>e \<in> set (im_forward m). extent_ok e) \<and>
     sorted_wrt (before ex_first) (im_forward m) \<and>
     sorted_wrt (before ex_lower_first) (im_reverse m) \<and>
     set (im_reverse m) = set (im_forward m)"

text \<open>\<open>moves start other e i j\<close>: \<open>i\<close> lies in one interval of \<open>e\<close> and \<open>j\<close> at the same offset of the other.\<close>

definition moves ::
  "(id_extent \<Rightarrow> u32) \<Rightarrow> (id_extent \<Rightarrow> u32) \<Rightarrow> id_extent \<Rightarrow> u32 \<Rightarrow> u32 \<Rightarrow> bool" where
  "moves start other e i j \<longleftrightarrow>
     in_range start e i \<and> unat j = unat (other e) + (unat i - unat (start e))"

lemma moves_converse: "moves start other e i j \<longleftrightarrow> moves other start e j i"
  by (auto simp: moves_def in_range_def)

lemma offset_word:
  assumes "in_range start e i" and "range_ok other e"
  shows "unat (other e) + unat (i - start e) < 2 ^ 32"
    and "unat (other e + (i - start e)) = unat (other e) + (unat i - unat (start e))"
proof -
  have sub: "unat (i - start e) = unat i - unat (start e)"
    using assms(1) by (intro unat_sub) (simp add: in_range_def word_le_nat_alt)
  have "unat i - unat (start e) < unat (ex_count e)" using assms(1) by (auto simp: in_range_def)
  with assms(2) sub show lt: "unat (other e) + unat (i - start e) < 2 ^ 32" by (simp add: range_ok_def)
  show "unat (other e + (i - start e)) = unat (other e) + (unat i - unat (start e))"
    using unat_add_u32 [OF lt] sub by simp
qed

lemma moves_offset:
  assumes "in_range start e i" and "range_ok other e"
  shows "checked_add_u32 (other e) (i - start e) = Some j \<longleftrightarrow> moves start other e i j"
  using assms offset_word [OF assms]
  by (auto simp: moves_def checked_add_u32_Some_iff word_unat_eq_iff)

definition translates :: "id_map \<Rightarrow> u32 \<Rightarrow> u32 \<Rightarrow> bool" where
  "translates m u k \<longleftrightarrow> (\<exists>e \<in> set (im_forward m). moves ex_first ex_lower_first e u k)"

lemma idmap_find:
  assumes "idmap_ok m"
  shows "find_extent ex_first upper_end (im_forward m) i = Some e \<longleftrightarrow>
      e \<in> set (im_forward m) \<and> in_range ex_first e i"
    and "find_extent ex_lower_first lower_end (im_reverse m) i = Some e \<longleftrightarrow>
      e \<in> set (im_forward m) \<and> in_range ex_lower_first e i"
  using assms
    find_extent_iff [of ex_first "im_forward m" upper_end i e]
    find_extent_iff [of ex_lower_first "im_reverse m" lower_end i e]
  by (simp_all add: idmap_ok_def upper_end_def lower_end_def)

lemma case_option_Some_iff:
  "(case x of None \<Rightarrow> None | Some a \<Rightarrow> f a) = Some b \<longleftrightarrow> (\<exists>a. x = Some a \<and> f a = Some b)"
  by (cases x) auto

lemma idmap_extent_ok: "idmap_ok m \<Longrightarrow> e \<in> set (im_forward m) \<Longrightarrow> extent_ok e"
  by (simp add: idmap_ok_def)

lemma map_id_to_kernel_iff:
  "idmap_ok m \<Longrightarrow> map_id_to_kernel m u = Some k \<longleftrightarrow> translates m u k"
  unfolding map_id_to_kernel_def case_option_Some_iff translates_def
  using idmap_extent_ok [of m] moves_offset [of ex_first _ u ex_lower_first k]
  by (auto simp: idmap_find) (auto simp: moves_def)

lemma map_id_from_kernel_iff:
  "idmap_ok m \<Longrightarrow> map_id_from_kernel m k = Some u \<longleftrightarrow> translates m u k"
  unfolding map_id_from_kernel_def case_option_Some_iff translates_def
    moves_converse [of ex_first ex_lower_first]
  using idmap_extent_ok [of m] moves_offset [of ex_lower_first _ k ex_first u]
  by (auto simp: idmap_find) (auto simp: moves_def)

lemma translates_valid:
  assumes "idmap_ok m" and "translates m u k"
  shows "u \<noteq> invalid_id" and "k \<noteq> invalid_id"
proof -
  obtain e where e: "extent_ok e" "moves ex_first ex_lower_first e u k"
    using assms by (auto simp: translates_def idmap_ok_def)
  then show "u \<noteq> invalid_id" "k \<noteq> invalid_id"
    using unat_invalid_id by (auto simp: moves_def in_range_def range_ok_def)
qed

lemma typed_lookups:
  assumes "idmap_ok m"
  shows "user_uid_to_kernel m (UserUid u) = Some (Kuid k) \<longleftrightarrow> translates m u k"
    and "kernel_uid_to_user m (Kuid k) = Some (UserUid u) \<longleftrightarrow> translates m u k"
    and "user_gid_to_kernel m (UserGid u) = Some (Kgid k) \<longleftrightarrow> translates m u k"
    and "kernel_gid_to_user m (Kgid k) = Some (UserGid u) \<longleftrightarrow> translates m u k"
  using map_id_to_kernel_iff [OF assms] map_id_from_kernel_iff [OF assms]
    translates_valid [OF assms, of u k]
  by (auto simp: user_uid_to_kernel_def kernel_uid_to_user_def user_gid_to_kernel_def
      kernel_gid_to_user_def Option.bind_eq_Some_conv kuid_from_raw_def kgid_from_raw_def
      user_uid_from_raw_def user_gid_from_raw_def)

section \<open>Construction\<close>

definition rows_ok :: "id_extent list \<Rightarrow> bool" where
  "rows_ok es \<longleftrightarrow> es \<noteq> [] \<and> length es \<le> id_map_max_extents \<and> (\<forall>e \<in> set es. extent_ok e) \<and>
     sorted_wrt (apart ex_first) es \<and> sorted_wrt (apart ex_lower_first) es"

lemma overlap_checks:
  assumes "\<forall>e \<in> set es. extent_ok e"
  defines "fw \<equiv> sort_key ex_first es" and "rv \<equiv> sort_key ex_lower_first (sort_key ex_first es)"
  shows "validate_non_overlapping ex_first upper_end fw = Inr () \<longleftrightarrow> sorted_wrt (apart ex_first) es"
    and "validate_non_overlapping ex_lower_first lower_end rv = Inr () \<longleftrightarrow>
      sorted_wrt (apart ex_lower_first) es"
    and "validate_windows ex_first fw = Inr () \<longleftrightarrow> sorted_wrt (apart ex_first) es"
    and "validate_windows ex_lower_first rv = Inr () \<longleftrightarrow> sorted_wrt (apart ex_lower_first) es"
  using assms
    sort_before_iff_apart [of es ex_first] sort_before_iff_apart [of fw ex_lower_first]
    sorted_wrt_sort_key [of "apart ex_lower_first" ex_first es, OF apart_sym]
  by (simp_all add: validate_non_overlapping_iff validate_windows_iff upper_end_def lower_end_def)

lemma validate_id_map_input_iff:
  "alloc_ok AllocOrderedRows \<Longrightarrow> validate_id_map_input alloc_ok es = Inr () \<longleftrightarrow> rows_ok es"
  by (auto simp: validate_id_map_input_def rows_ok_def Let_def validate_ranges_Inr_iff overlap_checks
      simp flip: not_less)

lemma validate_id_map_input_Inl:
  "alloc_ok AllocOrderedRows \<Longrightarrow> validate_id_map_input alloc_ok es = Inl x \<Longrightarrow> x = CrInvalidInput"
  by (auto simp: validate_id_map_input_def Let_def split: if_splits
      dest: validate_ranges_Inl validate_windows_Inl)

lemma try_from_kernel_extents_Inr_iff:
  "try_from_kernel_extents alloc_ok es = Inr m \<longleftrightarrow>
     rows_ok es \<and> alloc_ok AllocReverseIndex \<and> alloc_ok AllocMapObject \<and>
     m = \<lparr>im_forward = sort_key ex_first es,
          im_reverse = sort_key ex_lower_first (sort_key ex_first es)\<rparr>"
  by (auto simp: try_from_kernel_extents_def rows_ok_def Let_def validate_ranges_Inr_iff
      overlap_checks simp flip: not_less)

lemma kernel_extents_ok:
  assumes "try_from_kernel_extents alloc_ok es = Inr m"
  shows "idmap_ok m" and "set (im_forward m) = set es"
  using assms sort_before_iff_apart [of es ex_first]
    sort_before_iff_apart [of "sort_key ex_first es" ex_lower_first]
    sorted_wrt_sort_key [of "apart ex_lower_first" ex_first es, OF apart_sym]
  by (auto simp: try_from_kernel_extents_Inr_iff rows_ok_def idmap_ok_def)

inductive id_map_built :: "id_map \<Rightarrow> bool" where
  built_empty: "try_empty alloc_ok = Inr m \<Longrightarrow> id_map_built m"
| built_identity: "try_identity alloc_ok = Inr m \<Longrightarrow> id_map_built m"
| built_child: "id_map_built parent \<Longrightarrow> try_from_parent_slice alloc_ok rows parent = Inr m \<Longrightarrow>
    id_map_built m"

lemma id_map_built_ok: "id_map_built m \<Longrightarrow> idmap_ok m"
  by (induction rule: id_map_built.induct)
    (auto simp: try_empty_def try_identity_def try_from_parent_slice_def idmap_ok_def
      split: if_splits dest: kernel_extents_ok(1))

text \<open>
  C35. Translation is a partial bijection. For every map the crate can build (the empty map, the
  identity map, a map of rows over a built parent), a namespace-visible identifier translates to a
  kernel identifier exactly when the kernel identifier translates back to it, for users and for
  groups: no two visible identifiers share a kernel identifier, and nothing shown to userspace
  names another identity.
\<close>

theorem id_map_round_trip:
  assumes "id_map_built m"
  shows "(user_uid_to_kernel m u = Some k \<longleftrightarrow> kernel_uid_to_user m k = Some u) \<and>
    (user_gid_to_kernel m u' = Some k' \<longleftrightarrow> kernel_gid_to_user m k' = Some u')"
  using typed_lookups [OF id_map_built_ok [OF assms]]
  by (cases u, cases k, cases u', cases k') simp

definition ex_rows :: "id_extent list" where
  "ex_rows = [input_extent_new 1 100000 65536, input_extent_new 0 1000 1]"

definition ex_identity :: id_map where
  "ex_identity = (let e = \<lparr>ex_first = 0, ex_lower_first = 0, ex_count = invalid_id\<rparr>
     in \<lparr>im_forward = [e], im_reverse = [e]\<rparr>)"

definition ex_child :: id_map where
  "ex_child = (let a = input_extent_new 0 1000 1; b = input_extent_new 1 100000 65536
     in \<lparr>im_forward = [a, b], im_reverse = [a, b]\<rparr>)"

lemmas ex_defs = ex_rows_def ex_identity_def ex_child_def input_extent_new_def Let_def

lemma ex_identity_built: "id_map_built ex_identity"
proof -
  have "try_identity (\<lambda>_. True) = Inr ex_identity"
    by (simp add: try_identity_def try_from_kernel_extents_Inr_iff rows_ok_def range_ok_def
        unat_invalid_id id_map_max_extents_def ex_identity_def Let_def)
  then show ?thesis by (rule built_identity)
qed

lemma ex_child_built: "id_map_built ex_child"
proof -
  have "try_from_parent_slice (\<lambda>_. True) ex_rows ex_identity = Inr ex_child"
    by (simp add: try_from_parent_slice_def validate_id_map_input_iff rows_ok_def range_ok_def
        ex_defs id_map_max_extents_def apart_def before_def try_from_kernel_extents_Inr_iff
        map_range_to_kernel_def find_extent_def find_left.simps vec_get_def checked_sub_def valid_range_end_def checked_add_u32_def upper_end_def
        invalid_id_def)
  then show ?thesis by (rule built_child [OF ex_identity_built])
qed

theorem id_map_round_trip_witness:
  "id_map_built ex_child \<and> kernel_uid_to_user ex_child (Kuid 100004) = Some (UserUid 5) \<and>
   kernel_gid_to_user ex_child (Kgid 1000) = Some (UserGid 0)"
proof -
  have "user_uid_to_kernel ex_child (UserUid 5) = Some (Kuid 100004)"
    "user_gid_to_kernel ex_child (UserGid 0) = Some (Kgid 1000)"
    unfolding typed_lookups [OF id_map_built_ok [OF ex_child_built]] translates_def
    by (simp_all add: moves_def in_range_def ex_defs)
  then show ?thesis
    using id_map_round_trip [OF ex_child_built] ex_child_built by blast
qed

section \<open>Composition with the parent\<close>

text \<open>A row lies within one extent of the parent.\<close>

definition within_extent :: "id_extent \<Rightarrow> id_extent \<Rightarrow> bool" where
  "within_extent row e \<longleftrightarrow>
     unat (ex_first e) \<le> unat (ex_lower_first row) \<and>
     unat (ex_lower_first row) + unat (ex_count row) \<le> unat (ex_first e) + unat (ex_count e)"

definition parent_admits :: "id_map \<Rightarrow> id_extent \<Rightarrow> bool" where
  "parent_admits parent row \<longleftrightarrow> (\<exists>e \<in> set (im_forward parent). within_extent row e)"

text \<open>The extent a row resolves to, and the extent of the parent it comes from.\<close>

definition resolves :: "id_map \<Rightarrow> id_extent \<Rightarrow> id_extent \<Rightarrow> id_extent \<Rightarrow> bool" where
  "resolves parent row e r \<longleftrightarrow>
     e \<in> set (im_forward parent) \<and> within_extent row e \<and>
     ex_first r = ex_first row \<and> ex_count r = ex_count row \<and>
     unat (ex_lower_first r) =
       unat (ex_lower_first e) + (unat (ex_lower_first row) - unat (ex_first e))"

lemma map_range_to_kernel_iff:
  assumes p: "idmap_ok parent" and row: "range_ok ex_lower_first row"
    and r: "ex_first r = ex_first row" "ex_count r = ex_count row"
  shows "map_range_to_kernel parent (ex_lower_first row) (ex_count row) = Some (ex_lower_first r) \<longleftrightarrow>
    (\<exists>e. resolves parent row e r)"
proof -
  let ?f = "ex_lower_first row"
  have find: "(find_extent ex_first upper_end (im_forward parent) ?f = Some e \<and>
      \<not> upper_end e < ?f + ex_count row \<and>
      checked_add_u32 (ex_lower_first e) (?f - ex_first e) = Some (ex_lower_first r)) \<longleftrightarrow>
    resolves parent row e r" for e
    using idmap_find(1) [OF p, of ?f e] idmap_extent_ok [OF p, of e] row r
      moves_offset [of ex_first e ?f ex_lower_first "ex_lower_first r"] end_word [of ex_lower_first row]
      end_word [of ex_first e]
    by (auto simp: resolves_def within_extent_def moves_def in_range_def upper_end_def
        word_less_nat_alt range_ok_def)
  have "valid_range_end ?f (ex_count row) = Some (?f + ex_count row)"
    using row by (simp add: valid_range_end_Some_iff range_ok_def)
  then show ?thesis unfolding map_range_to_kernel_def
    by (auto simp: case_option_Some_iff simp flip: find)
qed

lemma resolve_rows_Inr_iff:
  "resolve_rows parent rows = Inr es \<longleftrightarrow>
   list_all2 (\<lambda>row r. map_range_to_kernel parent (ex_lower_first row) (ex_count row) =
       Some (ex_lower_first r) \<and> ex_first r = ex_first row \<and> ex_count r = ex_count row) rows es"
  by (induction rows arbitrary: es) (auto simp: list_all2_Cons1 intro!: id_extent.equality)

lemma resolve_rows_Inl: "resolve_rows parent rows = Inl x \<Longrightarrow> x = CrNotPermitted"
  by (induction rows arbitrary: x) auto

lemma resolves_moves:
  assumes "resolves parent row e r" and "range_ok ex_lower_first row" and "idmap_ok parent"
  shows "moves ex_first ex_lower_first r u k \<longleftrightarrow>
    in_range ex_first row u \<and>
    moves ex_first ex_lower_first e (ex_lower_first row + (u - ex_first row)) k"
proof (cases "in_range ex_first row u")
  case True
  with assms(1) offset_word(2) [OF True assms(2)] show ?thesis
    by (auto simp: moves_def in_range_def resolves_def within_extent_def)
next
  case False
  with assms(1) show ?thesis by (auto simp: moves_def in_range_def resolves_def)
qed

lemma resolved_row_translates:
  assumes "resolves parent row e r" and "range_ok ex_lower_first row" and "idmap_ok parent"
    and "in_range ex_first row u"
  shows "moves ex_first ex_lower_first e (ex_lower_first row + (u - ex_first row)) k \<longleftrightarrow>
    translates parent (ex_lower_first row + (u - ex_first row)) k"
proof -
  let ?v = "ex_lower_first row + (u - ex_first row)"
  obtain j where j: "moves ex_first ex_lower_first r u j"
  proof
    have "in_range ex_first r u" "range_ok ex_lower_first r"
      using assms(1,4) idmap_extent_ok [OF assms(3), of e]
      by (auto simp: resolves_def within_extent_def range_ok_def in_range_def)
    then show "moves ex_first ex_lower_first r u (ex_lower_first r + (u - ex_first r))"
      using offset_word(2) [of ex_first r u ex_lower_first] by (simp add: moves_def)
  qed
  have e: "e \<in> set (im_forward parent)" using assms(1) by (simp add: resolves_def)
  have v: "in_range ex_first e ?v"
    using j resolves_moves [OF assms(1-3), of u j] by (simp add: moves_def)
  show ?thesis unfolding translates_def
  proof
    assume "\<exists>x \<in> set (im_forward parent). moves ex_first ex_lower_first x ?v k"
    then obtain x where x: "x \<in> set (im_forward parent)" "moves ex_first ex_lower_first x ?v k" by blast
    have "x = e"
      using idmap_find(1) [OF assms(3), of ?v x] idmap_find(1) [OF assms(3), of ?v e] x e v
      by (simp add: moves_def)
    with x show "moves ex_first ex_lower_first e ?v k" by simp
  qed (use e in blast)
qed

lemma sorted_wrt_total:
  "sorted_wrt R xs \<Longrightarrow> a \<in> set xs \<Longrightarrow> b \<in> set xs \<Longrightarrow> a \<noteq> b \<Longrightarrow> R a b \<or> R b a"
  by (induction xs) auto

text \<open>Rows that are apart in the parent's view resolve to extents apart in the kernel's.\<close>

lemma resolves_apart:
  assumes p: "idmap_ok parent" and r: "resolves parent row e r" "resolves parent row' e' r'"
    and apart: "apart ex_lower_first row row'"
  shows "apart ex_lower_first r r'"
proof (cases "e = e'")
  case True
  with r apart show ?thesis by (auto simp: resolves_def within_extent_def apart_def before_def)
next
  case False
  have "before ex_lower_first e e' \<or> before ex_lower_first e' e"
    using p r sorted_wrt_total [of "before ex_lower_first" "im_reverse parent" e e'] False
    by (auto simp: idmap_ok_def resolves_def)
  with r show ?thesis by (auto simp: resolves_def within_extent_def apart_def before_def)
qed

lemma resolved_list:
  assumes p: "idmap_ok parent" and ok: "\<forall>row \<in> set rows. extent_ok row"
  shows "resolve_rows parent rows = Inr es \<longleftrightarrow>
    list_all2 (\<lambda>row r. \<exists>e. resolves parent row e r) rows es"
proof -
  have "(map_range_to_kernel parent (ex_lower_first row) (ex_count row) = Some (ex_lower_first r) \<and>
      ex_first r = ex_first row \<and> ex_count r = ex_count row) \<longleftrightarrow> (\<exists>e. resolves parent row e r)"
    if "row \<in> set rows" for row r
    using map_range_to_kernel_iff [OF p, of row r] ok that by (auto simp: resolves_def)
  then show ?thesis unfolding resolve_rows_Inr_iff by (intro list.rel_cong_simp) auto
qed

lemma resolved_rows_ok:
  assumes p: "idmap_ok parent" and rows: "rows_ok rows"
    and es: "list_all2 (\<lambda>row r. \<exists>e. resolves parent row e r) rows es"
  shows "rows_ok es"
proof -
  have ok: "\<forall>r \<in> set es. extent_ok r"
  proof
    fix r assume "r \<in> set es"
    then obtain i where i: "i < length es" "r = es ! i" by (auto simp: in_set_conv_nth)
    then obtain e where "rows ! i \<in> set rows" "resolves parent (rows ! i) e r"
      using es by (auto simp: list_all2_conv_all_nth)
    then show "extent_ok r" using rows idmap_extent_ok [OF p, of e]
      by (auto simp: rows_ok_def resolves_def within_extent_def range_ok_def)
  qed
  have apart: "sorted_wrt (apart ex_first) es \<and> sorted_wrt (apart ex_lower_first) es"
  proof (intro conjI; unfold sorted_wrt_iff_nth_less; intro allI impI)
    fix i j assume ij: "i < j" "j < length es"
    have len: "length rows = length es" using es by (rule list_all2_lengthD)
    obtain e e' where r: "resolves parent (rows ! i) e (es ! i)" "resolves parent (rows ! j) e' (es ! j)"
      using es ij by (auto simp: list_all2_conv_all_nth) (meson order_less_trans)
    have "apart ex_first (rows ! i) (rows ! j)" "apart ex_lower_first (rows ! i) (rows ! j)"
      using rows ij len by (auto simp: rows_ok_def sorted_wrt_iff_nth_less)
    then show "apart ex_first (es ! i) (es ! j)" "apart ex_lower_first (es ! i) (es ! j)"
      using r resolves_apart [OF p r] by (auto simp: apart_def before_def resolves_def)
  qed
  show ?thesis using rows ok apart list_all2_lengthD [OF es] by (auto simp: rows_ok_def)
qed

lemma resolvable_iff:
  assumes "idmap_ok parent"
  shows "(\<exists>r. resolves parent row e r) \<longleftrightarrow> e \<in> set (im_forward parent) \<and> within_extent row e"
proof
  assume e: "e \<in> set (im_forward parent) \<and> within_extent row e"
  define l where "l = unat (ex_lower_first e) + (unat (ex_lower_first row) - unat (ex_first e))"
  have "l < 2 ^ 32"
    using e idmap_extent_ok [OF assms, of e] by (auto simp: l_def within_extent_def range_ok_def)
  then have "unat (of_nat l :: u32) = l" by (simp add: unat_of_nat take_bit_nat_eq_self_iff)
  then have "resolves parent row e (row\<lparr>ex_lower_first := of_nat l\<rparr>)" using e by (simp add: resolves_def l_def)
  then show "\<exists>r. resolves parent row e r" ..
qed (auto simp: resolves_def)

lemma ex_list_all2: "(\<exists>es. list_all2 P rows es) \<longleftrightarrow> (\<forall>row \<in> set rows. \<exists>r. P row r)"
  by (induction rows) (auto simp: list_all2_Cons1)

lemma all_resolved_iff:
  assumes "idmap_ok parent" and "\<forall>row \<in> set rows. extent_ok row"
  shows "(\<exists>es. resolve_rows parent rows = Inr es) \<longleftrightarrow> (\<forall>row \<in> set rows. parent_admits parent row)"
  using resolvable_iff [OF assms(1)]
  unfolding resolved_list [OF assms] ex_list_all2 parent_admits_def by blast

lemma resolved_composes:
  assumes p: "idmap_ok parent" and rows: "rows_ok rows"
    and es: "resolve_rows parent rows = Inr es"
  shows "(\<exists>r \<in> set es. moves ex_first ex_lower_first r u k) \<longleftrightarrow>
    (\<exists>row \<in> set rows. in_range ex_first row u \<and>
       translates parent (ex_lower_first row + (u - ex_first row)) k)"
proof -
  have ok: "\<forall>row \<in> set rows. extent_ok row" using rows by (simp add: rows_ok_def)
  have all2: "list_all2 (\<lambda>row r. \<exists>e. resolves parent row e r) rows es"
    using es unfolding resolved_list [OF p ok] .
  have "moves ex_first ex_lower_first r u k \<longleftrightarrow> in_range ex_first row u \<and>
      translates parent (ex_lower_first row + (u - ex_first row)) k"
    if "row \<in> set rows" "resolves parent row e r" for row e r
    using that ok p resolves_moves [of parent row e r u k] resolved_row_translates [of parent row e r u k]
    by blast
  then have "list_all2 (\<lambda>row r. moves ex_first ex_lower_first r u k \<longleftrightarrow> in_range ex_first row u \<and>
      translates parent (ex_lower_first row + (u - ex_first row)) k) rows es"
    using all2 by (auto elim!: list.rel_mono_strong)
  then show ?thesis by (induction rule: list_all2_induct) auto
qed

text \<open>
  C36. Maps of nested namespaces compose. With memory available, rows written for a child namespace
  are rejected as invalid exactly when they are malformed (none or more than 340, an empty range
  or one leaving the identifier space, an overlap on either side), rejected as not permitted
  exactly when some well-formed row leaves every single extent of the parent, and accepted
  otherwise; the accepted map translates an identifier by first applying its row and then the
  parent's map, so a child never reaches an identity its parent cannot name.
\<close>

theorem child_map_composes:
  assumes built: "id_map_built parent" and alloc: "\<forall>s. alloc_ok s"
  shows "case try_from_parent_slice alloc_ok rows parent of
      Inl e \<Rightarrow> e = (if rows_ok rows then CrNotPermitted else CrInvalidInput) \<and>
        \<not> (rows_ok rows \<and> (\<forall>row \<in> set rows. parent_admits parent row))
    | Inr m \<Rightarrow> rows_ok rows \<and> (\<forall>row \<in> set rows. parent_admits parent row) \<and>
        (\<forall>u k. map_id_to_kernel m u = Some k \<longleftrightarrow>
           (\<exists>row \<in> set rows. in_range ex_first row u \<and>
              map_id_to_kernel parent (ex_lower_first row + (u - ex_first row)) = Some k))"
proof -
  have p: "idmap_ok parent" by (rule id_map_built_ok [OF built])
  have valid: "validate_id_map_input alloc_ok rows = (if rows_ok rows then Inr () else Inl CrInvalidInput)"
    using validate_id_map_input_iff [of alloc_ok rows] validate_id_map_input_Inl [of alloc_ok rows] alloc
    by (cases "validate_id_map_input alloc_ok rows") auto
  show ?thesis
  proof (cases "rows_ok rows")
    case False
    with valid show ?thesis by (simp add: try_from_parent_slice_def)
  next
    case True
    then have ok: "\<forall>row \<in> set rows. extent_ok row" by (simp add: rows_ok_def)
    show ?thesis
    proof (cases "resolve_rows parent rows")
      case (Inl x)
      then show ?thesis
        using True valid alloc resolve_rows_Inl [OF Inl] all_resolved_iff [OF p ok]
        by (simp add: try_from_parent_slice_def)
    next
      case (Inr es)
      then have "rows_ok es" using resolved_rows_ok [OF p True] resolved_list [OF p ok] by blast
      then obtain m where m: "try_from_kernel_extents alloc_ok es = Inr m"
        using alloc by (simp add: try_from_kernel_extents_Inr_iff)
      have "try_from_parent_slice alloc_ok rows parent = Inr m"
        using True valid alloc Inr m by (simp add: try_from_parent_slice_def)
      then show ?thesis
        using True all_resolved_iff [OF p ok] Inr resolved_composes [OF p True Inr]
        by (simp add: map_id_to_kernel_iff [OF p] map_id_to_kernel_iff [OF kernel_extents_ok(1) [OF m]]
            kernel_extents_ok(2) [OF m] translates_def [of m])
    qed
  qed
qed

theorem child_map_composes_witness:
  "id_map_built ex_identity \<and> rows_ok ex_rows \<and> (\<exists>m. try_from_parent_slice (\<lambda>_. True) ex_rows ex_identity = Inr m \<and>
     (\<forall>u k. map_id_to_kernel m u = Some k \<longleftrightarrow>
        (\<exists>row \<in> set ex_rows. in_range ex_first row u \<and>
           map_id_to_kernel ex_identity (ex_lower_first row + (u - ex_first row)) = Some k)))"
proof -
  have "rows_ok ex_rows"
    by (simp add: rows_ok_def range_ok_def ex_defs id_map_max_extents_def apart_def before_def)
  moreover have "parent_admits ex_identity row" if "row \<in> set ex_rows" for row
    using that by (auto simp: parent_admits_def within_extent_def ex_defs unat_invalid_id)
  ultimately show ?thesis
    using child_map_composes [OF ex_identity_built, of "\<lambda>_. True" ex_rows] ex_identity_built
    by (auto split: sum.splits)
qed

end
