(* ===== verification/Cred_Exec_Props.thy ===== *)
theory Cred_Exec_Props
  imports Cred_Caps_Safety Cred_Idmap_Props
begin

unbundle bit_operations_syntax

text \<open>
  Exec over a valid credential and a validated file-capability record: the derivation fails only
  when a file forces capabilities it cannot be given, and the credential it proposes guards every
  gain of privilege.
\<close>

definition exec_file_valid :: "linux_uapi \<Rightarrow> exec_credential_input \<Rightarrow> bool" where
  "exec_file_valid K input \<longleftrightarrow>
     (case ei_file_capabilities input of
        None \<Rightarrow> True
      | Some f \<Rightarrow> cap_set (fc_permitted f) \<union> cap_set (fc_inheritable f)
          \<subseteq> cap_set (capability_valid_mask K))"

lemma parsed_file_valid:
  "file_capabilities_try_new K p i e r = Inr f \<Longrightarrow>
   cap_set (fc_permitted f) \<union> cap_set (fc_inheritable f) \<subseteq> cap_set (capability_valid_mask K)"
  unfolding file_capabilities_try_new_def or_andnot_eq_0_iff
  by (auto simp: andnot_eq_0_iff cap_set_def split: if_splits)

lemma file_sets_valid:
  assumes "exec_file_valid K input"
    and "exec_file_sets (exec_file_capabilities V old root input) = (fp, fi, fe)"
  shows "cap_set fp \<subseteq> cap_set (capability_valid_mask K)"
    and "exec_file_capabilities V old root input = None \<Longrightarrow> \<not> fe"
  using assms
  by (auto simp: exec_file_valid_def exec_file_sets_def exec_file_capabilities_def
      split: option.splits if_splits)

lemma exec_capabilities_ok:
  assumes "caps_ok K c" and "cap_set pwa \<subseteq> cap_set (capability_valid_mask K)"
  shows "\<exists>c'. exec_capabilities K c pwa clear fe = Inr c' \<and> caps_ok K c' \<and>
    cap_set (cs_permitted c') = cap_set pwa \<union> (if clear then {} else cap_set (cs_ambient c)) \<and>
    cap_set (cs_ambient c') = (if clear then {} else cap_set (cs_ambient c)) \<and>
    cs_inheritable c' = cs_inheritable c \<and> cs_bounding c' = cs_bounding c \<and>
    cs_securebits c' = cs_securebits c AND NOT secbit_keep_caps"
proof -
  have "(cs_securebits c AND NOT secbit_keep_caps) AND NOT (secure_all_bits OR secure_all_locks) = 0"
    using assms(1) unfolding caps_ok_def andnot_eq_0_iff bit_and_iff by blast
  then show ?thesis
    using assms
    by (auto simp: exec_capabilities_def Let_def caps_try_new_Inr_iff caps_ok_def)
qed

section \<open>Shape of the derivation\<close>

definition exec_root :: "('n \<Rightarrow> id_map \<times> id_map) \<Rightarrow> 'n credential \<Rightarrow> kuid option" where
  "exec_root maps old = user_uid_to_kernel (fst (maps (cr_user_ns old))) user_uid_root"

definition exec_setid ::
  "('n \<Rightarrow> id_map \<times> id_map) \<Rightarrow> 'n credential \<Rightarrow> exec_credential_input \<Rightarrow> credential_ids" where
  "exec_setid maps old input =
     exec_setid_ids old (exec_mapped_owner (maps (cr_user_ns old)) input) input"

text \<open>The file demands its permitted set as effective and cannot be given all of it.\<close>

definition exec_forced ::
  "'n namespace_view \<Rightarrow> ('n \<Rightarrow> id_map \<times> id_map) \<Rightarrow> 'n credential \<Rightarrow> exec_credential_input \<Rightarrow> bool" where
  "exec_forced V maps old input \<longleftrightarrow>
     (case exec_file_capabilities V old (exec_root maps old) input of
        None \<Rightarrow> False
      | Some f \<Rightarrow> fc_effective f \<and>
          \<not> cap_set (fc_permitted f) \<subseteq>
            cap_set (cs_bounding (cr_caps old)) \<union>
            (cap_set (cs_inheritable (cr_caps old)) \<inter> cap_set (fc_inheritable f)))"

text \<open>
  The facts a proposal carries: \<open>base\<close> is the permitted set before ambient capabilities and before
  the downgrade, \<open>fe\<close> the final effective flag, \<open>d\<close> whether the identities were downgraded.
\<close>

definition proposal_facts ::
  "linux_uapi \<Rightarrow> ('n \<Rightarrow> id_map \<times> id_map) \<Rightarrow> 'n credential \<Rightarrow> exec_credential_input \<Rightarrow>
   'n exec_credential_proposal \<Rightarrow> nat set \<Rightarrow> bool \<Rightarrow> bool \<Rightarrow> bool" where
  "proposal_facts K maps old input p base fe d \<longleftrightarrow>
     (let c = cr_caps old; c' = cr_caps (snd (ep_proposed p)); setid = exec_setid maps old input;
          sensitive = (exec_id_changed old setid \<or> \<not> base \<subseteq> cap_set (cs_permitted c));
          ids = exec_final_ids setid d
      in base \<subseteq> cap_set (cs_bounding c) \<union> cap_set (cs_inheritable c) \<and>
         caps_ok K c' \<and> cs_bounding c' = cs_bounding c \<and>
         cap_set (cs_ambient c') \<subseteq> cap_set (cs_ambient c) \<and>
         cap_set (cs_permitted c') =
           (if sensitive \<and> exec_unsafe old input then base \<inter> cap_set (cs_permitted c) else base)
           \<union> cap_set (cs_ambient c') \<and>
         cr_ids (snd (ep_proposed p)) = ids \<and> cr_groups (snd (ep_proposed p)) = cr_groups old \<and>
         cr_no_new_privs (snd (ep_proposed p)) = cr_no_new_privs old \<and>
         cr_user_ns (snd (ep_proposed p)) = cr_user_ns old \<and>
         ep_input p = input \<and>
         ep_effects p = exec_effects old input (maps (cr_user_ns old)) setid ids
           (exec_root maps old) c' fe (\<not> base \<subseteq> cap_set (cs_permitted c)))"

lemma derive_exec_cases:
  fixes old :: "'n credential arc"
  assumes ok: "caps_ok K (cr_caps (snd old))" and valid: "exec_file_valid K input"
  shows "exec_forced V maps (snd old) input \<Longrightarrow>
      derive_exec_credential K V maps (Some addr) old input = Inl CrNotPermitted"
    and "\<not> exec_forced V maps (snd old) input \<Longrightarrow>
      \<exists>p base fe d. derive_exec_credential K V maps (Some addr) old input = Inr p \<and> ep_old p = old \<and>
        proposal_facts K maps (snd old) input p base fe d"
proof -
  let ?old = "snd old" and ?c = "cr_caps (snd old)"
  let ?root = "exec_root maps ?old" and ?setid = "exec_setid maps ?old input"
  let ?file = "exec_file_capabilities V ?old ?root input"
  obtain fp fi fe where sets: "exec_file_sets ?file = (fp, fi, fe)" by (metis prod_cases3)
  define granted where "granted = exec_file_granted ?c fp fi"
  have granted: "cap_set granted = (cap_set (cs_bounding ?c) \<inter> cap_set fp) \<union>
      (cap_set (cs_inheritable ?c) \<inter> cap_set fi)"
    by (simp add: granted_def exec_file_granted_def)
  have forced: "exec_forced V maps ?old input \<longleftrightarrow> fe \<and> any_bits_outside fp granted"
    using sets granted
    by (auto simp: exec_forced_def exec_file_sets_def any_bits_outside_iff split: option.splits)
  note defs = derive_exec_credential_def Let_def exec_root_def [symmetric] exec_setid_def [symmetric]
  show "derive_exec_credential K V maps (Some addr) old input = Inl CrNotPermitted"
    if "exec_forced V maps ?old input"
    using that sets unfolding forced by (simp add: defs granted_def)
  assume nf: "\<not> exec_forced V maps ?old input"
  let ?rc = "exec_root_compat ?c ?root ?setid (?file \<noteq> None)"
  define p0 where "p0 = (if ?rc then cw_or (cs_bounding ?c) (cs_inheritable ?c) else granted)"
  define fe' where "fe' = (if ?rc \<and> ?root = Some (euid ?setid) then True else fe)"
  let ?idc = "exec_id_changed ?old ?setid"
  define sens where "sens = (?idc \<or> any_bits_outside p0 (cs_permitted ?c))"
  define pwa where "pwa = (if sens \<and> exec_unsafe ?old input then cw_and p0 (cs_permitted ?c) else p0)"
  have p0: "cap_set p0 \<subseteq> cap_set (cs_bounding ?c) \<union> cap_set (cs_inheritable ?c)"
    by (auto simp: p0_def granted)
  then have "cap_set pwa \<subseteq> cap_set (capability_valid_mask K)"
    using ok by (auto simp: pwa_def caps_ok_def)
  from exec_capabilities_ok [OF ok this, of "?file \<noteq> None \<or> ?idc" fe'] obtain c' where c':
    "exec_capabilities K ?c pwa (?file \<noteq> None \<or> ?idc) fe' = Inr c'" "caps_ok K c'"
    "cap_set (cs_permitted c') = cap_set pwa \<union> cap_set (cs_ambient c')"
    "cap_set (cs_ambient c') \<subseteq> cap_set (cs_ambient ?c)"
    "cs_bounding c' = cs_bounding ?c" "cs_securebits c' = cs_securebits ?c AND NOT secbit_keep_caps"
    by (auto split: if_splits)
  define d where "d = exec_setid_downgraded K ?old input sens"
  note t = exec_securebits_ok [OF c'(2,6), of "Some addr" "exec_final_ids ?setid d" "cr_groups ?old"]
  have "derive_exec_credential K V maps (Some addr) old input =
    and_then (exec_capabilities K ?c pwa (?file \<noteq> None \<or> ?idc) fe') (\<lambda>c'.
    and_then (try_from_transition K (Some addr) ?old (exec_final_ids ?setid d) (cr_groups ?old) c'
      (cr_no_new_privs ?old) (cr_user_ns ?old) ExecClearsKeepCaps) (\<lambda>proposed.
      Inr \<lparr>ep_old = old, ep_proposed = proposed, ep_input = input,
        ep_effects = exec_effects ?old input (maps (cr_user_ns ?old)) ?setid
          (exec_final_ids ?setid d) ?root c' fe' (any_bits_outside p0 (cs_permitted ?c)),
        ep_revalidation = \<lparr>er_privilege_sensitive = sens,
          er_prepared_trace_state = ei_trace_state input\<rparr>\<rparr>))"
    unfolding defs sets prod.case pwa_def d_def sens_def fe'_def p0_def granted_def
    by (subst if_not_P [OF nf [unfolded forced granted_def]]) (rule refl)
  with c' t obtain p where p: "derive_exec_credential K V maps (Some addr) old input = Inr p"
    "ep_old p = old" "ep_input p = input"
    "snd (ep_proposed p) = \<lparr>cr_ids = exec_final_ids ?setid d, cr_groups = cr_groups ?old,
      cr_caps = c', cr_no_new_privs = cr_no_new_privs ?old, cr_user_ns = cr_user_ns ?old\<rparr>"
    "ep_effects p = exec_effects ?old input (maps (cr_user_ns ?old)) ?setid (exec_final_ids ?setid d)
      ?root c' fe' (any_bits_outside p0 (cs_permitted ?c))"
    by (simp add: arc_try_new_def)
  have "cap_set pwa = (if (?idc \<or> \<not> cap_set p0 \<subseteq> cap_set (cs_permitted ?c)) \<and> exec_unsafe ?old input
      then cap_set p0 \<inter> cap_set (cs_permitted ?c) else cap_set p0)"
    by (simp add: pwa_def sens_def any_bits_outside_iff)
  then have "proposal_facts K maps ?old input p (cap_set p0) fe' d"
    using p c' p0 by (simp add: proposal_facts_def Let_def any_bits_outside_iff)
  with p(1,2)
  show "\<exists>p base fe d. derive_exec_credential K V maps (Some addr) old input = Inr p \<and>
      ep_old p = old \<and> proposal_facts K maps ?old input p base fe d" by blast
qed

lemma proposal_factsD:
  assumes "proposal_facts K maps old input p base fe d"
  defines "new \<equiv> snd (ep_proposed p)"
  shows "caps_ok K (cr_caps new)" and "cs_bounding (cr_caps new) = cs_bounding (cr_caps old)"
    and "base \<subseteq> cap_set (cs_bounding (cr_caps old)) \<union> cap_set (cs_inheritable (cr_caps old))"
    and "cap_set (cs_permitted (cr_caps new)) \<subseteq> base \<union> cap_set (cs_ambient (cr_caps new))"
    and "cap_set (cs_ambient (cr_caps new)) \<subseteq> cap_set (cs_ambient (cr_caps old))"
    and "exec_unsafe old input \<Longrightarrow> cap_set (cs_permitted (cr_caps new)) \<subseteq>
      cap_set (cs_permitted (cr_caps old)) \<union> cap_set (cs_ambient (cr_caps new))"
    and "cr_ids new = exec_final_ids (exec_setid maps old input) d"
    and "cr_no_new_privs new = cr_no_new_privs old" and "cr_user_ns new = cr_user_ns old"
    and "cr_groups new = cr_groups old" and "ep_input p = input"
    and "ep_effects p = exec_effects old input (maps (cr_user_ns old)) (exec_setid maps old input)
      (cr_ids new) (exec_root maps old) (cr_caps new) fe (\<not> base \<subseteq> cap_set (cs_permitted (cr_caps old)))"
  using assms(1) unfolding proposal_facts_def Let_def new_def by (auto split: if_splits)

lemma ruid_final: "ruid (exec_final_ids (exec_setid maps old input) d) = ruid (cr_ids old)"
  by (auto simp: exec_final_ids_def exec_setid_def exec_setid_ids_def Let_def split: option.splits)

text \<open>The capabilities an exec adds to the permitted set.\<close>

definition exec_gained :: "'n credential \<Rightarrow> 'n exec_credential_proposal \<Rightarrow> nat set" where
  "exec_gained old p =
     cap_set (cs_permitted (cr_caps (snd (ep_proposed p)))) - cap_set (cs_permitted (cr_caps old))"

lemma exec_gained_guarded:
  assumes ok: "caps_ok K (cr_caps old)" and facts: "proposal_facts K maps old input p base fe d"
  shows "exec_gained old p \<subseteq> cap_set (cs_bounding (cr_caps old)) \<union> cap_set (cs_inheritable (cr_caps old))"
    and "exec_unsafe old input \<Longrightarrow> exec_gained old p = {}"
proof -
  note f = proposal_factsD [OF facts]
  have amb: "cap_set (cs_ambient (cr_caps old)) \<subseteq> cap_set (cs_permitted (cr_caps old))"
    using ok by (simp add: caps_ok_def)
  show "exec_gained old p \<subseteq> cap_set (cs_bounding (cr_caps old)) \<union> cap_set (cs_inheritable (cr_caps old))"
    using f(3-5) amb by (auto simp: exec_gained_def)
  show "exec_gained old p = {}" if "exec_unsafe old input"
    using f(6) [OF that] f(5) amb by (auto simp: exec_gained_def)
qed

lemma exec_effects_guarded:
  assumes ok: "caps_ok K (cr_caps old)" and facts: "proposal_facts K maps old input p base fe d"
  defines "new \<equiv> snd (ep_proposed p)"
  shows "exec_gained old p \<noteq> {} \<or> euid (cr_ids new) \<noteq> euid (cr_ids old) \<or> egid (cr_ids new) \<noteq> egid (cr_ids old) \<Longrightarrow>
      ee_dumpability (ep_effects p) = NotDumpable \<and> ee_clear_pdeath_signal (ep_effects p)"
    and "exec_gained old p \<noteq> {} \<Longrightarrow> exec_root maps old \<noteq> Some (ruid (cr_ids old)) \<Longrightarrow>
      ax_secure (ee_aux_identity (ep_effects p))"
proof -
  note f = proposal_factsD [OF facts, folded new_def]
  have gained: "exec_gained old p \<noteq> {} \<longleftrightarrow>
      any_bits_outside (cs_permitted (cr_caps new)) (cs_permitted (cr_caps old))"
    by (auto simp: exec_gained_def any_bits_outside_iff new_def)
  show "ee_dumpability (ep_effects p) = NotDumpable \<and> ee_clear_pdeath_signal (ep_effects p)"
    if "exec_gained old p \<noteq> {} \<or> euid (cr_ids new) \<noteq> euid (cr_ids old) \<or> egid (cr_ids new) \<noteq> egid (cr_ids old)"
    using that unfolding f(12) gained by (auto simp: exec_effects_def Let_def)
  assume g: "exec_gained old p \<noteq> {}" and r: "exec_root maps old \<noteq> Some (ruid (cr_ids old))"
  have "cap_set (cs_ambient (cr_caps new)) \<subseteq> cap_set (cs_permitted (cr_caps old))"
    using f(5) ok by (auto simp: caps_ok_def)
  then have "any_bits_outside (cs_permitted (cr_caps new)) (cs_ambient (cr_caps new))"
    using g unfolding exec_gained_def any_bits_outside_iff new_def by auto
  moreover have "ruid (cr_ids new) = ruid (cr_ids old)" unfolding f(7) by (rule ruid_final)
  ultimately show "ax_secure (ee_aux_identity (ep_effects p))"
    using r unfolding f(12) by (simp add: exec_effects_def Let_def aux_from_ids_def)
qed

lemma derived_passes_commoncap:
  assumes ok: "caps_ok K (cr_caps old)" and facts: "proposal_facts K maps old input p base fe d"
    and "snd (ep_old p) = old"
  shows "commoncap_exec_transition p = Inr ()"
proof -
  note f = proposal_factsD [OF facts]
  have "capability_subset (cs_permitted (cr_caps (snd (ep_proposed p)))) (cs_permitted (cr_caps old))"
    if "exec_unsafe old input"
    using exec_gained_guarded(2) [OF ok facts that] by (auto simp: exec_gained_def capability_subset_iff)
  then show ?thesis
    using assms(3) f(8,9,11) by (auto simp: commoncap_exec_transition_def Let_def exec_unsafe_def)
qed

text \<open>
  C38. Exec never gives privilege away silently. Over a valid credential, with memory, the
  derivation fails only as not permitted, exactly when the file demands capabilities it cannot be
  given. Otherwise the proposal is valid and passes the common-capability check, every capability
  it adds lies in the bounding or inheritable set, none is added when \<open>no_new_privs\<close> is set or a
  tracer suppresses privilege, a gain or a change of effective identity makes the image
  undumpable and clears the parent-death signal, and a gain by a task whose real user is not the
  namespace root is flagged as secure execution.
\<close>

theorem exec_privilege_guarded:
  fixes old :: "'n credential arc"
  assumes ok: "caps_ok K (cr_caps (snd old))" and valid: "exec_file_valid K input"
  shows "case derive_exec_credential K V maps (Some addr) old input of
      Inl e \<Rightarrow> e = CrNotPermitted \<and> exec_forced V maps (snd old) input
    | Inr p \<Rightarrow> \<not> exec_forced V maps (snd old) input \<and> caps_ok K (cr_caps (snd (ep_proposed p))) \<and>
        commoncap_exec_transition p = Inr () \<and>
        exec_gained (snd old) p \<subseteq>
          cap_set (cs_bounding (cr_caps (snd old))) \<union> cap_set (cs_inheritable (cr_caps (snd old))) \<and>
        (exec_unsafe (snd old) input \<longrightarrow> exec_gained (snd old) p = {}) \<and>
        (exec_gained (snd old) p \<noteq> {} \<or>
         euid (cr_ids (snd (ep_proposed p))) \<noteq> euid (cr_ids (snd old)) \<or>
         egid (cr_ids (snd (ep_proposed p))) \<noteq> egid (cr_ids (snd old)) \<longrightarrow>
           ee_dumpability (ep_effects p) = NotDumpable \<and> ee_clear_pdeath_signal (ep_effects p)) \<and>
        (exec_gained (snd old) p \<noteq> {} \<and> exec_root maps (snd old) \<noteq> Some (ruid (cr_ids (snd old))) \<longrightarrow>
           ax_secure (ee_aux_identity (ep_effects p)))"
proof (cases "exec_forced V maps (snd old) input")
  case True
  then show ?thesis using derive_exec_cases(1) [OF ok valid True] by simp
next
  case False
  from derive_exec_cases(2) [OF ok valid False] obtain p base fe d where
    p: "derive_exec_credential K V maps (Some addr) old input = Inr p" "ep_old p = old"
    and facts: "proposal_facts K maps (snd old) input p base fe d" by blast
  show ?thesis
    using False p proposal_factsD(1) [OF facts] exec_gained_guarded [OF ok facts]
      exec_effects_guarded [OF ok facts] derived_passes_commoncap [OF ok facts]
    by simp
qed

definition ex_uapi :: linux_uapi where
  "ex_uapi = \<lparr>cap_last_cap = 40, ngroups_max = 65536, cap_setuid = 7, cap_chown = 0, cap_mknod = 27,
     cap_dac_override = 1, cap_dac_read_search = 2, cap_fowner = 3, cap_fsetid = 4,
     cap_mac_override = 32, cap_linux_immutable = 9\<rparr>"

definition ex_view :: "unit namespace_view" where
  "ex_view = \<lparr>nv_parent = \<lambda>_. None, nv_level = \<lambda>_. 0, nv_owner_kuid = \<lambda>_. Kuid 0,
     nv_root_kuid = \<lambda>_. Some (Kuid 0), nv_is_initial = \<lambda>_. True\<rparr>"

definition ex_user :: "bool \<Rightarrow> unit credential" where
  "ex_user nnp = \<lparr>cr_ids = \<lparr>ruid = Kuid 1000, euid = Kuid 1000, suid = Kuid 1000, fsuid = Kuid 1000,
       rgid = Kgid 100, egid = Kgid 100, sgid = Kgid 100, fsgid = Kgid 100\<rparr>,
     cr_groups = [Kgid 100], cr_caps = caps_empty\<lparr>cs_bounding := capability_valid_mask ex_uapi\<rparr>,
     cr_no_new_privs = nnp, cr_user_ns = ()\<rparr>"

definition ex_setuid_root :: exec_credential_input where
  "ex_setuid_root = \<lparr>ei_mode = 0x9ED, ei_owner = Some \<lparr>eo_uid = Kuid 0, eo_gid = Kgid 0\<rparr>,
     ei_mount_privilege = MountHonor, ei_trace_state = NotSuppressingPrivilege,
     ei_image_readability = ImageReadable, ei_file_capabilities = None\<rparr>"

lemma ex_user_ok: "caps_ok ex_uapi (cr_caps (ex_user nnp))"
  by (simp add: caps_ok_def ex_user_def caps_empty_def)

lemma ex_setuid_root_valid: "exec_file_valid K ex_setuid_root"
  by (simp add: exec_file_valid_def ex_setuid_root_def)

lemma ex_setuid_root_not_forced: "\<not> exec_forced V maps old ex_setuid_root"
  by (simp add: exec_forced_def exec_file_capabilities_def ex_setuid_root_def)

theorem exec_privilege_guarded_witness:
  "caps_ok ex_uapi (cr_caps (ex_user False)) \<and> exec_file_valid ex_uapi ex_setuid_root \<and>
   (\<exists>p. derive_exec_credential ex_uapi ex_view (\<lambda>_. (ex_identity, ex_identity)) (Some 2)
        (1, ex_user False) ex_setuid_root = Inr p \<and> commoncap_exec_transition p = Inr () \<and>
      exec_gained (ex_user False) p \<subseteq> cap_set (capability_valid_mask ex_uapi))"
  using exec_privilege_guarded [of ex_uapi "(1, ex_user False)" ex_setuid_root ex_view
      "\<lambda>_. (ex_identity, ex_identity)" 2]
    ex_user_ok [of False] ex_setuid_root_valid [of ex_uapi]
    ex_setuid_root_not_forced [of ex_view "\<lambda>_. (ex_identity, ex_identity)" "ex_user False"]
  by (auto simp: ex_user_def caps_empty_def split: sum.splits)

end
