(* ===== verification/Cred_Transition_Props.thy ===== *)
theory Cred_Transition_Props
  imports Cred_Exec_Props
begin

unbundle bit_operations_syntax

text \<open>
  What a task can do to its own credential. The step relation \<open>cred_step\<close> collects every way the
  crate lets an unprivileged consumer replace a credential: the user-ID and group-ID calls without
  set-ID authority, \<open>capset\<close>, changes of ambient, bounding and securebit state prepared as an
  ordinary transition, setting \<open>no_new_privs\<close>, and exec. The theorems show that a credential with
  \<open>no_new_privs\<close> is confined for ever.
\<close>

section \<open>Steps\<close>

definition capability_updates ::
  "linux_uapi \<Rightarrow> capability_sets \<Rightarrow> capability_sets \<Rightarrow> bool" where
  "capability_updates K c c' \<longleftrightarrow>
     c' = c \<or> c' = clear_ambient c \<or> c' = reconcile_ambient c \<or>
     (\<exists>n. c' = fst (try_raise_ambient K c n) \<or> c' = fst (try_lower_ambient K c n) \<or>
        c' = fst (try_drop_bounding K c n)) \<or>
     (\<exists>w. c' = fst (try_set_securebits c w)) \<or> (\<exists>b. c' = fst (try_set_keep_caps c b))"

inductive cred_step ::
  "linux_uapi \<Rightarrow> 'n namespace_view \<Rightarrow> ('n \<Rightarrow> id_map \<times> id_map) \<Rightarrow> 'n credential arc \<Rightarrow>
   'n credential arc \<Rightarrow> bool" for K V maps where
  user_id_step: "plan_user_id_transition K V old input False = Inr plan \<Longrightarrow>
    user_id_try_prepare K V addr plan old = Inr p \<Longrightarrow>
    prepared_try_into_proposed p old = Inr new \<Longrightarrow> cred_step K V maps old new"
| group_id_step: "plan_group_id_transition old ginput False = Inr gplan \<Longrightarrow>
    group_id_try_prepare K V addr gplan old = Inr p \<Longrightarrow>
    prepared_try_into_proposed p old = Inr new \<Longrightarrow> cred_step K V maps old new"
| capset_step: "plan_capset K old request setpcap = Inr cplan \<Longrightarrow>
    capset_try_prepare K V addr cplan old = Inr p \<Longrightarrow>
    prepared_try_into_proposed p old = Inr new \<Longrightarrow> cred_step K V maps old new"
| prctl_step: "capability_updates K (cr_caps (snd old)) c \<Longrightarrow>
    try_prepare_transition K V addr old (cr_ids (snd old)) (cr_groups (snd old)) c nnp = Inr p \<Longrightarrow>
    prepared_try_into_proposed p old = Inr new \<Longrightarrow> cred_step K V maps old new"
| exec_step: "exec_file_valid K einput \<Longrightarrow>
    derive_exec_credential K V maps (Some a) old einput = Inr proposal \<Longrightarrow>
    commoncap_exec_transition proposal = Inr () \<Longrightarrow>
    proposal_try_into_proposed proposal old = Inr new \<Longrightarrow> cred_step K V maps old new"

section \<open>Confinement\<close>

definition uid_set :: "credential_ids \<Rightarrow> kuid set" where
  "uid_set ids = {ruid ids, euid ids, suid ids, fsuid ids}"

definition gid_set :: "credential_ids \<Rightarrow> kgid set" where
  "gid_set ids = {rgid ids, egid ids, sgid ids, fsgid ids}"

definition confined :: "'n credential \<Rightarrow> 'n credential \<Rightarrow> bool" where
  "confined old new \<longleftrightarrow>
     cr_no_new_privs new \<and> cr_user_ns new = cr_user_ns old \<and> cr_groups new = cr_groups old \<and>
     uid_set (cr_ids new) \<subseteq> uid_set (cr_ids old) \<and> gid_set (cr_ids new) \<subseteq> gid_set (cr_ids old) \<and>
     cap_set (cs_permitted (cr_caps new)) \<subseteq> cap_set (cs_permitted (cr_caps old)) \<and>
     cap_set (cs_effective (cr_caps new)) \<subseteq> cap_set (cs_permitted (cr_caps old)) \<and>
     cap_set (cs_bounding (cr_caps new)) \<subseteq> cap_set (cs_bounding (cr_caps old)) \<and>
     locks_respected (cs_securebits (cr_caps old)) (cs_securebits (cr_caps new))"

text \<open>The part of \<open>confined\<close> about capability sets.\<close>

definition caps_shrink :: "capability_sets \<Rightarrow> capability_sets \<Rightarrow> bool" where
  "caps_shrink c c' \<longleftrightarrow> cap_set (cs_permitted c') \<subseteq> cap_set (cs_permitted c) \<and>
     cap_set (cs_bounding c') \<subseteq> cap_set (cs_bounding c)"

lemma caps_shrink_refl [simp]: "caps_shrink c c"
  by (simp add: caps_shrink_def)

lemma confined_trans: "confined a b \<Longrightarrow> confined b c \<Longrightarrow> confined a c"
  by (auto simp: confined_def intro: locks_respected_trans)

lemma fixup_uid_shrink:
  "fixup_uid_capabilities K root old_ids ids c = Inr c' \<Longrightarrow> caps_shrink c c'"
  by (auto simp: fixup_uid_capabilities_def caps_try_new_Inr_iff caps_shrink_def Let_def
      split: if_splits)

lemma fixup_fsuid_shrink:
  "fixup_fsuid_capabilities K root old_fsuid new_fsuid c = Inr c' \<Longrightarrow> caps_shrink c c'"
  by (auto simp: fixup_fsuid_capabilities_def caps_try_new_Inr_iff caps_shrink_def Let_def
      split: if_splits)

lemma unprivileged_uid_plan:
  assumes "plan_user_id_transition K V old input False = Inr plan"
  shows "up_old plan = old" and "uid_set (up_ids plan) \<subseteq> uid_set (cr_ids (snd old))"
    and "gid_set (up_ids plan) = gid_set (cr_ids (snd old))"
    and "caps_shrink (cr_caps (snd old)) (up_capabilities plan)"
proof -
  note defs = plan_user_id_transition_def Let_def is_some_and_def unwrap_or_def
  show "up_old plan = old"
    using assms by (cases input) (auto simp: defs split: if_splits)
  show "gid_set (up_ids plan) = gid_set (cr_ids (snd old))"
    using assms by (cases input) (auto simp: defs gid_set_def split: if_splits)
  show "caps_shrink (cr_caps (snd old)) (up_capabilities plan)"
    using assms by (cases input) (auto simp: defs dest: fixup_uid_shrink fixup_fsuid_shrink split: if_splits)
  show "uid_set (up_ids plan) \<subseteq> uid_set (cr_ids (snd old))"
  proof (cases input)
    case (SetResUid r e s)
    let ?ids = "cr_ids (snd old)"
    have "up_ids plan = ?ids \<or>
      \<not> list_ex (\<lambda>i. i \<noteq> ruid ?ids \<and> i \<noteq> euid ?ids \<and> i \<noteq> suid ?ids) (flatten [r, e, s]) \<and>
      up_ids plan = ?ids\<lparr>ruid := unwrap_or r (ruid ?ids), euid := unwrap_or e (euid ?ids),
        suid := unwrap_or s (suid ?ids), fsuid := unwrap_or e (euid ?ids)\<rparr>"
      using assms SetResUid by (auto simp: plan_user_id_transition_def Let_def split: if_splits)
    then show ?thesis
      by (cases r; cases e; cases s) (auto simp: uid_set_def unwrap_or_def)
  next
    case (SetReUid r e)
    let ?ids = "cr_ids (snd old)"
    have "\<not> is_some_and r (\<lambda>i. i \<noteq> ruid ?ids \<and> i \<noteq> euid ?ids)"
      "\<not> is_some_and e (\<lambda>i. i \<noteq> ruid ?ids \<and> i \<noteq> euid ?ids \<and> i \<noteq> suid ?ids)"
      "uid_set (up_ids plan) \<subseteq>
        {unwrap_or r (ruid ?ids), unwrap_or e (euid ?ids), suid ?ids}"
      using assms SetReUid
      by (auto simp: plan_user_id_transition_def Let_def uid_set_def split: if_splits)
    then show ?thesis
      by (cases r; cases e) (auto simp: uid_set_def unwrap_or_def is_some_and_def)
  qed (use assms in \<open>auto simp: defs uid_set_def split: if_splits\<close>)
qed

lemma unprivileged_gid_plan:
  assumes "plan_group_id_transition old input False = Inr plan"
  shows "gp_old plan = old" and "gid_set (gp_ids plan) \<subseteq> gid_set (cr_ids (snd old))"
    and "uid_set (gp_ids plan) = uid_set (cr_ids (snd old))"
proof -
  note defs = plan_group_id_transition_def Let_def is_some_and_def unwrap_or_def
  let ?ids = "cr_ids (snd old)"
  show "gp_old plan = old"
    using assms by (cases input) (auto simp: defs split: if_splits)
  show "uid_set (gp_ids plan) = uid_set ?ids"
    using assms by (cases input) (auto simp: defs uid_set_def split: if_splits)
  show "gid_set (gp_ids plan) \<subseteq> gid_set ?ids"
  proof (cases input)
    case (SetResGid r e s)
    have "gp_ids plan = ?ids \<or>
      \<not> list_ex (\<lambda>i. i \<noteq> rgid ?ids \<and> i \<noteq> egid ?ids \<and> i \<noteq> sgid ?ids) (flatten [r, e, s]) \<and>
      gp_ids plan = ?ids\<lparr>rgid := unwrap_or r (rgid ?ids), egid := unwrap_or e (egid ?ids),
        sgid := unwrap_or s (sgid ?ids), fsgid := unwrap_or e (egid ?ids)\<rparr>"
      using assms SetResGid by (auto simp: plan_group_id_transition_def Let_def split: if_splits)
    then show ?thesis
      by (cases r; cases e; cases s) (auto simp: gid_set_def unwrap_or_def)
  next
    case (SetReGid r e)
    have "\<not> is_some_and r (\<lambda>i. i \<noteq> rgid ?ids \<and> i \<noteq> egid ?ids)"
      "\<not> is_some_and e (\<lambda>i. i \<noteq> rgid ?ids \<and> i \<noteq> egid ?ids \<and> i \<noteq> sgid ?ids)"
      "gid_set (gp_ids plan) \<subseteq>
        {unwrap_or r (rgid ?ids), unwrap_or e (egid ?ids), sgid ?ids}"
      using assms SetReGid
      by (auto simp: plan_group_id_transition_def Let_def gid_set_def split: if_splits)
    then show ?thesis
      by (cases r; cases e) (auto simp: gid_set_def unwrap_or_def is_some_and_def)
  qed (use assms in \<open>auto simp: defs gid_set_def split: if_splits\<close>)
qed

lemma capset_plan_shrink:
  "plan_capset K old request setpcap = Inr plan \<Longrightarrow> caps_shrink (cr_caps (snd old)) (cp_capabilities plan)"
  by (auto simp: plan_capset_def Let_def caps_try_new_Inr_iff capability_subset_iff caps_shrink_def
      split: if_splits)

lemma caps_shrink_ops:
  "caps_shrink c (clear_ambient c)" "caps_shrink c (reconcile_ambient c)"
  "caps_shrink c (fst (try_raise_ambient K c n))" "caps_shrink c (fst (try_lower_ambient K c n))"
  "caps_shrink c (fst (try_drop_bounding K c n))" "caps_shrink c (fst (try_set_securebits c w))"
  "caps_shrink c (fst (try_set_keep_caps c b))"
  by (auto simp: caps_shrink_def clear_ambient_def reconcile_ambient_def
      try_raise_ambient_def try_lower_ambient_def try_drop_bounding_def try_set_securebits_def
      try_set_keep_caps_def cap_set_set_andnot split: option.splits)

lemma capability_updates_shrink:
  "capability_updates K c c' \<Longrightarrow> caps_shrink c c'"
  unfolding capability_updates_def using caps_shrink_ops by auto

lemma prepared_confined:
  fixes old :: "'n credential arc"
  assumes "try_prepare_transition K V addr old ids (cr_groups (snd old)) caps nnp = Inr p"
    and "prepared_try_into_proposed p old = Inr new"
    and "cr_no_new_privs (snd old)"
    and "uid_set ids \<subseteq> uid_set (cr_ids (snd old))" and "gid_set ids \<subseteq> gid_set (cr_ids (snd old))"
    and "caps_shrink (cr_caps (snd old)) caps"
  shows "confined (snd old) (snd new) \<and> caps_ok K (cr_caps (snd new))"
proof -
  have "try_from_transition K addr (snd old) ids (cr_groups (snd old)) caps nnp
      (cr_user_ns (snd old)) TransitionNormal = Inr new"
    using assms(1,2)
    by (auto simp: try_prepare_transition_def prepared_try_into_proposed_def split: if_splits)
  note t = try_from_transition_InrD [OF this]
  have "cap_set (cs_effective caps) \<subseteq> cap_set (cs_permitted caps)" using t(2) by (simp add: caps_ok_def)
  then show ?thesis
    using t assms(3-6) by (auto simp: confined_def caps_shrink_def)
qed

lemma exec_confined:
  fixes old :: "'n credential arc"
  assumes ok: "caps_ok K (cr_caps (snd old))" and nnp: "cr_no_new_privs (snd old)"
    and valid: "exec_file_valid K input"
    and derive: "derive_exec_credential K V maps (Some a) old input = Inr p"
    and new: "proposal_try_into_proposed p old = Inr new"
  shows "confined (snd old) (snd new) \<and> caps_ok K (cr_caps (snd new))"
proof -
  have new: "new = ep_proposed p" using new by (auto simp: proposal_try_into_proposed_def split: if_splits)
  have "\<not> exec_forced V maps (snd old) input"
    using derive derive_exec_cases(1) [OF ok valid, of V maps a] by auto
  from derive_exec_cases(2) [OF ok valid this, of a] derive obtain base fe d where
    facts: "proposal_facts K maps (snd old) input p base fe d" by auto
  note f = proposal_factsD [OF facts]
  have ids: "exec_setid maps (snd old) input = cr_ids (snd old)"
    using nnp by (simp add: exec_setid_def exec_setid_ids_def exec_setid_admitted_def split: option.splits)
  have sets: "uid_set (cr_ids (snd new)) \<subseteq> uid_set (cr_ids (snd old))"
    "gid_set (cr_ids (snd new)) \<subseteq> gid_set (cr_ids (snd old))"
    unfolding new f(7) ids by (auto simp: uid_set_def gid_set_def exec_final_ids_def Let_def)
  have perm: "cap_set (cs_permitted (cr_caps (snd new))) \<subseteq> cap_set (cs_permitted (cr_caps (snd old)))"
    using exec_gained_guarded(2) [OF ok facts] nnp by (auto simp: exec_unsafe_def exec_gained_def new)
  have "locks_respected (cs_securebits (cr_caps (snd old))) (cs_securebits (cr_caps (snd new)))"
  proof -
    obtain ids caps where "try_from_transition K (Some a) (snd old) ids (cr_groups (snd old)) caps
        (cr_no_new_privs (snd old)) (cr_user_ns (snd old)) ExecClearsKeepCaps = Inr new"
      using derive new
      by (auto simp: derive_exec_credential_def Let_def split: prod.splits if_splits)
    from try_from_transition_InrD [OF this] show ?thesis by simp
  qed
  then show ?thesis
    using sets perm nnp f(1,2,8,9,10) by (auto simp: confined_def new caps_ok_def)
qed

lemma cred_step_confined:
  assumes "cred_step K V maps old new"
    and "caps_ok K (cr_caps (snd old))" and "cr_no_new_privs (snd old)"
  shows "confined (snd old) (snd new) \<and> caps_ok K (cr_caps (snd new))"
  using assms
proof (induction rule: cred_step.induct)
  case (user_id_step old input plan addr p new)
  note u = unprivileged_uid_plan [OF user_id_step.hyps(1)]
  show ?case
    by (rule prepared_confined [where ids = "up_ids plan" and caps = "up_capabilities plan"])
      (use user_id_step u in \<open>auto simp: user_id_try_prepare_def try_prepare_planned_credential_def
        split: if_splits\<close>)
next
  case (group_id_step old ginput gplan addr p new)
  note g = unprivileged_gid_plan [OF group_id_step.hyps(1)]
  show ?case
    by (rule prepared_confined [where ids = "gp_ids gplan" and caps = "cr_caps (snd old)"])
      (use group_id_step g in \<open>auto simp: group_id_try_prepare_def try_prepare_planned_credential_def
        split: if_splits\<close>)
next
  case (capset_step old request setpcap cplan addr p new)
  show ?case
    by (rule prepared_confined [where ids = "cr_ids (snd old)" and caps = "cp_capabilities cplan"])
      (use capset_step capset_plan_shrink [OF capset_step.hyps(1)] in
        \<open>auto simp: capset_try_prepare_def try_prepare_planned_credential_def split: if_splits\<close>)
next
  case (prctl_step old c addr nnp p new)
  show ?case
    by (rule prepared_confined [OF prctl_step.hyps(2,3) prctl_step.prems(2)])
      (use capability_updates_shrink [OF prctl_step.hyps(1)] in auto)
next
  case (exec_step einput a old proposal new)
  then show ?case by (intro exec_confined) auto
qed

text \<open>
  C37. \<open>no_new_privs\<close> confines for ever. Whatever sequence of set-ID calls without set-ID authority,
  \<open>capset\<close> calls, ambient, bounding and securebit changes and execs a task goes through, from a valid
  credential with \<open>no_new_privs\<close>: the flag, the namespace and the groups stay, its user and group
  identities are drawn from the ones it had, its permitted, effective and bounding capabilities
  never grow beyond what it was permitted, and every securebit lock it had set still holds.
\<close>

theorem no_new_privs_confines:
  assumes "(cred_step K V maps)\<^sup>*\<^sup>* old new"
    and "caps_ok K (cr_caps (snd old))" and "cr_no_new_privs (snd old)"
  shows "confined (snd old) (snd new)"
proof -
  have "confined (snd old) (snd new) \<and> caps_ok K (cr_caps (snd new))"
    using assms
  proof (induction rule: rtranclp_induct)
    case base
    then show ?case by (auto simp: confined_def locks_respected_def caps_ok_def)
  next
    case (step mid new)
    then have mid: "confined (snd old) (snd mid)" "caps_ok K (cr_caps (snd mid))" by auto
    then have "cr_no_new_privs (snd mid)" by (simp add: confined_def)
    from cred_step_confined [OF step.hyps(2) mid(2) this] show ?case
      using confined_trans [OF mid(1)] by blast
  qed
  then show ?thesis ..
qed

theorem no_new_privs_confines_witness:
  "caps_ok ex_uapi (cr_caps (ex_user True)) \<and> cr_no_new_privs (ex_user True) \<and>
   (\<exists>new. cred_step ex_uapi ex_view (\<lambda>_. (ex_identity, ex_identity)) (1, ex_user True) new \<and>
      confined (ex_user True) (snd new) \<and> uid_set (cr_ids (snd new)) \<subseteq> {Kuid 1000})"
proof -
  let ?old = "(1 :: nat, ex_user True)" and ?maps = "\<lambda>_. (ex_identity, ex_identity)"
  have ok: "caps_ok ex_uapi (cr_caps (snd ?old))" by (simp add: ex_user_ok)
  obtain p base fe d where p:
    "derive_exec_credential ex_uapi ex_view ?maps (Some 2) ?old ex_setuid_root = Inr p"
    "ep_old p = ?old" and facts: "proposal_facts ex_uapi ?maps (snd ?old) ex_setuid_root p base fe d"
    using derive_exec_cases(2) [OF ok ex_setuid_root_valid ex_setuid_root_not_forced,
        of ex_view ?maps 2] by blast
  have step: "cred_step ex_uapi ex_view ?maps ?old (ep_proposed p)"
    using exec_step [OF ex_setuid_root_valid p(1) derived_passes_commoncap [OF ok facts]] p(2)
    by (simp add: proposal_try_into_proposed_def arc_ptr_eq_def)
  have nnp: "cr_no_new_privs (ex_user True)" by (simp add: ex_user_def)
  have conf: "confined (ex_user True) (snd (ep_proposed p))"
    using no_new_privs_confines [OF r_into_rtranclp [of "cred_step ex_uapi ex_view ?maps", OF step]]
      ok nnp by simp
  have "uid_set (cr_ids (ex_user True)) = {Kuid 1000}" by (simp add: uid_set_def ex_user_def)
  with conf have "uid_set (cr_ids (snd (ep_proposed p))) \<subseteq> {Kuid 1000}" by (simp add: confined_def)
  with step ok nnp conf show ?thesis by (intro conjI exI [of _ "ep_proposed p"]) simp_all
qed

end
