(* ===== verification/Cred_Ns_Props.thy ===== *)
theory Cred_Ns_Props
  imports Cred_Exec_Props
begin

text \<open>
  Capabilities over the namespace tree: the walk of \<open>ns_capable\<close> from the target towards the initial
  namespace decides exactly whether the target lies below the actor's namespace and the actor
  holds the capability there or owns the way down.
\<close>

text \<open>Handles below a namespace: itself, its children, their children.\<close>

definition child_of :: "'n namespace_view \<Rightarrow> 'n \<Rightarrow> 'n \<Rightarrow> bool" where
  "child_of V child parent \<longleftrightarrow> nv_parent V child = Some parent"

text \<open>A parent is nearer to the initial namespace, as \<open>domain_child_level\<close> shows for every created child.\<close>

definition levels_ok :: "'n namespace_view \<Rightarrow> bool" where
  "levels_ok V \<longleftrightarrow> (\<forall>n p. nv_parent V n = Some p \<longrightarrow> nv_level V p < nv_level V n)"

lemma levels_okD: "levels_ok V \<Longrightarrow> nv_parent V n = Some p \<Longrightarrow> nv_level V p < nv_level V n"
  unfolding levels_ok_def by blast

lemma below_level:
  assumes "levels_ok V" and "(child_of V)\<^sup>*\<^sup>* n a"
  shows "n = a \<or> nv_level V a < nv_level V n"
  using assms(2)
proof (induction rule: rtranclp_induct)
  case (step b c)
  then show ?case using levels_okD [OF assms(1), of b c] by (auto simp: child_of_def)
qed simp

lemma below_step:
  "nv_parent V n = Some p \<Longrightarrow> n \<noteq> a \<Longrightarrow> (child_of V)\<^sup>*\<^sup>* n a \<longleftrightarrow> (child_of V)\<^sup>*\<^sup>* p a"
  by (metis child_of_def converse_rtranclpE converse_rtranclp_into_rtranclp option.inject)

lemma below_root: "nv_parent V n = None \<Longrightarrow> (child_of V)\<^sup>*\<^sup>* n a \<longleftrightarrow> n = a"
  by (auto simp: child_of_def elim: converse_rtranclpE)

text \<open>The actor owns a namespace that is a child of its own and that \<open>n\<close> lies below.\<close>

definition owns_above :: "'n namespace_view \<Rightarrow> 'n credential \<Rightarrow> 'n \<Rightarrow> bool" where
  "owns_above V actor n \<longleftrightarrow> (\<exists>c. (child_of V)\<^sup>*\<^sup>* n c \<and> nv_parent V c = Some (cr_user_ns actor) \<and>
     nv_owner_kuid V c = euid (cr_ids actor))"

lemma owns_above_below: "owns_above V actor n \<Longrightarrow> (child_of V)\<^sup>*\<^sup>* n (cr_user_ns actor)"
  by (auto simp: owns_above_def child_of_def intro: rtranclp.rtrancl_into_rtrancl)

lemma owns_above_self:
  assumes "levels_ok V"
  shows "\<not> owns_above V actor (cr_user_ns actor)"
proof
  assume "owns_above V actor (cr_user_ns actor)"
  then obtain c where c: "(child_of V)\<^sup>*\<^sup>* (cr_user_ns actor) c" "nv_parent V c = Some (cr_user_ns actor)"
    by (auto simp: owns_above_def)
  show False using below_level [OF assms c(1)] levels_okD [OF assms c(2)] by auto
qed

lemma owns_above_step:
  "nv_parent V n = Some p \<Longrightarrow> owns_above V actor n \<longleftrightarrow>
   (p = cr_user_ns actor \<and> nv_owner_kuid V n = euid (cr_ids actor)) \<or> owns_above V actor p"
  unfolding owns_above_def using below_step [of V n p]
  by (metis option.inject rtranclp.rtrancl_refl)

lemma ns_capable_loop_exact:
  assumes "levels_ok V"
  shows "ns_capable_loop K V actor capability n \<longleftrightarrow>
    (child_of V)\<^sup>*\<^sup>* n (cr_user_ns actor) \<and>
    (has_effective K (cr_caps actor) capability \<or> owns_above V actor n)"
  using assms
proof (induction K V actor capability n rule: ns_capable_loop.induct)
  case (1 K V actor capability n)
  show ?case
  proof (cases "n = cr_user_ns actor")
    case True
    then show ?thesis
      using owns_above_self [OF "1.prems"]
      by (simp add: ns_capable_loop.simps has_effective_capability_in_own_user_ns_def)
  next
    case neq: False
    show ?thesis
    proof (cases "nv_level V n \<le> nv_level V (cr_user_ns actor)")
      case True
      then have "\<not> (child_of V)\<^sup>*\<^sup>* n (cr_user_ns actor)"
        using below_level [OF "1.prems"] neq by fastforce
      with True neq show ?thesis by (simp add: ns_capable_loop.simps)
    next
      case deep: False
      show ?thesis
      proof (cases "nv_parent V n")
        case None
        with neq deep show ?thesis by (simp add: ns_capable_loop.simps [of K V actor capability n] below_root)
      next
        case (Some p)
        then have lt: "\<not> nv_level V n \<le> nv_level V p" using levels_okD [OF "1.prems"] by (simp add: not_le)
        show ?thesis
          using "1.IH" [OF neq deep Some lt] "1.prems" neq deep Some lt owns_above_step [OF Some, of actor]
            below_step [OF Some neq] owns_above_below [of V actor n]
          by (subst ns_capable_loop.simps) auto
      qed
    qed
  qed
qed

text \<open>
  C39. Namespace capabilities follow the tree. In any tree whose parents are nearer to the initial
  namespace, \<open>ns_capable\<close> always answers, and grants a valid capability over a target exactly when
  the target is the actor's namespace or below it and the actor either has the capability
  effective or owns, by its effective user, the child of its namespace on the way to the target;
  in particular it never grants anything over an ancestor or a sibling.
\<close>

theorem ns_capable_exact:
  assumes "levels_ok V"
  shows "ns_capable K V actor target capability \<longleftrightarrow>
    cap_mask K capability \<noteq> None \<and> (child_of V)\<^sup>*\<^sup>* target (cr_user_ns actor) \<and>
    (has_effective K (cr_caps actor) capability \<or> owns_above V actor target)"
  using ns_capable_loop_exact [OF assms] by (auto simp: ns_capable_def)

text \<open>A chain of three namespaces, the middle one owned by user 1000.\<close>

definition ex_chain :: "nat namespace_view" where
  "ex_chain = \<lparr>nv_parent = \<lambda>n. if n = 0 then None else Some (n - 1), nv_level = \<lambda>n. n,
     nv_owner_kuid = \<lambda>n. if n = 1 then Kuid 1000 else Kuid 0, nv_root_kuid = \<lambda>_. Some (Kuid 0),
     nv_is_initial = \<lambda>n. n = 0\<rparr>"

definition ex_owner :: "nat \<Rightarrow> nat credential" where
  "ex_owner n = \<lparr>cr_ids = cr_ids (ex_user False), cr_groups = [], cr_caps = caps_empty,
     cr_no_new_privs = False, cr_user_ns = n\<rparr>"

theorem ns_capable_exact_witness:
  "levels_ok ex_chain \<and> ns_capable ex_uapi ex_chain (ex_owner 0) 2 7 \<and>
   \<not> ns_capable ex_uapi ex_chain (ex_owner 1) 0 7"
proof -
  have ok: "levels_ok ex_chain" by (simp add: levels_ok_def ex_chain_def)
  have "child_of ex_chain 2 1" "child_of ex_chain 1 0" by (simp_all add: child_of_def ex_chain_def)
  then have "owns_above ex_chain (ex_owner 0) 2" "(child_of ex_chain)\<^sup>*\<^sup>* 2 0"
    by (auto simp: owns_above_def ex_chain_def ex_owner_def ex_user_def intro!: exI [of _ 1])
  moreover have "\<not> (child_of ex_chain)\<^sup>*\<^sup>* 0 1"
    using below_root [of ex_chain 0 1] by (simp add: ex_chain_def)
  ultimately show ?thesis
    using ok ns_capable_exact [OF ok, of ex_uapi "ex_owner 0" 2 7]
      ns_capable_exact [OF ok, of ex_uapi "ex_owner 1" 0 7]
    by (simp add: ex_owner_def cap_mask_def ex_uapi_def)
qed

end
