(* ===== verification/Uring_Setup.thy ===== *)
theory Uring_Setup
  imports Abi_Prelude
begin

unbundle bit_operations_syntax

text \<open>
  Ring setup, enter and registration headers of the \<open>io_uring\<close> crate: \<^verbatim>\<open>io-uring/src/error.rs\<close>,
  \<^verbatim>\<open>setup.rs\<close>, \<^verbatim>\<open>enter.rs\<close> and \<^verbatim>\<open>registration.rs\<close>. Queue sizes and byte offsets are \<open>nat\<close> under the
  checked 32-bit operations of the source, flag words and ring counters are words.
\<close>

section \<open>Errors and constants\<close>

datatype uring_error =
    UrInvalidIdentity | UrReservedFieldNonZero | UrUnsupportedSetupFlags
  | UrUnsupportedFeatureFlags | UrUnsupportedEnterFlags | UrInvalidSignalMaskArgument
  | UrZeroEntries | UrSubmissionEntriesTooLarge | UrZeroCompletionEntries
  | UrCompletionEntriesTooLarge | UrCompletionEntriesTooSmall | UrOverflow | UrAllocationFailed
  | UrGenerationExhausted | UrInvalidQueueGeometry | UrInvalidMappingOffset
  | UrCorruptCompletionHead | UrCompletionQueueFull | UrRequestCapacityExceeded
  | UrUnknownRequest | UrInvalidRequestState | UrRequestUncancellable | UrTerminalAlreadyClaimed
  | UrCompletionNotPending | UrPublicationInFlight | UrInvalidCompletionConsumption | UrClosing
  | UrDraining | UrClosed | UrInvalidLifecycleTransition | UrBusy | UrUnsupportedOpcode
  | UrUnknownOpcode | UrUnsupportedSubmissionFlags | UrUnsupportedOperationFlags
  | UrCurrentPositionUnsupported | UrInvalidFileTarget | UrInvalidSubmission
  | UrInvalidFileTableCapacity | UrInvalidFileLeaseCapacity | UrFileLeaseCapacityExceeded
  | UrInvalidFileSlot | UrFileSlotOccupied | UrFileSlotEmpty | UrUnknownFileLease
  | UrFileTableNotPublished | UrCancellationTargetNotFound | UrInvalidBufferTableCapacity
  | UrInvalidBufferLeaseCapacity | UrBufferLeaseCapacityExceeded | UrInvalidBufferSlot
  | UrBufferSlotOccupied | UrBufferSlotEmpty | UrUnknownBufferLease | UrBufferTableNotPublished
  | UrInvalidBufferRange | UrInvalidRegistration | UrUnsupportedRegistration
  | UrUnknownRegistration

definition ioring_max_entries :: nat where "ioring_max_entries = 32768"
definition ioring_max_cq_entries :: nat where "ioring_max_cq_entries = 65536"
definition ioring_max_fixed_files :: nat where "ioring_max_fixed_files = 2 ^ 20"
definition ioring_off_sq_ring :: u64 where "ioring_off_sq_ring = 0"
definition ioring_off_cq_ring :: u64 where "ioring_off_cq_ring = 0x08000000"
definition ioring_off_sqes :: u64 where "ioring_off_sqes = 0x10000000"
definition sqe_bytes :: nat where "sqe_bytes = 64"
definition cqe_bytes :: nat where "cqe_bytes = 16"
definition ring_header_bytes :: nat where "ring_header_bytes = 64"
definition ring_alignment :: nat where "ring_alignment = 64"

definition ring_id_new :: "nat \<Rightarrow> uring_error + nat" where
  "ring_id_new raw = (if raw = 0 then Inl UrInvalidIdentity else Inr raw)"

section \<open>Setup\<close>

definition setup_cqsize :: u32 where "setup_cqsize = push_bit 3 1"
definition setup_clamp :: u32 where "setup_clamp = push_bit 4 1"
definition setup_no_sqarray :: u32 where "setup_no_sqarray = push_bit 16 1"

definition setup_supported :: u32 where
  "setup_supported = setup_cqsize OR setup_clamp OR setup_no_sqarray"

definition setup_flags_from_bits :: "u32 \<Rightarrow> uring_error + u32" where
  "setup_flags_from_bits bits =
     (if bits AND NOT setup_supported = 0 then Inr bits else Inl UrUnsupportedSetupFlags)"

definition flags_contain :: "u32 \<Rightarrow> u32 \<Rightarrow> bool" where
  "flags_contain flags other \<longleftrightarrow> flags AND other = other"

definition feature_supported :: u32 where
  "feature_supported = push_bit 0 1 OR push_bit 1 1 OR push_bit 2 1 OR push_bit 6 1"

definition feature_flags_from_bits :: "u32 \<Rightarrow> uring_error + u32" where
  "feature_flags_from_bits bits =
     (if bits AND NOT feature_supported = 0 then Inr bits else Inl UrUnsupportedFeatureFlags)"

record setup_request =
  sr_entries :: nat
  sr_cq_entries :: nat
  sr_flags :: u32

definition setup_request_from_raw ::
  "nat \<Rightarrow> nat \<Rightarrow> u32 \<Rightarrow> u32 \<Rightarrow> u32 \<Rightarrow> u32 \<Rightarrow> u32 \<times> u32 \<times> u32 \<Rightarrow> uring_error + setup_request" where
  "setup_request_from_raw entries cq_entries flags sq_thread_cpu sq_thread_idle wq_fd reserved =
     (if sq_thread_cpu \<noteq> 0 \<or> sq_thread_idle \<noteq> 0 \<or> wq_fd \<noteq> 0 \<or> reserved \<noteq> (0, 0, 0)
      then Inl UrReservedFieldNonZero
      else and_then (setup_flags_from_bits flags) (\<lambda>flags.
        Inr \<lparr>sr_entries = entries, sr_cq_entries = cq_entries, sr_flags = flags\<rparr>))"

text \<open>\<open>u32::checked_next_power_of_two\<close>: the least power of two at or above the argument.\<close>

function next_power_from :: "nat \<Rightarrow> nat \<Rightarrow> nat" where
  "next_power_from p n = (if p = 0 \<or> n \<le> p then p else next_power_from (2 * p) n)"
  by pat_completeness auto

termination
  by (relation "measure (\<lambda>(p, n). n - p)") auto

declare next_power_from.simps [simp del]

definition checked_next_power_of_two :: "nat \<Rightarrow> nat option" where
  "checked_next_power_of_two n =
     (let p = next_power_from 1 n in if p \<le> u32_max then Some p else None)"

text \<open>\<open>u32::is_power_of_two\<close>: rounding up changes nothing.\<close>

definition is_power_of_two_u32 :: "nat \<Rightarrow> bool" where
  "is_power_of_two_u32 n \<longleftrightarrow> next_power_from 1 n = n"

definition resolve_sq_entries :: "nat \<Rightarrow> u32 \<Rightarrow> uring_error + nat" where
  "resolve_sq_entries entries flags =
     (if entries = 0 then Inl UrZeroEntries
      else and_then
        (if entries > ioring_max_entries then
           if flags_contain flags setup_clamp then Inr ioring_max_entries
           else Inl UrSubmissionEntriesTooLarge
         else Inr entries)
        (\<lambda>entries. ok_or UrOverflow (checked_next_power_of_two entries)))"

definition resolve_cq_entries :: "nat \<Rightarrow> nat \<Rightarrow> u32 \<Rightarrow> uring_error + nat" where
  "resolve_cq_entries sq_entries requested flags =
     (if \<not> flags_contain flags setup_cqsize
      then ok_or UrOverflow (checked_mul u32_max sq_entries 2)
      else if requested = 0 then Inl UrZeroCompletionEntries
      else and_then
        (if requested > ioring_max_cq_entries then
           if flags_contain flags setup_clamp then Inr ioring_max_cq_entries
           else Inl UrCompletionEntriesTooLarge
         else Inr requested)
        (\<lambda>requested. and_then (ok_or UrOverflow (checked_next_power_of_two requested)) (\<lambda>entries.
           if entries < sq_entries then Inl UrCompletionEntriesTooSmall else Inr entries)))"

definition ring_align_up :: "nat \<Rightarrow> nat \<Rightarrow> uring_error + nat" where
  "ring_align_up v0 alignment =
     (let m = alignment - 1 in
      case checked_add u32_max v0 m of
        Some v \<Rightarrow> Inr (v AND (u32_max - m))
      | None \<Rightarrow> Inl UrOverflow)"

record sq_offsets =
  so_head :: nat
  so_tail :: nat
  so_ring_mask :: nat
  so_ring_entries :: nat
  so_flags :: nat
  so_dropped :: nat
  so_array :: "nat option"

record cq_offsets =
  co_head :: nat
  co_tail :: nat
  co_ring_mask :: nat
  co_ring_entries :: nat
  co_overflow :: nat
  co_cqes :: nat
  co_flags :: nat

record ring_layout =
  rl_sq_entries :: nat
  rl_cq_entries :: nat
  rl_setup_flags :: u32
  rl_features :: u32
  rl_sq_offsets :: sq_offsets
  rl_cq_offsets :: cq_offsets
  rl_ring_bytes :: nat
  rl_sqe_bytes :: nat

definition setup_resolve :: "setup_request \<Rightarrow> u32 \<Rightarrow> uring_error + ring_layout" where
  "setup_resolve request proven_features =
     and_then (resolve_sq_entries (sr_entries request) (sr_flags request)) (\<lambda>sq.
     and_then (resolve_cq_entries sq (sr_cq_entries request) (sr_flags request)) (\<lambda>cq.
     and_then (ok_or UrOverflow (checked_mul u32_max cq cqe_bytes)) (\<lambda>cqe_len.
     and_then (ok_or UrOverflow (checked_add u32_max ring_header_bytes cqe_len)) (\<lambda>cqe_end.
     and_then (if flags_contain (sr_flags request) setup_no_sqarray then Inr None
               else and_then (ring_align_up cqe_end ring_alignment) (\<lambda>off. Inr (Some off))) (\<lambda>sq_array.
     and_then (case sq_array of
         Some offset \<Rightarrow> and_then (ok_or UrOverflow (checked_mul u32_max sq 4)) (\<lambda>array_len.
           ok_or UrOverflow (checked_add u32_max offset array_len))
       | None \<Rightarrow> Inr cqe_end) (\<lambda>ring_bytes.
     and_then (ok_or UrOverflow (checked_mul u32_max sq sqe_bytes)) (\<lambda>sqe_len.
       Inr \<lparr>rl_sq_entries = sq, rl_cq_entries = cq, rl_setup_flags = sr_flags request,
            rl_features = proven_features,
            rl_sq_offsets = \<lparr>so_head = 0, so_tail = 4, so_ring_mask = 16, so_ring_entries = 24,
              so_flags = 36, so_dropped = 32, so_array = sq_array\<rparr>,
            rl_cq_offsets = \<lparr>co_head = 8, co_tail = 12, co_ring_mask = 20, co_ring_entries = 28,
              co_overflow = 44, co_cqes = ring_header_bytes, co_flags = 40\<rparr>,
            rl_ring_bytes = ring_bytes, rl_sqe_bytes = sqe_len\<rparr>)))))))"

datatype mapping_region = RegionRings | RegionSubmissionEntries

definition layout_mapping_region :: "u64 \<Rightarrow> uring_error + mapping_region" where
  "layout_mapping_region offset =
     (if offset = ioring_off_sq_ring \<or> offset = ioring_off_cq_ring then Inr RegionRings
      else if offset = ioring_off_sqes then Inr RegionSubmissionEntries
      else Inl UrInvalidMappingOffset)"

definition layout_mapping_bytes :: "ring_layout \<Rightarrow> mapping_region \<Rightarrow> nat" where
  "layout_mapping_bytes l region =
     (case region of RegionRings \<Rightarrow> rl_ring_bytes l | RegionSubmissionEntries \<Rightarrow> rl_sqe_bytes l)"

definition pending_submissions :: "ring_layout \<Rightarrow> u32 \<Rightarrow> u32 \<Rightarrow> uring_error + u32" where
  "pending_submissions l head tail =
     (let pending = tail - head
      in if unat pending \<le> rl_sq_entries l then Inr pending else Inl UrInvalidQueueGeometry)"

definition submission_slot :: "ring_layout \<Rightarrow> u32 \<Rightarrow> u32" where
  "submission_slot l counter = counter AND of_nat (rl_sq_entries l - 1)"

definition validate_sqe_index :: "ring_layout \<Rightarrow> u32 \<Rightarrow> uring_error + u32" where
  "validate_sqe_index l index =
     (if unat index < rl_sq_entries l then Inr index else Inl UrInvalidSubmission)"

section \<open>Enter\<close>

definition enter_supported :: u32 where "enter_supported = push_bit 0 1"

definition enter_flags_from_bits :: "u32 \<Rightarrow> uring_error + u32" where
  "enter_flags_from_bits bits =
     (if bits AND NOT enter_supported = 0 then Inr bits else Inl UrUnsupportedEnterFlags)"

datatype legacy_signal_mask = NoSignalMask | SignalMaskAddress u64

record enter_request =
  en_to_submit :: u32
  en_minimum_complete :: u32
  en_flags :: u32
  en_signal_mask :: legacy_signal_mask

definition enter_request_from_raw ::
  "u32 \<Rightarrow> u32 \<Rightarrow> u32 \<Rightarrow> u64 \<Rightarrow> u64 \<Rightarrow> u64 \<Rightarrow> uring_error + enter_request" where
  "enter_request_from_raw to_submit minimum_complete flags mask_address mask_bytes expected_bytes =
     and_then (enter_flags_from_bits flags) (\<lambda>flags.
     and_then
       (if mask_address = 0 then
          if mask_bytes \<noteq> 0 \<and> mask_bytes \<noteq> expected_bytes then Inl UrInvalidSignalMaskArgument
          else Inr NoSignalMask
        else
          if expected_bytes = 0 \<or> mask_bytes \<noteq> expected_bytes then Inl UrInvalidSignalMaskArgument
          else Inr (SignalMaskAddress mask_address))
       (\<lambda>signal_mask. Inr \<lparr>en_to_submit = to_submit, en_minimum_complete = minimum_complete,
          en_flags = flags, en_signal_mask = signal_mask\<rparr>))"

section \<open>Registration headers\<close>

definition ioring_max_registered_buffers :: nat where "ioring_max_registered_buffers = 2 ^ 14"
definition ioring_max_probe_operations :: nat where "ioring_max_probe_operations = 256"
definition pinned_ioring_register_last :: u32 where "pinned_ioring_register_last = 31"
definition use_registered_ring :: u32 where "use_registered_ring = push_bit 31 1"

datatype registration_operation =
    RegisterBuffers u64 nat
  | UnregisterBuffers
  | RegisterFiles u64 nat
  | UnregisterFiles
  | RegisterProbe u64 nat

record registration_request =
  rg_opcode :: u32
  rg_argument :: u64
  rg_count :: nat

definition registration_decode :: "registration_request \<Rightarrow> uring_error + registration_operation" where
  "registration_decode r =
     (if rg_opcode r AND use_registered_ring \<noteq> 0 then
        let base = rg_opcode r AND NOT use_registered_ring
        in Inl (if base = 0 \<or> base = 1 then UrInvalidRegistration else UrUnsupportedRegistration)
      else if rg_opcode r = 0 then
        if rg_argument r \<noteq> 0 \<and> (rg_count r = 0 \<or> rg_count r > ioring_max_registered_buffers)
        then Inl UrInvalidRegistration else Inr (RegisterBuffers (rg_argument r) (rg_count r))
      else if rg_opcode r = 1 then
        if rg_argument r \<noteq> 0 \<or> rg_count r \<noteq> 0 then Inl UrInvalidRegistration
        else Inr UnregisterBuffers
      else if rg_opcode r = 2 then
        if rg_argument r = 0 \<or> rg_count r = 0 then Inl UrInvalidRegistration
        else if rg_count r > ioring_max_fixed_files then Inl UrInvalidFileTableCapacity
        else Inr (RegisterFiles (rg_argument r) (rg_count r))
      else if rg_opcode r = 3 then
        if rg_argument r \<noteq> 0 \<or> rg_count r \<noteq> 0 then Inl UrInvalidRegistration
        else Inr UnregisterFiles
      else if rg_opcode r = 8 then
        if rg_argument r = 0 \<or> rg_count r > ioring_max_probe_operations then Inl UrInvalidRegistration
        else Inr (RegisterProbe (rg_argument r) (rg_count r))
      else if rg_opcode r < pinned_ioring_register_last then Inl UrUnsupportedRegistration
      else Inl UrUnknownRegistration)"

section \<open>The geometry of a resolved ring\<close>

lemma next_power_from_spec:
  assumes "p = 2 ^ k" and "0 < n" and "n = 1 \<or> p < 2 * n" and "p \<le> 2 ^ m" and "n \<le> 2 ^ m"
  shows "(\<exists>j. next_power_from p n = 2 ^ j) \<and> n \<le> next_power_from p n \<and> next_power_from p n \<le> 2 ^ m"
  using assms
proof (induction p n arbitrary: k rule: next_power_from.induct)
  case (1 p n)
  show ?case
  proof (cases "n \<le> p")
    case True
    then have "next_power_from p n = p" by (subst next_power_from.simps) simp
    with True "1.prems" show ?thesis by auto
  next
    case False
    have p: "p \<noteq> 0" using "1.prems"(1) by simp
    then have eq: "next_power_from p n = next_power_from (2 * p) n"
      using False by (subst next_power_from.simps) simp
    have "2 ^ k < (2 :: nat) ^ m" using False "1.prems"(1,5) by linarith
    then have "k < m" by simp
    then have "2 * p \<le> 2 ^ m"
      using "1.prems"(1) power_increasing [of "Suc k" m "2 :: nat"] by simp
    then have "(\<exists>j. next_power_from (2 * p) n = 2 ^ j) \<and> n \<le> next_power_from (2 * p) n \<and>
        next_power_from (2 * p) n \<le> 2 ^ m"
      using "1.prems" False p by (intro "1.IH" [where k = "Suc k"]) auto
    then show ?thesis using eq by simp
  qed
qed

lemma next_power_of_two_spec:
  assumes "0 < n" and "n \<le> 2 ^ m"
  shows "(\<exists>j. next_power_from 1 n = 2 ^ j) \<and> n \<le> next_power_from 1 n \<and> next_power_from 1 n \<le> 2 ^ m"
  using assms by (intro next_power_from_spec [of 1 0]) auto

lemma resolve_sq_entries_Inr:
  assumes "resolve_sq_entries n flags = Inr sq"
  shows "0 < n" and "sq = next_power_from 1 (min n ioring_max_entries)"
  using assms
  by (auto simp: resolve_sq_entries_def checked_next_power_of_two_def Let_def min_def split: if_splits)

lemma sq_entries_range:
  assumes "resolve_sq_entries n flags = Inr sq"
  shows "\<exists>j. sq = 2 ^ j" and "sq \<le> ioring_max_entries" and "min n ioring_max_entries \<le> sq"
  using next_power_of_two_spec [of "min n ioring_max_entries" 15] resolve_sq_entries_Inr [OF assms]
  by (auto simp: ioring_max_entries_def)

lemma resolve_cq_entries_Inr:
  assumes "resolve_cq_entries sq n flags = Inr cq"
  shows "cq = 2 * sq \<and> \<not> flags_contain flags setup_cqsize \<or>
         0 < n \<and> sq \<le> cq \<and> cq = next_power_from 1 (min n ioring_max_cq_entries)"
  using assms
  by (auto simp: resolve_cq_entries_def checked_next_power_of_two_def Let_def min_def
      checked_mul_Some_iff split: if_splits)

lemma cq_entries_range:
  assumes "resolve_sq_entries n flags = Inr sq" and "resolve_cq_entries sq k flags = Inr cq"
  shows "\<exists>j. cq = 2 ^ j" and "cq \<le> ioring_max_cq_entries" and "sq \<le> cq"
proof -
  note sq = sq_entries_range [OF assms(1)]
  have "(\<exists>j. cq = 2 ^ j) \<and> cq \<le> ioring_max_cq_entries \<and> sq \<le> cq"
    using resolve_cq_entries_Inr [OF assms(2)]
  proof (elim disjE conjE)
    assume "cq = 2 * sq"
    moreover obtain j where "sq = 2 ^ j" using sq(1) by auto
    ultimately show ?thesis
      using sq(2) by (auto simp: ioring_max_entries_def ioring_max_cq_entries_def intro: exI [of _ "Suc j"])
  next
    assume "0 < k" "sq \<le> cq" "cq = next_power_from 1 (min k ioring_max_cq_entries)"
    then show ?thesis
      using next_power_of_two_spec [of "min k ioring_max_cq_entries" 16]
      by (auto simp: ioring_max_cq_entries_def)
  qed
  then show "\<exists>j. cq = 2 ^ j" "cq \<le> ioring_max_cq_entries" "sq \<le> cq" by auto
qed

lemma ring_align_up_64:
  assumes "v \<le> 2 ^ 21" and "ring_align_up v ring_alignment = Inr a"
  shows "a mod 64 = 0" and "v \<le> a" and "a < v + 64"
proof -
  have "(v + 63) AND (u32_max - 63) = (v + 63) div 64 * 64"
    using clear_low_bits_width [of 6 32 "v + 63"] assms(1) by (simp add: u32_max_def)
  then have a: "a = (v + 63) div 64 * 64"
    using assms(2) by (auto simp: ring_align_up_def ring_alignment_def checked_add_Some_iff Let_def split: option.splits)
  have "(v + 63) mod 64 \<le> 63" using mod_less_divisor [of 64 "v + 63"] by linarith
  then show "a mod 64 = 0" "v \<le> a" "a < v + 64"
    using a div_mult_mod_eq [of "v + 63" 64] by auto
qed

lemma ring_align_up_defined:
  assumes "v \<le> 2 ^ 21"
  shows "\<exists>a. ring_align_up v ring_alignment = Inr a"
  using assms by (auto simp: ring_align_up_def ring_alignment_def checked_add_def u32_max_def)

text \<open>The resolved sizes fit 32 bits, so no checked operation of \<open>resolve\<close> fails.\<close>

lemma setup_resolve_eq:
  assumes "resolve_sq_entries (sr_entries q) (sr_flags q) = Inr sq"
    and "resolve_cq_entries sq (sr_cq_entries q) (sr_flags q) = Inr cq"
  shows "\<exists>l. setup_resolve q feats = Inr l \<and> rl_sq_entries l = sq \<and> rl_cq_entries l = cq \<and>
    rl_sqe_bytes l = 64 * sq \<and> co_cqes (rl_cq_offsets l) = 64 \<and>
    (case so_array (rl_sq_offsets l) of
       None \<Rightarrow> flags_contain (sr_flags q) setup_no_sqarray \<and> rl_ring_bytes l = 64 + 16 * cq
     | Some a \<Rightarrow> \<not> flags_contain (sr_flags q) setup_no_sqarray \<and> 64 + 16 * cq \<le> a \<and> a < 128 + 16 * cq \<and>
         a mod 64 = 0 \<and> rl_ring_bytes l = a + 4 * sq)"
proof -
  note sq = sq_entries_range(2) [OF assms(1), unfolded ioring_max_entries_def]
  note cq = cq_entries_range(2) [OF assms, unfolded ioring_max_cq_entries_def]
  have small: "cq * 16 \<le> u32_max" "64 + cq * 16 \<le> u32_max" "sq * 64 \<le> u32_max" "sq * 4 \<le> u32_max"
    using sq cq by (simp_all add: u32_max_def)
  have bound: "64 + cq * 16 \<le> 2 ^ 21" using cq by simp
  obtain a where a: "ring_align_up (64 + cq * 16) ring_alignment = Inr a"
    using ring_align_up_defined [OF bound] by blast
  note al = ring_align_up_64 [OF bound a]
  then have "a + sq * 4 \<le> u32_max" using sq cq by (simp add: u32_max_def)
  then show ?thesis
    using assms a al small
    by (auto simp: setup_resolve_def checked_mul_def checked_add_def cqe_bytes_def ring_header_bytes_def
        sqe_bytes_def mult.commute)
qed

text \<open>A ring counter is reduced to a slot by its mask.\<close>

lemma submission_slot_mod:
  assumes "rl_sq_entries l = 2 ^ k" and "k \<le> 16"
  shows "unat (submission_slot l counter) = unat counter mod rl_sq_entries l"
proof -
  have "of_nat (rl_sq_entries l - 1) = (mask k :: u32)"
    using assms by (simp add: of_nat_diff mask_eq_exp_minus_1)
  then have "submission_slot l counter = take_bit k counter"
    by (simp add: submission_slot_def take_bit_eq_mask)
  moreover have "unat (take_bit k counter) = take_bit k (unat counter)" by (rule unsigned_take_bit_eq)
  ultimately show ?thesis using assms(1) by (simp add: take_bit_eq_mod)
qed

text \<open>
  The geometry of a ring is what was asked for and its areas do not overlap. A setup request whose
  entry counts resolve always yields a layout; its queue sizes are powers of two within Linux's limits, the
  submission queue has at least the requested (clamped) entries and the completion queue at least as many.
  The completion entries follow the 64-byte header that holds every counter, the optional index array
  is aligned, starts after them and ends the mapping, and a wrapping counter is always reduced to
  a submission slot in range.
\<close>

theorem ring_layout_geometry:
  assumes "resolve_sq_entries (sr_entries q) (sr_flags q) = Inr sq"
    and "resolve_cq_entries sq (sr_cq_entries q) (sr_flags q) = Inr cq"
  shows "\<exists>l. setup_resolve q feats = Inr l \<and> rl_sq_entries l = sq \<and> rl_cq_entries l = cq \<and>
    (\<exists>j. sq = 2 ^ j) \<and> (\<exists>j. cq = 2 ^ j) \<and>
    min (sr_entries q) ioring_max_entries \<le> sq \<and> sq \<le> ioring_max_entries \<and>
    sq \<le> cq \<and> cq \<le> ioring_max_cq_entries \<and>
    co_cqes (rl_cq_offsets l) = ring_header_bytes \<and> rl_sqe_bytes l = sqe_bytes * sq \<and>
    (case so_array (rl_sq_offsets l) of
       None \<Rightarrow> rl_ring_bytes l = ring_header_bytes + cqe_bytes * cq
     | Some a \<Rightarrow> ring_header_bytes + cqe_bytes * cq \<le> a \<and> a mod ring_alignment = 0 \<and>
         rl_ring_bytes l = a + 4 * sq) \<and>
    rl_ring_bytes l < unat ioring_off_cq_ring \<and>
    (\<forall>counter. unat (submission_slot l counter) = unat counter mod sq \<and>
       validate_sqe_index l (submission_slot l counter) = Inr (submission_slot l counter))"
proof -
  note sq = sq_entries_range [OF assms(1)] and cq = cq_entries_range [OF assms]
  obtain l where l: "setup_resolve q feats = Inr l" "rl_sq_entries l = sq" "rl_cq_entries l = cq"
    "rl_sqe_bytes l = 64 * sq" "co_cqes (rl_cq_offsets l) = 64"
    and arr: "case so_array (rl_sq_offsets l) of
       None \<Rightarrow> flags_contain (sr_flags q) setup_no_sqarray \<and> rl_ring_bytes l = 64 + 16 * cq
     | Some a \<Rightarrow> \<not> flags_contain (sr_flags q) setup_no_sqarray \<and> 64 + 16 * cq \<le> a \<and> a < 128 + 16 * cq \<and>
         a mod 64 = 0 \<and> rl_ring_bytes l = a + 4 * sq"
    using setup_resolve_eq [OF assms, of feats] by blast
  obtain k where k: "sq = 2 ^ k" using sq(1) by blast
  then have "k \<le> 16" using sq(2) power_le_imp_le_exp [of "2 :: nat" k 15] by (simp add: ioring_max_entries_def)
  then have slot: "unat (submission_slot l c) = unat c mod sq" for c
    using submission_slot_mod [of l k c] l(2) k by simp
  have "rl_ring_bytes l < unat ioring_off_cq_ring"
    using arr sq(2) cq(2)
    by (auto simp: ioring_off_cq_ring_def ioring_max_entries_def ioring_max_cq_entries_def split: option.splits)
  moreover have "case so_array (rl_sq_offsets l) of
       None \<Rightarrow> rl_ring_bytes l = ring_header_bytes + cqe_bytes * cq
     | Some a \<Rightarrow> ring_header_bytes + cqe_bytes * cq \<le> a \<and> a mod ring_alignment = 0 \<and>
         rl_ring_bytes l = a + 4 * sq"
    using arr by (auto simp: ring_header_bytes_def cqe_bytes_def ring_alignment_def split: option.splits)
  moreover have "validate_sqe_index l (submission_slot l c) = Inr (submission_slot l c)" for c
    using slot [of c] l(2) k by (simp add: validate_sqe_index_def)
  ultimately show ?thesis
    using l sq cq slot by (intro exI [of _ l]) (simp add: ring_header_bytes_def sqe_bytes_def)
qed

theorem ring_layout_geometry_witness:
  "\<exists>l. setup_resolve \<lparr>sr_entries = 5, sr_cq_entries = 0, sr_flags = 0\<rparr> 0 = Inr l \<and> rl_sq_entries l = 8 \<and>
     rl_cq_entries l = 16"
proof -
  have n: "next_power_from 1 5 = 8" by (simp add: next_power_from.simps)
  have sq: "resolve_sq_entries 5 0 = Inr 8"
    by (simp add: resolve_sq_entries_def checked_next_power_of_two_def n [simplified] ioring_max_entries_def u32_max_def)
  have "\<not> flags_contain 0 setup_cqsize" by (simp add: flags_contain_def setup_cqsize_def)
  then have "resolve_cq_entries 8 0 0 = Inr 16"
    by (simp add: resolve_cq_entries_def checked_mul_def u32_max_def)
  then show ?thesis
    using ring_layout_geometry [of "\<lparr>sr_entries = 5, sr_cq_entries = 0, sr_flags = 0\<rparr>" 8 16 0] sq by auto
qed

end
