(* ===== verification/Uring_Request.thy ===== *)
theory Uring_Request
  imports Uring_Setup
begin

text \<open>
  The request registry of one ring, \<^verbatim>\<open>io-uring/src/request.rs\<close>: generation-tagged request slots, the
  terminal credit that every accepted request holds until its completion is consumed, the claim
  that decides between completion and cancellation, and the two-phase publication of a completion
  queue entry. Slot numbers, generations, sequences and credits are \<open>nat\<close> under checked
  operations; the completion queue head and tail are 32-bit words, because they wrap, and the
  signed result of a completion is its 32-bit pattern. A \<open>CompletionToken\<close> is the identity it holds.
\<close>

section \<open>Requests\<close>

datatype request_operation = OpNop | OpRead | OpWrite | OpPollAdd | OpAsyncCancel | OpRejected u8

datatype cancellation_mode = Cancellable | Uncancellable

definition operation_cancellation_mode :: "request_operation \<Rightarrow> cancellation_mode" where
  "operation_cancellation_mode op = (case op of OpPollAdd \<Rightarrow> Cancellable | _ \<Rightarrow> Uncancellable)"

record request_descriptor =
  rd_user_data :: u64
  rd_operation :: request_operation

record request_id =
  ri_ring :: nat
  ri_slot :: nat
  ri_generation :: nat

datatype request_state =
    RqReserved | RqPrepared | RqIssued cancellation_mode | RqTerminalClaimed | RqCompletionPending
  | RqPublishing

datatype request_lifecycle = RlOpen | RlClosing | RlDraining | RlClosed

datatype terminal_cause = TcCompleted | TcCancelled | TcClosing | TcPreparationFailed

datatype cancel_selector = SelUserData u64 | SelRequest request_id

record completion =
  cp_user_data :: u64
  cp_result :: u32
  cp_flags :: u32

text \<open>Tokens: a reservation or prepared request, an issued request, a claim, a publication.\<close>

record request_token =
  rt_id :: request_id
  rt_descriptor :: request_descriptor

record issued_request =
  is_id :: request_id
  is_descriptor :: request_descriptor
  is_cancellation_mode :: cancellation_mode

record terminal_permit =
  tp_id :: request_id
  tp_descriptor :: request_descriptor
  tp_cause :: terminal_cause

record completion_publication =
  pb_id :: request_id
  pb_completion :: completion
  pb_slot :: u32
  pb_new_tail :: u32

datatype entry_state =
    EsReserved | EsPrepared | EsIssued cancellation_mode | EsTerminalClaimed terminal_cause
  | EsCompletionPending completion | EsPublishing completion

fun entry_state_public :: "entry_state \<Rightarrow> request_state" where
  "entry_state_public EsReserved = RqReserved"
| "entry_state_public EsPrepared = RqPrepared"
| "entry_state_public (EsIssued mode) = RqIssued mode"
| "entry_state_public (EsTerminalClaimed c) = RqTerminalClaimed"
| "entry_state_public (EsCompletionPending c) = RqCompletionPending"
| "entry_state_public (EsPublishing c) = RqPublishing"

record request_entry =
  re_descriptor :: request_descriptor
  re_sequence :: nat
  re_state :: entry_state

record request_slot =
  rqs_generation :: "nat option"
  rqs_entry :: "request_entry option"

record request_registry =
  rr_ring :: nat
  rr_capacity :: nat
  rr_slots :: "request_slot list"
  rr_free_slots :: "nat list"
  rr_next_sequence :: "nat option"
  rr_lifecycle :: request_lifecycle
  rr_cq_entries :: u32
  rr_cq_head :: u32
  rr_cq_tail :: u32
  rr_terminal_credits :: nat
  rr_publication_in_flight :: "request_id option"

record request_progress =
  pg_lifecycle :: request_lifecycle
  pg_reserved :: nat
  pg_prepared :: nat
  pg_issued :: nat
  pg_uncancellable_issued :: nat
  pg_terminal_claimed :: nat
  pg_completion_pending :: nat
  pg_publishing :: nat
  pg_terminal_credits :: nat
  pg_published :: nat

section \<open>Lookup and slots\<close>

definition req_entry :: "request_registry \<Rightarrow> request_id \<Rightarrow> uring_error + request_entry" where
  "req_entry r rid =
     (if ri_ring rid \<noteq> rr_ring r then Inl UrUnknownRequest
      else case vec_get (rr_slots r) (ri_slot rid) of
        None \<Rightarrow> Inl UrUnknownRequest
      | Some s \<Rightarrow>
          if rqs_generation s \<noteq> Some (ri_generation rid) then Inl UrUnknownRequest
          else ok_or UrUnknownRequest (rqs_entry s))"

text \<open>The assignment \<open>entry.state = st\<close> through the reference \<open>entry_mut\<close> returned.\<close>

definition req_set_state :: "request_registry \<Rightarrow> request_id \<Rightarrow> entry_state \<Rightarrow> request_registry" where
  "req_set_state r rid st =
     r\<lparr>rr_slots := (rr_slots r)[ri_slot rid :=
         (rr_slots r ! ri_slot rid)\<lparr>rqs_entry :=
            map_option (\<lambda>e. e\<lparr>re_state := st\<rparr>) (rqs_entry (rr_slots r ! ri_slot rid))\<rparr>]\<rparr>"

definition req_require_state ::
  "request_registry \<Rightarrow> request_id \<Rightarrow> request_state \<Rightarrow> uring_error + unit" where
  "req_require_state r rid st =
     and_then (req_entry r rid) (\<lambda>e.
       if entry_state_public (re_state e) = st then Inr () else Inl UrInvalidRequestState)"

definition req_clear_slot ::
  "request_registry \<Rightarrow> request_id \<Rightarrow> (request_registry, uring_error, unit) outcome" where
  "req_clear_slot r rid =
     (if ri_ring rid \<noteq> rr_ring r then (r, Inl UrUnknownRequest)
      else case vec_get (rr_slots r) (ri_slot rid) of
        None \<Rightarrow> (r, Inl UrUnknownRequest)
      | Some s \<Rightarrow>
          if rqs_generation s \<noteq> Some (ri_generation rid) \<or> rqs_entry s = None
          then (r, Inl UrUnknownRequest)
          else
            let next_generation = checked_add u64_max (ri_generation rid) 1;
                r1 = r\<lparr>rr_slots := (rr_slots r)[ri_slot rid :=
                         \<lparr>rqs_generation = next_generation, rqs_entry = None\<rparr>]\<rparr>
            in if next_generation = None then (r1, Inr ())
               else if length (rr_free_slots r1) \<ge> length (rr_slots r1)
               then (r1, Inl UrInvalidRequestState)
               else (r1\<lparr>rr_free_slots := rr_free_slots r1 @ [ri_slot rid]\<rparr>, Inr ()))"

definition req_published_count :: "request_registry \<Rightarrow> uring_error + u32" where
  "req_published_count r =
     (let published = rr_cq_tail r - rr_cq_head r
      in if published \<le> rr_cq_entries r then Inr published else Inl UrInvalidQueueGeometry)"

definition req_refund_credits ::
  "request_registry \<Rightarrow> nat \<Rightarrow> (request_registry, uring_error, unit) outcome" where
  "req_refund_credits r n =
     (case checked_sub (rr_terminal_credits r) n of
        None \<Rightarrow> (r, Inl UrInvalidCompletionConsumption)
      | Some c \<Rightarrow> (r\<lparr>rr_terminal_credits := c\<rparr>, Inr ()))"

section \<open>Operations\<close>

text \<open>\<open>alloc_ok 0\<close> and \<open>alloc_ok 1\<close> are the allocator's answers for the slots and the free list.\<close>

definition req_new ::
  "(nat \<Rightarrow> bool) \<Rightarrow> nat \<Rightarrow> nat \<Rightarrow> u32 \<Rightarrow> uring_error + request_registry" where
  "req_new alloc_ok ring request_capacity cq_entries =
     (if request_capacity = 0 \<or> request_capacity > ioring_max_entries
      then Inl UrRequestCapacityExceeded
      else if cq_entries = 0 \<or> \<not> is_power_of_two_u32 (unat cq_entries) \<or>
              unat cq_entries > ioring_max_cq_entries
      then Inl UrInvalidQueueGeometry
      else if \<not> alloc_ok 0 then Inl UrAllocationFailed
      else if \<not> alloc_ok 1 then Inl UrAllocationFailed
      else Inr
        \<lparr>rr_ring = ring, rr_capacity = request_capacity,
         rr_slots = replicate request_capacity \<lparr>rqs_generation = Some 1, rqs_entry = None\<rparr>,
         rr_free_slots = rev [0..<request_capacity], rr_next_sequence = Some 1,
         rr_lifecycle = RlOpen, rr_cq_entries = cq_entries, rr_cq_head = 0, rr_cq_tail = 0,
         rr_terminal_credits = 0, rr_publication_in_flight = None\<rparr>)"

definition lifecycle_error :: "request_lifecycle \<Rightarrow> uring_error" where
  "lifecycle_error l = (case l of RlDraining \<Rightarrow> UrDraining | RlClosed \<Rightarrow> UrClosed | _ \<Rightarrow> UrClosing)"

text \<open>
  \<open>free_slots\<close> is a stack with its top at the end. The slot popped is the one \<open>last\<close> returned, so
  the two re-checks after \<open>pop\<close> do not fire.
\<close>

definition req_reserve ::
  "request_registry \<Rightarrow> request_descriptor \<Rightarrow> (request_registry, uring_error, request_token) outcome" where
  "req_reserve r d =
     (if rr_lifecycle r \<noteq> RlOpen then (r, Inl (lifecycle_error (rr_lifecycle r)))
      else if rr_terminal_credits r \<ge> unat (rr_cq_entries r) then (r, Inl UrCompletionQueueFull)
      else case rr_next_sequence r of
        None \<Rightarrow> (r, Inl UrGenerationExhausted)
      | Some sequence \<Rightarrow>
        if rr_free_slots r = [] then
          (r, Inl (if \<exists>s \<in> set (rr_slots r). rqs_entry s \<noteq> None then UrRequestCapacityExceeded
                   else UrGenerationExhausted))
        else let slot_index = last (rr_free_slots r) in
          case vec_get (rr_slots r) slot_index of
            None \<Rightarrow> (r, Inl UrRequestCapacityExceeded)
          | Some s \<Rightarrow>
            if rqs_entry s \<noteq> None then (r, Inl UrInvalidRequestState)
            else case rqs_generation s of
              None \<Rightarrow> (r, Inl UrGenerationExhausted)
            | Some g \<Rightarrow>
              case checked_add u32_max (rr_terminal_credits r) 1 of
                None \<Rightarrow> (r, Inl UrOverflow)
              | Some credits \<Rightarrow>
                (r\<lparr>rr_terminal_credits := credits,
                   rr_next_sequence := checked_add u64_max sequence 1,
                   rr_free_slots := butlast (rr_free_slots r),
                   rr_slots := (rr_slots r)[slot_index := s\<lparr>rqs_entry := Some
                     \<lparr>re_descriptor = d, re_sequence = sequence, re_state = EsReserved\<rparr>\<rparr>]\<rparr>,
                 Inr \<lparr>rt_id = \<lparr>ri_ring = rr_ring r, ri_slot = slot_index, ri_generation = g\<rparr>,
                      rt_descriptor = d\<rparr>))"

text \<open>\<open>clear_slot\<close> followed by the refund of one credit, the tail of two operations.\<close>

definition req_drop ::
  "request_registry \<Rightarrow> request_id \<Rightarrow> request_state \<Rightarrow> (request_registry, uring_error, unit) outcome" where
  "req_drop r rid st =
     (case req_require_state r rid st of
        Inl e \<Rightarrow> (r, Inl e)
      | Inr _ \<Rightarrow>
        case req_clear_slot r rid of
          (r1, Inl e) \<Rightarrow> (r1, Inl e)
        | (r1, Inr _) \<Rightarrow> req_refund_credits r1 1)"

definition req_rollback ::
  "request_registry \<Rightarrow> request_token \<Rightarrow> (request_registry, uring_error, unit) outcome" where
  "req_rollback r reservation = req_drop r (rt_id reservation) RqReserved"

definition req_commit ::
  "request_registry \<Rightarrow> request_token \<Rightarrow> (request_registry, uring_error, request_token) outcome" where
  "req_commit r reservation =
     (case req_entry r (rt_id reservation) of
        Inl e \<Rightarrow> (r, Inl e)
      | Inr entry \<Rightarrow>
        if re_state entry \<noteq> EsReserved then (r, Inl UrInvalidRequestState)
        else (req_set_state r (rt_id reservation) EsPrepared,
              Inr \<lparr>rt_id = rt_id reservation, rt_descriptor = re_descriptor entry\<rparr>))"

definition terminal_claimed :: "entry_state \<Rightarrow> bool" where
  "terminal_claimed st =
     (case st of EsTerminalClaimed _ \<Rightarrow> True | EsCompletionPending _ \<Rightarrow> True | EsPublishing _ \<Rightarrow> True
      | _ \<Rightarrow> False)"

definition req_issue ::
  "request_registry \<Rightarrow> request_token \<Rightarrow>
   (request_registry, uring_error \<times> request_token, issued_request) outcome" where
  "req_issue r prepared =
     (case req_entry r (rt_id prepared) of
        Inl e \<Rightarrow> (r, Inl (e, prepared))
      | Inr entry \<Rightarrow>
        if re_state entry \<noteq> EsPrepared then
          (r, Inl (if terminal_claimed (re_state entry) then UrTerminalAlreadyClaimed
                   else UrInvalidRequestState, prepared))
        else let mode = operation_cancellation_mode (rd_operation (re_descriptor entry)) in
          (req_set_state r (rt_id prepared) (EsIssued mode),
           Inr \<lparr>is_id = rt_id prepared, is_descriptor = re_descriptor entry,
                is_cancellation_mode = mode\<rparr>))"

definition req_request ::
  "request_registry \<Rightarrow> request_id \<Rightarrow> uring_error + request_descriptor \<times> request_state" where
  "req_request r rid =
     and_then (req_entry r rid) (\<lambda>e. Inr (re_descriptor e, entry_state_public (re_state e)))"

definition req_claim_terminal ::
  "request_registry \<Rightarrow> request_id \<Rightarrow> terminal_cause \<Rightarrow>
   (request_registry, uring_error, terminal_permit) outcome" where
  "req_claim_terminal r rid cause =
     (case req_entry r rid of
        Inl e \<Rightarrow> (r, Inl e)
      | Inr entry \<Rightarrow>
        let granted = (req_set_state r rid (EsTerminalClaimed cause),
              Inr \<lparr>tp_id = rid, tp_descriptor = re_descriptor entry, tp_cause = cause\<rparr>)
        in case re_state entry of
             EsPrepared \<Rightarrow> granted
           | EsIssued mode \<Rightarrow>
               if mode = Uncancellable \<and> cause \<noteq> TcCompleted then (r, Inl UrRequestUncancellable)
               else granted
           | EsReserved \<Rightarrow> (r, Inl UrInvalidRequestState)
           | _ \<Rightarrow> (r, Inl UrTerminalAlreadyClaimed))"

fun selector_matches :: "cancel_selector \<Rightarrow> request_descriptor \<Rightarrow> bool" where
  "selector_matches (SelUserData u) d \<longleftrightarrow> rd_user_data d = u"
| "selector_matches (SelRequest i) d \<longleftrightarrow> False"

definition cancel_candidate :: "entry_state \<Rightarrow> bool" where
  "cancel_candidate st \<longleftrightarrow> st = EsPrepared \<or> st = EsIssued Cancellable"

text \<open>The scan of \<open>claim_cancel\<close>: \<open>i\<close> is the index of the first slot of the list.\<close>

fun cancel_scan ::
  "nat \<Rightarrow> cancel_selector \<Rightarrow> request_id option \<Rightarrow> nat \<Rightarrow> request_slot list \<Rightarrow>
   (nat \<times> request_id) option \<Rightarrow> uring_error + (nat \<times> request_id) option" where
  "cancel_scan ring selector exclude i [] candidate = Inr candidate"
| "cancel_scan ring selector exclude i (s # rest) candidate =
     (case rqs_entry s of
        None \<Rightarrow> cancel_scan ring selector exclude (Suc i) rest candidate
      | Some entry \<Rightarrow>
        (case rqs_generation s of
           None \<Rightarrow> Inl UrGenerationExhausted
         | Some g \<Rightarrow>
           let rid = \<lparr>ri_ring = ring, ri_slot = i, ri_generation = g\<rparr>;
               older = (case candidate of None \<Rightarrow> True | Some (q, _) \<Rightarrow> re_sequence entry < q);
               next = (if Some rid \<noteq> exclude \<and> selector_matches selector (re_descriptor entry) \<and>
                          cancel_candidate (re_state entry) \<and> older
                       then Some (re_sequence entry, rid) else candidate)
           in cancel_scan ring selector exclude (Suc i) rest next))"

definition req_claim_cancel ::
  "request_registry \<Rightarrow> cancel_selector \<Rightarrow> request_id option \<Rightarrow>
   (request_registry, uring_error, terminal_permit) outcome" where
  "req_claim_cancel r selector exclude =
     (case selector of
        SelRequest rid \<Rightarrow>
          if Some rid = exclude then (r, Inl UrCancellationTargetNotFound)
          else (case req_claim_terminal r rid TcCancelled of
              (r1, Inl e) \<Rightarrow>
                (r1, Inl (if e \<in> {UrUnknownRequest, UrTerminalAlreadyClaimed, UrRequestUncancellable}
                          then UrCancellationTargetNotFound else e))
            | granted \<Rightarrow> granted)
      | SelUserData _ \<Rightarrow>
          (case cancel_scan (rr_ring r) selector exclude 0 (rr_slots r) None of
             Inl e \<Rightarrow> (r, Inl e)
           | Inr None \<Rightarrow> (r, Inl UrCancellationTargetNotFound)
           | Inr (Some (_, rid)) \<Rightarrow> req_claim_terminal r rid TcCancelled))"

definition req_finish_terminal ::
  "request_registry \<Rightarrow> terminal_permit \<Rightarrow> u32 \<Rightarrow> u32 \<Rightarrow>
   (request_registry, uring_error, request_id) outcome" where
  "req_finish_terminal r permit result flags =
     (case req_entry r (tp_id permit) of
        Inl e \<Rightarrow> (r, Inl e)
      | Inr entry \<Rightarrow>
        if re_state entry \<noteq> EsTerminalClaimed (tp_cause permit) then (r, Inl UrInvalidRequestState)
        else (req_set_state r (tp_id permit) (EsCompletionPending
                \<lparr>cp_user_data = rd_user_data (re_descriptor entry), cp_result = result,
                 cp_flags = flags\<rparr>), Inr (tp_id permit)))"

definition req_publish ::
  "request_registry \<Rightarrow> request_id \<Rightarrow> (request_registry, uring_error, completion_publication) outcome" where
  "req_publish r rid =
     (if rr_lifecycle r = RlDraining then (r, Inl UrDraining)
      else if rr_lifecycle r = RlClosed then (r, Inl UrClosed)
      else if rr_publication_in_flight r \<noteq> None then (r, Inl UrPublicationInFlight)
      else case req_entry r rid of
        Inl e \<Rightarrow> (r, Inl e)
      | Inr entry \<Rightarrow>
        (case re_state entry of
           EsCompletionPending c \<Rightarrow>
             (case req_published_count r of
                Inl e \<Rightarrow> (r, Inl e)
              | Inr published \<Rightarrow>
                if published \<ge> rr_cq_entries r then (r, Inl UrCompletionQueueFull)
                else ((req_set_state r rid (EsPublishing c))\<lparr>rr_publication_in_flight := Some rid\<rparr>,
                      Inr \<lparr>pb_id = rid, pb_completion = c,
                           pb_slot = rr_cq_tail r AND (rr_cq_entries r - 1),
                           pb_new_tail = rr_cq_tail r + 1\<rparr>))
         | _ \<Rightarrow> (r, Inl UrCompletionNotPending)))"

definition req_commit_publication ::
  "request_registry \<Rightarrow> completion_publication \<Rightarrow> (request_registry, uring_error, unit) outcome" where
  "req_commit_publication r p =
     (if rr_publication_in_flight r \<noteq> Some (pb_id p) then (r, Inl UrPublicationInFlight)
      else if pb_slot p \<noteq> rr_cq_tail r AND (rr_cq_entries r - 1) \<or> pb_new_tail p \<noteq> rr_cq_tail r + 1
      then (r, Inl UrInvalidQueueGeometry)
      else case req_entry r (pb_id p) of
        Inl e \<Rightarrow> (r, Inl e)
      | Inr entry \<Rightarrow>
        if re_state entry \<noteq> EsPublishing (pb_completion p) then (r, Inl UrInvalidRequestState)
        else case req_clear_slot r (pb_id p) of
          (r1, Inl e) \<Rightarrow> (r1, Inl e)
        | (r1, Inr _) \<Rightarrow>
          (r1\<lparr>rr_cq_tail := pb_new_tail p, rr_publication_in_flight := None\<rparr>, Inr ()))"

definition req_rollback_publication ::
  "request_registry \<Rightarrow> completion_publication \<Rightarrow> (request_registry, uring_error, request_id) outcome" where
  "req_rollback_publication r p =
     (if rr_publication_in_flight r \<noteq> Some (pb_id p) then (r, Inl UrPublicationInFlight)
      else case req_entry r (pb_id p) of
        Inl e \<Rightarrow> (r, Inl e)
      | Inr entry \<Rightarrow>
        if re_state entry \<noteq> EsPublishing (pb_completion p) then (r, Inl UrInvalidRequestState)
        else ((req_set_state r (pb_id p) (EsCompletionPending (pb_completion p)))
                \<lparr>rr_publication_in_flight := None\<rparr>, Inr (pb_id p)))"

definition req_observe_completion_head ::
  "request_registry \<Rightarrow> u32 \<Rightarrow> (request_registry, uring_error, u32) outcome" where
  "req_observe_completion_head r user_head =
     (if rr_publication_in_flight r \<noteq> None then (r, Inl UrPublicationInFlight)
      else let consumed = user_head - rr_cq_head r in
        case req_published_count r of
          Inl e \<Rightarrow> (r, Inl e)
        | Inr published \<Rightarrow>
          if consumed > published then (r, Inl UrCorruptCompletionHead)
          else case req_refund_credits (r\<lparr>rr_cq_head := user_head\<rparr>) (unat consumed) of
            (r1, Inl e) \<Rightarrow> (r1, Inl e)
          | (r1, Inr _) \<Rightarrow> (r1, Inr consumed))"

section \<open>Teardown\<close>

definition progress_count :: "(entry_state \<Rightarrow> bool) \<Rightarrow> request_slot list \<Rightarrow> nat" where
  "progress_count P slots =
     length (filter (\<lambda>s. case rqs_entry s of None \<Rightarrow> False | Some e \<Rightarrow> P (re_state e)) slots)"

definition req_progress :: "request_registry \<Rightarrow> uring_error + request_progress" where
  "req_progress r =
     and_then (req_published_count r) (\<lambda>published.
       Inr \<lparr>pg_lifecycle = rr_lifecycle r,
            pg_reserved = progress_count (\<lambda>st. st = EsReserved) (rr_slots r),
            pg_prepared = progress_count (\<lambda>st. st = EsPrepared) (rr_slots r),
            pg_issued = progress_count (\<lambda>st. case st of EsIssued _ \<Rightarrow> True | _ \<Rightarrow> False) (rr_slots r),
            pg_uncancellable_issued = progress_count (\<lambda>st. st = EsIssued Uncancellable) (rr_slots r),
            pg_terminal_claimed =
              progress_count (\<lambda>st. case st of EsTerminalClaimed _ \<Rightarrow> True | _ \<Rightarrow> False) (rr_slots r),
            pg_completion_pending =
              progress_count (\<lambda>st. case st of EsCompletionPending _ \<Rightarrow> True | _ \<Rightarrow> False) (rr_slots r),
            pg_publishing =
              progress_count (\<lambda>st. case st of EsPublishing _ \<Rightarrow> True | _ \<Rightarrow> False) (rr_slots r),
            pg_terminal_credits = rr_terminal_credits r,
            pg_published = unat published\<rparr>)"

definition progress_requests_empty :: "request_progress \<Rightarrow> bool" where
  "progress_requests_empty p \<longleftrightarrow> pg_reserved p = 0 \<and> pg_prepared p = 0 \<and> pg_issued p = 0 \<and>
     pg_terminal_claimed p = 0 \<and> pg_completion_pending p = 0 \<and> pg_publishing p = 0"

definition req_begin_close ::
  "request_registry \<Rightarrow> (request_registry, uring_error, request_progress) outcome" where
  "req_begin_close r =
     (let r1 = (if rr_lifecycle r = RlOpen then r\<lparr>rr_lifecycle := RlClosing\<rparr> else r)
      in (r1, req_progress r1))"

definition completion_pending :: "entry_state \<Rightarrow> bool" where
  "completion_pending st = (case st of EsCompletionPending _ \<Rightarrow> True | _ \<Rightarrow> False)"

definition req_begin_draining ::
  "request_registry \<Rightarrow> (request_registry, uring_error, request_progress) outcome" where
  "req_begin_draining r =
     (if rr_lifecycle r = RlDraining then (r, req_progress r)
      else if rr_lifecycle r \<noteq> RlClosing then (r, Inl UrInvalidLifecycleTransition)
      else if \<exists>s \<in> set (rr_slots r). \<exists>e \<in> set_option (rqs_entry s). \<not> completion_pending (re_state e)
      then (r, Inl UrBusy)
      else let r1 = r\<lparr>rr_lifecycle := RlDraining\<rparr> in (r1, req_progress r1))"

definition req_discard_completion ::
  "request_registry \<Rightarrow> request_id \<Rightarrow> (request_registry, uring_error, unit) outcome" where
  "req_discard_completion r rid =
     (if rr_lifecycle r \<noteq> RlDraining then (r, Inl UrInvalidLifecycleTransition)
      else req_drop r rid RqCompletionPending)"

definition req_discard_published ::
  "request_registry \<Rightarrow> (request_registry, uring_error, u32) outcome" where
  "req_discard_published r =
     (if rr_lifecycle r \<noteq> RlDraining then (r, Inl UrInvalidLifecycleTransition)
      else if rr_publication_in_flight r \<noteq> None then (r, Inl UrPublicationInFlight)
      else case req_published_count r of
        Inl e \<Rightarrow> (r, Inl e)
      | Inr published \<Rightarrow>
        case req_refund_credits (r\<lparr>rr_cq_head := rr_cq_tail r\<rparr>) (unat published) of
          (r1, Inl e) \<Rightarrow> (r1, Inl e)
        | (r1, Inr _) \<Rightarrow> (r1, Inr published))"

definition req_finish_close ::
  "request_registry \<Rightarrow> (request_registry, uring_error, unit) outcome" where
  "req_finish_close r =
     (case rr_lifecycle r of
        RlOpen \<Rightarrow> (r, Inl UrInvalidLifecycleTransition)
      | RlClosed \<Rightarrow> (r, Inr ())
      | _ \<Rightarrow>
        if rr_publication_in_flight r \<noteq> None \<or> (\<exists>s \<in> set (rr_slots r). rqs_entry s \<noteq> None) \<or>
           rr_terminal_credits r \<noteq> 0
        then (r, Inl UrBusy)
        else (r\<lparr>rr_lifecycle := RlClosed\<rparr>, Inr ()))"

end
