(* ===== verification/Uring_Sqe.thy ===== *)
theory Uring_Sqe
  imports Uring_Request
begin

unbundle bit_operations_syntax

text \<open>
  The submission queue entry decoder, \<^verbatim>\<open>io-uring/src/sqe.rs\<close>. An entry is a list of 64 bytes; the
  fields are read little-endian at the offsets of the source, signed ones as their bit patterns.
\<close>

section \<open>Opcodes\<close>

definition pinned_ioring_op_last :: u8 where "pinned_ioring_op_last = 58"
definition iosqe_fixed_file :: u8 where "iosqe_fixed_file = 1"

datatype submission_opcode_support = SupSupported request_operation | SupKnownUnsupported | SupUnknown

definition classify_submission_opcode :: "u8 \<Rightarrow> submission_opcode_support" where
  "classify_submission_opcode opcode =
     (if opcode = 0 then SupSupported OpNop
      else if opcode = 6 then SupSupported OpPollAdd
      else if opcode = 14 then SupSupported OpAsyncCancel
      else if opcode = 4 then SupSupported OpRead
      else if opcode = 5 then SupSupported OpWrite
      else if opcode = 22 then SupSupported OpRead
      else if opcode = 23 then SupSupported OpWrite
      else if opcode < pinned_ioring_op_last then SupKnownUnsupported
      else SupUnknown)"

section \<open>Decoded values\<close>

datatype file_target = TargetDescriptor u32 | TargetRegistered u32

definition file_target_from_sqe :: "u32 \<Rightarrow> bool \<Rightarrow> uring_error + file_target" where
  "file_target_from_sqe fd fixed =
     (if sint fd < 0 then Inl UrInvalidFileTarget
      else Inr (if fixed then TargetRegistered fd else TargetDescriptor fd))"

record io_buffer =
  ib_address :: u64
  ib_length :: u32

definition io_buffer_new :: "u64 \<Rightarrow> u32 \<Rightarrow> uring_error + io_buffer" where
  "io_buffer_new address len =
     (if checked_add u64_max (unat address) (unat len) = None then Inl UrInvalidSubmission
      else Inr \<lparr>ib_address = address, ib_length = len\<rparr>)"

definition io_buffer_end :: "io_buffer \<Rightarrow> u64" where
  "io_buffer_end b = ib_address b + ucast (ib_length b)"

record read_write_request =
  rw_file :: file_target
  rw_offset :: u64
  rw_buffer :: io_buffer
  rw_buffer_slot :: "u32 option"

record poll_request =
  pr_file :: file_target
  pr_events :: u32

datatype submission_operation =
    SoNop
  | SoRead read_write_request
  | SoWrite read_write_request
  | SoPollAdd poll_request
  | SoAsyncCancel u64

record parsed_submission =
  ps_user_data :: u64
  ps_operation :: submission_operation

section \<open>Field reads\<close>

text \<open>\<open>from_le_bytes\<close> of \<open>n\<close> bytes at an offset: the first byte is the least significant.\<close>

definition read_le :: "nat \<Rightarrow> u8 list \<Rightarrow> nat \<Rightarrow> 'a :: len word" where
  "read_le n bytes offset =
     foldr (\<lambda>b acc. ucast b OR push_bit 8 acc) (take n (drop offset bytes)) 0"

definition sqe_read_u16 :: "u8 list \<Rightarrow> nat \<Rightarrow> u16" where "sqe_read_u16 = read_le 2"
definition sqe_read_u32 :: "u8 list \<Rightarrow> nat \<Rightarrow> u32" where "sqe_read_u32 = read_le 4"
definition sqe_read_i32 :: "u8 list \<Rightarrow> nat \<Rightarrow> u32" where "sqe_read_i32 = read_le 4"
definition sqe_read_u64 :: "u8 list \<Rightarrow> nat \<Rightarrow> u64" where "sqe_read_u64 = read_le 8"

definition require_submission_flags :: "u8 \<Rightarrow> u8 \<Rightarrow> uring_error + unit" where
  "require_submission_flags bits allowed =
     (if bits AND NOT allowed = 0 then Inr () else Inl UrUnsupportedSubmissionFlags)"

section \<open>The private copy\<close>

definition copied_opcode :: "u8 list \<Rightarrow> u8" where
  "copied_opcode bytes = bytes ! 0"

definition copied_user_data :: "u8 list \<Rightarrow> u64" where
  "copied_user_data bytes = sqe_read_u64 bytes 32"

definition copied_descriptor :: "u8 list \<Rightarrow> request_descriptor" where
  "copied_descriptor bytes =
     \<lparr>rd_user_data = copied_user_data bytes,
      rd_operation =
        (case classify_submission_opcode (copied_opcode bytes) of
           SupSupported operation \<Rightarrow> operation
         | _ \<Rightarrow> OpRejected (copied_opcode bytes))\<rparr>"

section \<open>Decoding\<close>

text \<open>The read/write arm of the decoder's match.\<close>

definition parse_read_write ::
  "u8 list \<Rightarrow> bool \<Rightarrow> uring_error + read_write_request" where
  "parse_read_write bytes fixed_buffer =
     and_then (require_submission_flags (bytes ! 1) iosqe_fixed_file) (\<lambda>_.
       if sqe_read_u16 bytes 2 \<noteq> 0 \<or> sqe_read_u16 bytes 42 \<noteq> 0 \<or>
          (\<not> fixed_buffer \<and> sqe_read_u16 bytes 40 \<noteq> 0) \<or> sqe_read_u32 bytes 28 \<noteq> 0 \<or>
          sqe_read_i32 bytes 44 \<noteq> 0
       then Inl UrUnsupportedOperationFlags
       else if sqe_read_u64 bytes 8 = - 1 then Inl UrCurrentPositionUnsupported
       else and_then (file_target_from_sqe (sqe_read_i32 bytes 4) ((bytes ! 1) AND iosqe_fixed_file \<noteq> 0)) (\<lambda>file.
         and_then (io_buffer_new (sqe_read_u64 bytes 16) (sqe_read_u32 bytes 24)) (\<lambda>buffer.
           Inr \<lparr>rw_file = file, rw_offset = sqe_read_u64 bytes 8, rw_buffer = buffer,
                rw_buffer_slot = (if fixed_buffer then Some (ucast (sqe_read_u16 bytes 40)) else None)\<rparr>)))"

definition parse_operation :: "u8 list \<Rightarrow> uring_error + submission_operation" where
  "parse_operation bytes =
     (let opcode = bytes ! 0; sqe_flags = bytes ! 1; ioprio = sqe_read_u16 bytes 2;
          offset = sqe_read_u64 bytes 8; address = sqe_read_u64 bytes 16;
          len = sqe_read_u32 bytes 24; operation_flags = sqe_read_u32 bytes 28;
          buffer_index = sqe_read_u16 bytes 40; personality = sqe_read_u16 bytes 42;
          splice_fd_in = sqe_read_i32 bytes 44
      in if opcode = 0 then
           and_then (require_submission_flags sqe_flags 0) (\<lambda>_.
             if ioprio \<noteq> 0 \<or> personality \<noteq> 0 \<or> operation_flags \<noteq> 0
             then Inl UrUnsupportedOperationFlags else Inr SoNop)
         else if opcode = 4 \<or> opcode = 5 \<or> opcode = 22 \<or> opcode = 23 then
           and_then (parse_read_write bytes (opcode = 4 \<or> opcode = 5)) (\<lambda>request.
             Inr (if opcode = 4 \<or> opcode = 22 then SoRead request else SoWrite request))
         else if opcode = 6 then
           and_then (require_submission_flags sqe_flags iosqe_fixed_file) (\<lambda>_.
             if ioprio \<noteq> 0 \<or> personality \<noteq> 0 \<or> buffer_index \<noteq> 0 \<or> offset \<noteq> 0 \<or> address \<noteq> 0 \<or> len \<noteq> 0
             then Inl UrUnsupportedOperationFlags
             else and_then (file_target_from_sqe (sqe_read_i32 bytes 4) (sqe_flags AND iosqe_fixed_file \<noteq> 0)) (\<lambda>file.
               Inr (SoPollAdd \<lparr>pr_file = file, pr_events = operation_flags\<rparr>)))
         else if opcode = 14 then
           and_then (require_submission_flags sqe_flags 0) (\<lambda>_.
             if ioprio \<noteq> 0 \<or> personality \<noteq> 0 \<or> offset \<noteq> 0 \<or> operation_flags \<noteq> 0 \<or> splice_fd_in \<noteq> 0
             then Inl UrUnsupportedOperationFlags else Inr (SoAsyncCancel address))
         else if opcode < pinned_ioring_op_last then Inl UrUnsupportedOpcode
         else Inl UrUnknownOpcode)"

definition parse_copied :: "u8 list \<Rightarrow> uring_error + parsed_submission" where
  "parse_copied bytes =
     and_then (parse_operation bytes) (\<lambda>operation.
       Inr \<lparr>ps_user_data = sqe_read_u64 bytes 32, ps_operation = operation\<rparr>)"

definition parsed_descriptor :: "parsed_submission \<Rightarrow> request_descriptor" where
  "parsed_descriptor p =
     \<lparr>rd_user_data = ps_user_data p,
      rd_operation =
        (case ps_operation p of
           SoNop \<Rightarrow> OpNop | SoRead _ \<Rightarrow> OpRead | SoWrite _ \<Rightarrow> OpWrite | SoPollAdd _ \<Rightarrow> OpPollAdd
         | SoAsyncCancel _ \<Rightarrow> OpAsyncCancel)\<rparr>"

section \<open>The decoder agrees with the classification\<close>

lemma parse_operation_descriptor:
  assumes "parse_operation bytes = Inr op"
  shows "classify_submission_opcode (bytes ! 0) = SupSupported
    (case op of SoNop \<Rightarrow> OpNop | SoRead _ \<Rightarrow> OpRead | SoWrite _ \<Rightarrow> OpWrite | SoPollAdd _ \<Rightarrow> OpPollAdd
     | SoAsyncCancel _ \<Rightarrow> OpAsyncCancel)"
  using assms
  by (auto simp: parse_operation_def Let_def classify_submission_opcode_def split: if_splits)

lemma parse_read_write_buffer:
  assumes "parse_read_write bytes fixed = Inr rw"
  shows "unat (ib_address (rw_buffer rw)) + unat (ib_length (rw_buffer rw)) \<le> u64_max"
    and "rw_offset rw \<noteq> - 1" and "rw_buffer_slot rw \<noteq> None \<longleftrightarrow> fixed"
  using assms
  by (auto simp: parse_read_write_def io_buffer_new_def checked_add_def Let_def split: if_splits)

lemma field_errors:
  assumes "err \<in> {UrUnsupportedOpcode, UrUnknownOpcode}"
  shows "require_submission_flags bits allowed \<noteq> Inl err" and "file_target_from_sqe fd fixed \<noteq> Inl err"
    and "io_buffer_new address len \<noteq> Inl err"
  using assms by (auto simp: require_submission_flags_def file_target_from_sqe_def io_buffer_new_def)

lemma parse_read_write_errors:
  assumes "err \<in> {UrUnsupportedOpcode, UrUnknownOpcode}"
  shows "parse_read_write bytes fixed \<noteq> Inl err"
  using assms field_errors [OF assms] by (auto simp: parse_read_write_def)

lemma parse_operation_rejects:
  "parse_operation bytes = Inl UrUnsupportedOpcode \<longleftrightarrow> classify_submission_opcode (bytes ! 0) = SupKnownUnsupported"
  "parse_operation bytes = Inl UrUnknownOpcode \<longleftrightarrow> classify_submission_opcode (bytes ! 0) = SupUnknown"
  unfolding parse_operation_def classify_submission_opcode_def Let_def
  by (simp_all add: field_errors parse_read_write_errors)

text \<open>
  The descriptor a submission is accepted under is the one it decodes to. When the private copy
  of an entry decodes, the descriptor with which a terminal credit was reserved before decoding,
  user data and operation, is the descriptor of the decoded operation, and a decoded buffer
  does not wrap the address space. An opcode is refused as unsupported or unknown exactly when the probe
  classification says so.
\<close>

theorem sqe_descriptor_agrees:
  "(\<forall>p. parse_copied bytes = Inr p \<longrightarrow> parsed_descriptor p = copied_descriptor bytes \<and>
      (\<forall>rw. ps_operation p = SoRead rw \<or> ps_operation p = SoWrite rw \<longrightarrow>
         unat (ib_address (rw_buffer rw)) + unat (ib_length (rw_buffer rw)) \<le> u64_max \<and> rw_offset rw \<noteq> - 1)) \<and>
   (parse_copied bytes = Inl UrUnsupportedOpcode \<longleftrightarrow>
      classify_submission_opcode (copied_opcode bytes) = SupKnownUnsupported) \<and>
   (parse_copied bytes = Inl UrUnknownOpcode \<longleftrightarrow>
      classify_submission_opcode (copied_opcode bytes) = SupUnknown)"
proof (intro conjI allI impI)
  fix p assume "parse_copied bytes = Inr p"
  then have op: "parse_operation bytes = Inr (ps_operation p)" "ps_user_data p = sqe_read_u64 bytes 32"
    by (auto simp: parse_copied_def)
  show "parsed_descriptor p = copied_descriptor bytes"
    using parse_operation_descriptor [OF op(1)] op(2)
    by (simp add: parsed_descriptor_def copied_descriptor_def copied_opcode_def copied_user_data_def)
  fix rw assume "ps_operation p = SoRead rw \<or> ps_operation p = SoWrite rw"
  then have "\<exists>fixed. parse_read_write bytes fixed = Inr rw"
    using op(1) by (auto simp: parse_operation_def Let_def split: if_splits)
  then show "unat (ib_address (rw_buffer rw)) + unat (ib_length (rw_buffer rw)) \<le> u64_max" "rw_offset rw \<noteq> - 1"
    using parse_read_write_buffer by blast+
qed (simp_all add: parse_copied_def parse_operation_rejects copied_opcode_def)

text \<open>A one-shot poll for readable data on descriptor 3, with user data 42.\<close>

definition ex_sqe :: "u8 list" where
  "ex_sqe = [6, 0, 0, 0, 3, 0, 0, 0, 0, 0, 0, 0, 0, 0, 0, 0, 0, 0, 0, 0, 0, 0, 0, 0, 0, 0, 0, 0, 1, 0, 0, 0,
     42, 0, 0, 0, 0, 0, 0, 0] @ replicate 24 0"

theorem sqe_descriptor_agrees_witness:
  "\<exists>p. parse_copied ex_sqe = Inr p \<and> parsed_descriptor p = copied_descriptor ex_sqe \<and>
     copied_descriptor ex_sqe = \<lparr>rd_user_data = 42, rd_operation = OpPollAdd\<rparr>"
proof -
  have "\<not> isl (parse_copied ex_sqe)" by code_simp
  then have "\<exists>p. parse_copied ex_sqe = Inr p" by (cases "parse_copied ex_sqe") auto
  moreover have "copied_descriptor ex_sqe = \<lparr>rd_user_data = 42, rd_operation = OpPollAdd\<rparr>" by code_simp
  ultimately show ?thesis using sqe_descriptor_agrees [of ex_sqe] by blast
qed

end
