(* ===== verification/Uring_Request_Inv.thy ===== *)
theory Uring_Request_Inv
  imports Uring_Request Generation_Domain
begin

unbundle bit_operations_syntax

text \<open>
  The invariant of the request registry: the free list is exactly the vacant slots that still have
  a generation, every live request and every unconsumed queue entry holds one terminal credit, a
  publication in flight is the one entry in state publishing, and a drained or closed registry
  keeps what its lifecycle promises. Each operation keeps it, and claims interpret the
  generation contract of \<open>Generation_Domain\<close>.
\<close>

section \<open>The invariant\<close>

definition live_slot :: "request_slot \<Rightarrow> bool" where
  "live_slot s \<longleftrightarrow> rqs_entry s \<noteq> None"

definition live_requests :: "request_registry \<Rightarrow> nat" where
  "live_requests r = length (filter live_slot (rr_slots r))"

definition published_entries :: "request_registry \<Rightarrow> nat" where
  "published_entries r = unat (rr_cq_tail r - rr_cq_head r)"

definition free_list_ok :: "request_registry \<Rightarrow> bool" where
  "free_list_ok r \<longleftrightarrow> distinct (rr_free_slots r) \<and> set (rr_free_slots r) =
     {i. i < length (rr_slots r) \<and> \<not> live_slot (rr_slots r ! i) \<and> rqs_generation (rr_slots r ! i) \<noteq> None} \<and>
     (\<forall>s \<in> set (rr_slots r). live_slot s \<longrightarrow> rqs_generation s \<noteq> None)"

definition credits_ok :: "request_registry \<Rightarrow> bool" where
  "credits_ok r \<longleftrightarrow> rr_terminal_credits r = live_requests r + published_entries r \<and>
     rr_terminal_credits r \<le> unat (rr_cq_entries r)"

definition publishing :: "entry_state \<Rightarrow> bool" where
  "publishing st = (case st of EsPublishing _ \<Rightarrow> True | _ \<Rightarrow> False)"

definition flight_ok :: "request_registry \<Rightarrow> bool" where
  "flight_ok r \<longleftrightarrow>
     (\<forall>rid. rr_publication_in_flight r = Some rid \<longrightarrow>
        (\<exists>e. req_entry r rid = Inr e \<and> publishing (re_state e))) \<and>
     (\<forall>i e. i < length (rr_slots r) \<longrightarrow> rqs_entry (rr_slots r ! i) = Some e \<longrightarrow> publishing (re_state e) \<longrightarrow>
        (\<exists>rid. rr_publication_in_flight r = Some rid \<and> ri_slot rid = i))"

definition completion_ok :: "request_entry \<Rightarrow> bool" where
  "completion_ok e =
     (case re_state e of
        EsCompletionPending c \<Rightarrow> cp_user_data c = rd_user_data (re_descriptor e)
      | EsPublishing c \<Rightarrow> cp_user_data c = rd_user_data (re_descriptor e)
      | _ \<Rightarrow> True)"

definition entries_ok :: "request_registry \<Rightarrow> bool" where
  "entries_ok r \<longleftrightarrow> (\<forall>s \<in> set (rr_slots r). \<forall>e. rqs_entry s = Some e \<longrightarrow> completion_ok e)"

definition lifecycle_ok :: "request_registry \<Rightarrow> bool" where
  "lifecycle_ok r \<longleftrightarrow>
     (rr_lifecycle r = RlDraining \<longrightarrow>
        (\<forall>s \<in> set (rr_slots r). \<forall>e. rqs_entry s = Some e \<longrightarrow> completion_pending (re_state e))) \<and>
     (rr_lifecycle r = RlClosed \<longrightarrow> (\<forall>s \<in> set (rr_slots r). rqs_entry s = None) \<and> rr_terminal_credits r = 0)"

definition geometry_ok :: "request_registry \<Rightarrow> bool" where
  "geometry_ok r \<longleftrightarrow> (\<exists>k \<le> 16. unat (rr_cq_entries r) = 2 ^ k) \<and> length (rr_slots r) = rr_capacity r"

definition req_ok :: "request_registry \<Rightarrow> bool" where
  "req_ok r \<longleftrightarrow> free_list_ok r \<and> credits_ok r \<and> flight_ok r \<and> entries_ok r \<and> lifecycle_ok r \<and> geometry_ok r"

lemma req_okI:
  "free_list_ok r \<Longrightarrow> credits_ok r \<Longrightarrow> flight_ok r \<Longrightarrow> entries_ok r \<Longrightarrow> lifecycle_ok r \<Longrightarrow> geometry_ok r \<Longrightarrow>
   req_ok r"
  by (simp add: req_ok_def)

lemma req_okD:
  assumes "req_ok r"
  shows "free_list_ok r" and "credits_ok r" and "flight_ok r" and "entries_ok r" and "lifecycle_ok r"
    and "geometry_ok r"
  using assms by (simp_all add: req_ok_def)

section \<open>Lookups\<close>

lemma req_entry_Inr_iff:
  "req_entry r rid = Inr e \<longleftrightarrow> ri_ring rid = rr_ring r \<and> ri_slot rid < length (rr_slots r) \<and>
     rqs_generation (rr_slots r ! ri_slot rid) = Some (ri_generation rid) \<and>
     rqs_entry (rr_slots r ! ri_slot rid) = Some e"
  by (auto simp: req_entry_def vec_get_iffs split: option.splits)

lemma req_entry_slot:
  assumes "req_entry r rid = Inr e"
  shows "ri_slot rid < length (rr_slots r)" and "rqs_entry (rr_slots r ! ri_slot rid) = Some e"
    and "live_slot (rr_slots r ! ri_slot rid)" and "rr_slots r ! ri_slot rid \<in> set (rr_slots r)"
    and "rqs_generation (rr_slots r ! ri_slot rid) = Some (ri_generation rid)"
  using assms by (auto simp: req_entry_Inr_iff live_slot_def)

lemma completion_ok_entry: "entries_ok r \<Longrightarrow> req_entry r rid = Inr e \<Longrightarrow> completion_ok e"
  unfolding entries_ok_def by (metis req_entry_slot(2,4))

lemma not_pending_active:
  assumes "lifecycle_ok r" and "req_entry r rid = Inr e"
  shows "\<not> completion_pending (re_state e) \<Longrightarrow> rr_lifecycle r \<noteq> RlDraining" and "rr_lifecycle r \<noteq> RlClosed"
  using assms req_entry_slot(2,4) [OF assms(2)] by (fastforce simp: lifecycle_ok_def)+

section \<open>One state change\<close>

lemma set_state_fields [simp]:
  "rr_ring (req_set_state r rid st) = rr_ring r"
  "rr_capacity (req_set_state r rid st) = rr_capacity r"
  "rr_free_slots (req_set_state r rid st) = rr_free_slots r"
  "rr_next_sequence (req_set_state r rid st) = rr_next_sequence r"
  "rr_lifecycle (req_set_state r rid st) = rr_lifecycle r"
  "rr_cq_entries (req_set_state r rid st) = rr_cq_entries r"
  "rr_cq_head (req_set_state r rid st) = rr_cq_head r"
  "rr_cq_tail (req_set_state r rid st) = rr_cq_tail r"
  "rr_terminal_credits (req_set_state r rid st) = rr_terminal_credits r"
  "rr_publication_in_flight (req_set_state r rid st) = rr_publication_in_flight r"
  "length (rr_slots (req_set_state r rid st)) = length (rr_slots r)"
  by (simp_all add: req_set_state_def)

lemma set_state_slots:
  assumes "req_entry r rid = Inr e"
  shows "rr_slots (req_set_state r rid st) =
    (rr_slots r)[ri_slot rid := (rr_slots r ! ri_slot rid)\<lparr>rqs_entry := Some (e\<lparr>re_state := st\<rparr>)\<rparr>]"
  using req_entry_slot(2) [OF assms] by (simp add: req_set_state_def)

lemma set_state_nth:
  assumes "req_entry r rid = Inr e"
  shows "rqs_generation (rr_slots (req_set_state r rid st) ! i) = rqs_generation (rr_slots r ! i)"
    and "live_slot (rr_slots (req_set_state r rid st) ! i) = live_slot (rr_slots r ! i)"
    and "rqs_entry (rr_slots (req_set_state r rid st) ! i) =
      (if i = ri_slot rid then Some (e\<lparr>re_state := st\<rparr>) else rqs_entry (rr_slots r ! i))"
  using req_entry_slot(1,2,3) [OF assms]
  by (auto simp: set_state_slots [OF assms] nth_list_update live_slot_def)

lemma set_state_mem:
  assumes "req_entry r rid = Inr e" and "s \<in> set (rr_slots (req_set_state r rid st))"
    and "rqs_entry s = Some e'"
  shows "e' = e\<lparr>re_state := st\<rparr> \<or> (\<exists>s' \<in> set (rr_slots r). rqs_entry s' = Some e')"
  using assms(2,3) unfolding set_state_slots [OF assms(1)] by (auto dest: set_list_update_cases)

lemma set_state_free_list:
  assumes "req_entry r rid = Inr e" and "free_list_ok r"
  shows "free_list_ok (req_set_state r rid st)"
proof -
  have "rqs_generation s \<noteq> None"
    if mem: "s \<in> set (rr_slots (req_set_state r rid st))" and live: "live_slot s" for s
  proof -
    obtain i where i: "i < length (rr_slots r)" "s = rr_slots (req_set_state r rid st) ! i"
      using mem by (auto simp: in_set_conv_nth)
    then have "live_slot (rr_slots r ! i)" "rqs_generation s = rqs_generation (rr_slots r ! i)"
      using live set_state_nth(1,2) [OF assms(1)] by simp_all
    then show ?thesis using assms(2) i(1) by (auto simp: free_list_ok_def)
  qed
  then show ?thesis
    using assms(2) unfolding free_list_ok_def set_state_fields set_state_nth(1,2) [OF assms(1)] by blast
qed

lemma set_state_live:
  assumes "req_entry r rid = Inr e"
  shows "live_requests (req_set_state r rid st) = live_requests r"
proof -
  let ?s = "(rr_slots r ! ri_slot rid)\<lparr>rqs_entry := Some (e\<lparr>re_state := st\<rparr>)\<rparr>"
  have "live_slot ?s" by (simp add: live_slot_def)
  with length_filter_update [of "ri_slot rid" "rr_slots r" live_slot ?s] req_entry_slot(1,3) [OF assms]
  show ?thesis by (simp add: live_requests_def set_state_slots [OF assms])
qed

lemma set_state_credits: "req_entry r rid = Inr e \<Longrightarrow> credits_ok r \<Longrightarrow> credits_ok (req_set_state r rid st)"
  by (simp add: credits_ok_def set_state_live published_entries_def)

lemma set_state_entries:
  assumes "req_entry r rid = Inr e" and "entries_ok r" and "completion_ok (e\<lparr>re_state := st\<rparr>)"
  shows "entries_ok (req_set_state r rid st)"
  using assms(2,3) set_state_mem [OF assms(1)] unfolding entries_ok_def by metis

lemma set_state_lifecycle:
  assumes "req_entry r rid = Inr e" and "lifecycle_ok r" and "\<not> completion_pending (re_state e)"
  shows "lifecycle_ok (req_set_state r rid st)"
  using not_pending_active [OF assms(2,1)] assms(3) by (simp add: lifecycle_ok_def)

lemma set_state_geometry: "geometry_ok r \<Longrightarrow> geometry_ok (req_set_state r rid st)"
  by (simp add: geometry_ok_def)

lemma set_state_entry:
  assumes "req_entry r rid = Inr e"
  shows "req_entry (req_set_state r rid st) rid = Inr (e\<lparr>re_state := st\<rparr>)"
    and "ri_slot rid' \<noteq> ri_slot rid \<Longrightarrow> req_entry (req_set_state r rid st) rid' = req_entry r rid'"
  using assms set_state_nth [OF assms]
  by (simp_all add: req_entry_Inr_iff) (simp add: req_entry_def vec_get_def set_state_slots [OF assms])

text \<open>Two tokens for one slot that both find its entry are equal.\<close>

lemma same_slot_same_id:
  "req_entry r rid = Inr e \<Longrightarrow> req_entry r rid' = Inr e' \<Longrightarrow> ri_slot rid = ri_slot rid' \<Longrightarrow> rid = rid'"
  by (simp add: req_entry_Inr_iff)

lemma set_state_flight:
  assumes "req_entry r rid = Inr e" and "flight_ok r" and "\<not> publishing (re_state e)" and "\<not> publishing st"
  shows "flight_ok (req_set_state r rid st)"
  unfolding flight_ok_def
proof (intro conjI allI impI)
  fix q assume q: "rr_publication_in_flight (req_set_state r rid st) = Some q"
  then obtain e' where e': "req_entry r q = Inr e'" "publishing (re_state e')"
    using assms(2) by (auto simp: flight_ok_def)
  with assms(1,3) have "ri_slot q \<noteq> ri_slot rid" by (auto simp: req_entry_Inr_iff)
  then show "\<exists>e. req_entry (req_set_state r rid st) q = Inr e \<and> publishing (re_state e)"
    using e' set_state_entry(2) [OF assms(1)] by auto
next
  fix i e'
  assume "i < length (rr_slots (req_set_state r rid st))"
    "rqs_entry (rr_slots (req_set_state r rid st) ! i) = Some e'" "publishing (re_state e')"
  then show "\<exists>q. rr_publication_in_flight (req_set_state r rid st) = Some q \<and> ri_slot q = i"
    using assms(2,4) by (auto simp: flight_ok_def set_state_nth [OF assms(1)] split: if_splits)
qed

lemma set_state_ok:
  assumes "req_ok r" and "req_entry r rid = Inr e" and "\<not> completion_pending (re_state e)"
    and "\<not> publishing (re_state e)" and "\<not> publishing st" and "completion_ok (e\<lparr>re_state := st\<rparr>)"
  shows "req_ok (req_set_state r rid st)"
  using assms req_okD [OF assms(1)]
  by (intro req_okI set_state_free_list set_state_credits set_state_flight set_state_entries
      set_state_lifecycle set_state_geometry)

section \<open>Clearing a slot\<close>

lemma clear_slot_eq:
  assumes "free_list_ok r" and "req_entry r rid = Inr e"
  shows "req_clear_slot r rid =
    (let g = checked_add u64_max (ri_generation rid) 1
     in (r\<lparr>rr_slots := (rr_slots r)[ri_slot rid := \<lparr>rqs_generation = g, rqs_entry = None\<rparr>],
          rr_free_slots := rr_free_slots r @ (if g = None then [] else [ri_slot rid])\<rparr>, Inr ()))"
proof -
  note slot = req_entry_slot [OF assms(2)]
  have "set (rr_free_slots r) \<subseteq> {..<length (rr_slots r)} - {ri_slot rid}" and "distinct (rr_free_slots r)"
    using assms(1) slot(3) by (auto simp: free_list_ok_def)
  then have "length (rr_free_slots r) \<le> card ({..<length (rr_slots r)} - {ri_slot rid})"
    by (metis card_mono distinct_card finite_Diff finite_lessThan)
  then have "length (rr_free_slots r) < length (rr_slots r)"
    using slot(1) by (simp add: card_Diff_singleton)
  then show ?thesis
    using assms(2) slot by (simp add: req_clear_slot_def vec_get_def req_entry_Inr_iff Let_def)
qed

definition req_cleared :: "request_registry \<Rightarrow> request_id \<Rightarrow> request_registry" where
  "req_cleared r rid = fst (req_clear_slot r rid)"

lemma cleared_fields:
  assumes "free_list_ok r" and "req_entry r rid = Inr e"
  shows "req_clear_slot r rid = (req_cleared r rid, Inr ())"
    and "rr_ring (req_cleared r rid) = rr_ring r" and "rr_capacity (req_cleared r rid) = rr_capacity r"
    and "rr_lifecycle (req_cleared r rid) = rr_lifecycle r"
    and "rr_cq_entries (req_cleared r rid) = rr_cq_entries r"
    and "rr_cq_head (req_cleared r rid) = rr_cq_head r" and "rr_cq_tail (req_cleared r rid) = rr_cq_tail r"
    and "rr_terminal_credits (req_cleared r rid) = rr_terminal_credits r"
    and "rr_publication_in_flight (req_cleared r rid) = rr_publication_in_flight r"
    and "rr_slots (req_cleared r rid) = (rr_slots r)[ri_slot rid :=
      \<lparr>rqs_generation = checked_add u64_max (ri_generation rid) 1, rqs_entry = None\<rparr>]"
    and "rr_free_slots (req_cleared r rid) = rr_free_slots r @
      (if checked_add u64_max (ri_generation rid) 1 = None then [] else [ri_slot rid])"
  unfolding req_cleared_def clear_slot_eq [OF assms] by (simp_all add: Let_def)

lemma cleared_live:
  assumes "free_list_ok r" and "req_entry r rid = Inr e"
  shows "live_requests r = Suc (live_requests (req_cleared r rid))"
proof -
  let ?s = "\<lparr>rqs_generation = checked_add u64_max (ri_generation rid) 1, rqs_entry = None\<rparr>"
  have "\<not> live_slot ?s" by (simp add: live_slot_def)
  with length_filter_update [of "ri_slot rid" "rr_slots r" live_slot ?s] req_entry_slot(1,3) [OF assms(2)]
  show ?thesis by (simp add: live_requests_def cleared_fields(10) [OF assms])
qed

lemma cleared_free_list:
  assumes "free_list_ok r" and "req_entry r rid = Inr e"
  shows "free_list_ok (req_cleared r rid)"
proof -
  note slot = req_entry_slot [OF assms(2)]
  have "ri_slot rid \<notin> set (rr_free_slots r)" using assms(1) slot(3) by (auto simp: free_list_ok_def)
  moreover have "\<forall>s \<in> set (rr_slots (req_cleared r rid)). live_slot s \<longrightarrow> rqs_generation s \<noteq> None"
    using assms(1) unfolding cleared_fields(10) [OF assms] free_list_ok_def
    by (auto dest!: set_list_update_cases simp: live_slot_def)
  moreover have "set (rr_free_slots (req_cleared r rid)) = {i. i < length (rr_slots (req_cleared r rid)) \<and>
      \<not> live_slot (rr_slots (req_cleared r rid) ! i) \<and> rqs_generation (rr_slots (req_cleared r rid) ! i) \<noteq> None}"
    using assms(1) slot(1,3) unfolding cleared_fields(10,11) [OF assms] free_list_ok_def
    by (auto simp: nth_list_update live_slot_def split: if_splits)
  ultimately show ?thesis
    using assms(1) unfolding free_list_ok_def cleared_fields(11) [OF assms] by auto
qed

lemma cleared_mem:
  assumes "free_list_ok r" and "req_entry r rid = Inr e" and "s \<in> set (rr_slots (req_cleared r rid))"
    and "rqs_entry s = Some e'"
  shows "s \<in> set (rr_slots r)"
  using assms(3,4) unfolding cleared_fields(10) [OF assms(1,2)] by (auto dest!: set_list_update_cases)

lemma cleared_entries:
  "free_list_ok r \<Longrightarrow> req_entry r rid = Inr e \<Longrightarrow> entries_ok r \<Longrightarrow> entries_ok (req_cleared r rid)"
  unfolding entries_ok_def by (metis cleared_mem)

lemma cleared_lifecycle:
  assumes "free_list_ok r" and "req_entry r rid = Inr e" and "lifecycle_ok r"
  shows "lifecycle_ok (req_cleared r rid)"
  using not_pending_active(2) [OF assms(3,2)] assms(3) cleared_mem [OF assms(1,2)]
  unfolding lifecycle_ok_def cleared_fields(4) [OF assms(1,2)] by metis

lemma cleared_geometry:
  "free_list_ok r \<Longrightarrow> req_entry r rid = Inr e \<Longrightarrow> geometry_ok r \<Longrightarrow> geometry_ok (req_cleared r rid)"
  by (simp add: geometry_ok_def cleared_fields)

lemma cleared_other_entry:
  assumes "free_list_ok r" and "req_entry r rid = Inr e" and "ri_slot q \<noteq> ri_slot rid"
  shows "req_entry (req_cleared r rid) q = req_entry r q"
  using assms(3) by (simp add: req_entry_def vec_get_def cleared_fields(2,10) [OF assms(1,2)])

lemma cleared_flight:
  assumes "free_list_ok r" and "req_entry r rid = Inr e" and "flight_ok r" and "\<not> publishing (re_state e)"
  shows "flight_ok (req_cleared r rid)"
  unfolding flight_ok_def
proof (intro conjI allI impI)
  fix q assume "rr_publication_in_flight (req_cleared r rid) = Some q"
  then obtain e' where e': "req_entry r q = Inr e'" "publishing (re_state e')"
    using assms(3) by (auto simp: flight_ok_def cleared_fields [OF assms(1,2)])
  with assms(2,4) have "ri_slot q \<noteq> ri_slot rid" by (auto simp: req_entry_Inr_iff)
  then show "\<exists>e. req_entry (req_cleared r rid) q = Inr e \<and> publishing (re_state e)"
    using e' cleared_other_entry [OF assms(1,2)] by auto
next
  fix i e'
  assume i: "i < length (rr_slots (req_cleared r rid))"
    "rqs_entry (rr_slots (req_cleared r rid) ! i) = Some e'" "publishing (re_state e')"
  then have "i \<noteq> ri_slot rid" by (auto simp: cleared_fields [OF assms(1,2)])
  with i show "\<exists>q. rr_publication_in_flight (req_cleared r rid) = Some q \<and> ri_slot q = i"
    using assms(3) by (auto simp: flight_ok_def cleared_fields [OF assms(1,2)])
qed

section \<open>Steps\<close>

text \<open>Every state-changing operation of the registry, whatever tokens its callers present.\<close>

inductive req_step :: "request_registry \<Rightarrow> request_registry \<Rightarrow> bool" where
  step_reserve: "req_step r (fst (req_reserve r d))"
| step_rollback: "req_step r (fst (req_rollback r t))"
| step_commit: "req_step r (fst (req_commit r t))"
| step_issue: "req_step r (fst (req_issue r t))"
| step_claim_terminal: "req_step r (fst (req_claim_terminal r rid cause))"
| step_claim_cancel: "req_step r (fst (req_claim_cancel r selector exclude))"
| step_finish_terminal: "req_step r (fst (req_finish_terminal r permit result flags))"
| step_publish: "req_step r (fst (req_publish r rid))"
| step_commit_publication: "req_step r (fst (req_commit_publication r p))"
| step_rollback_publication: "req_step r (fst (req_rollback_publication r p))"
| step_observe: "req_step r (fst (req_observe_completion_head r h))"
| step_begin_close: "req_step r (fst (req_begin_close r))"
| step_begin_draining: "req_step r (fst (req_begin_draining r))"
| step_discard_completion: "req_step r (fst (req_discard_completion r rid))"
| step_discard_published: "req_step r (fst (req_discard_published r))"
| step_finish_close: "req_step r (fst (req_finish_close r))"

text \<open>The shapes of state change the operations are made of.\<close>

inductive req_effect :: "request_registry \<Rightarrow> request_registry \<Rightarrow> bool" where
  eff_same: "req_effect r r"
| eff_reserve: "rr_lifecycle r = RlOpen \<Longrightarrow> rr_terminal_credits r < unat (rr_cq_entries r) \<Longrightarrow>
    rr_free_slots r \<noteq> [] \<Longrightarrow> i = last (rr_free_slots r) \<Longrightarrow> re_state e = EsReserved \<Longrightarrow>
    req_effect r (r\<lparr>rr_terminal_credits := Suc (rr_terminal_credits r), rr_next_sequence := n,
      rr_free_slots := butlast (rr_free_slots r),
      rr_slots := (rr_slots r)[i := (rr_slots r ! i)\<lparr>rqs_entry := Some e\<rparr>]\<rparr>)"
| eff_state: "req_entry r rid = Inr e \<Longrightarrow> \<not> completion_pending (re_state e) \<Longrightarrow> \<not> publishing (re_state e) \<Longrightarrow>
    \<not> publishing st \<Longrightarrow> completion_ok (e\<lparr>re_state := st\<rparr>) \<Longrightarrow>
    (terminal_claimed (re_state e) \<longrightarrow> terminal_claimed st) \<Longrightarrow> req_effect r (req_set_state r rid st)"
| eff_publish: "req_entry r rid = Inr e \<Longrightarrow> re_state e = EsCompletionPending c \<Longrightarrow>
    rr_publication_in_flight r = None \<Longrightarrow> rr_lifecycle r \<noteq> RlDraining \<Longrightarrow>
    req_effect r ((req_set_state r rid (EsPublishing c))\<lparr>rr_publication_in_flight := Some rid\<rparr>)"
| eff_unpublish: "req_entry r rid = Inr e \<Longrightarrow> re_state e = EsPublishing c \<Longrightarrow>
    rr_publication_in_flight r = Some rid \<Longrightarrow>
    req_effect r ((req_set_state r rid (EsCompletionPending c))\<lparr>rr_publication_in_flight := None\<rparr>)"
| eff_commit: "req_entry r rid = Inr e \<Longrightarrow> rr_publication_in_flight r = Some rid \<Longrightarrow>
    req_effect r ((req_cleared r rid)\<lparr>rr_cq_tail := rr_cq_tail r + 1, rr_publication_in_flight := None\<rparr>)"
| eff_drop: "req_entry r rid = Inr e \<Longrightarrow> \<not> publishing (re_state e) \<Longrightarrow>
    req_effect r ((req_cleared r rid)\<lparr>rr_terminal_credits := rr_terminal_credits r - 1\<rparr>)"
| eff_consume: "h - rr_cq_head r \<le> rr_cq_tail r - rr_cq_head r \<Longrightarrow>
    req_effect r (r\<lparr>rr_cq_head := h,
      rr_terminal_credits := rr_terminal_credits r - unat (h - rr_cq_head r)\<rparr>)"
| eff_closing: "rr_lifecycle r = RlOpen \<Longrightarrow> req_effect r (r\<lparr>rr_lifecycle := RlClosing\<rparr>)"
| eff_draining: "\<forall>s \<in> set (rr_slots r). \<forall>e. rqs_entry s = Some e \<longrightarrow> completion_pending (re_state e) \<Longrightarrow>
    req_effect r (r\<lparr>rr_lifecycle := RlDraining\<rparr>)"
| eff_closed: "\<forall>s \<in> set (rr_slots r). rqs_entry s = None \<Longrightarrow> rr_terminal_credits r = 0 \<Longrightarrow>
    req_effect r (r\<lparr>rr_lifecycle := RlClosed\<rparr>)"

lemmas state_preds = completion_pending_def publishing_def terminal_claimed_def completion_ok_def

lemma free_list_last:
  assumes "free_list_ok r" and "rr_free_slots r \<noteq> []"
  shows "last (rr_free_slots r) < length (rr_slots r)"
    and "rqs_entry (rr_slots r ! last (rr_free_slots r)) = None"
    and "\<exists>g. rqs_generation (rr_slots r ! last (rr_free_slots r)) = Some g"
  using last_in_set [OF assms(2)] assms(1) by (auto simp: free_list_ok_def live_slot_def)

lemma reserve_effect: "req_effect r (fst (req_reserve r d))"
  unfolding req_reserve_def
  by (auto simp: vec_get_iffs checked_iffs Let_def intro: eff_same eff_reserve split: option.splits)

lemma drop_effect:
  assumes "req_ok r" and "st \<noteq> RqPublishing"
  shows "req_effect r (fst (req_drop r rid st))"
proof (cases "req_require_state r rid st")
  case (Inl e)
  then show ?thesis by (simp add: req_drop_def eff_same)
next
  case (Inr u)
  then obtain e where e: "req_entry r rid = Inr e" "entry_state_public (re_state e) = st"
    by (auto simp: req_require_state_def split: if_splits)
  have np: "\<not> publishing (re_state e)" using e(2) assms(2) by (cases "re_state e") (auto simp: publishing_def)
  note f = req_okD(1) [OF assms(1)]
  have "1 \<le> rr_terminal_credits r"
    using cleared_live [OF f e(1)] req_okD(2) [OF assms(1)] by (simp add: credits_ok_def)
  then have "req_drop r rid st = ((req_cleared r rid)\<lparr>rr_terminal_credits := rr_terminal_credits r - 1\<rparr>, Inr ())"
    using Inr by (simp add: req_drop_def cleared_fields [OF f e(1)] req_refund_credits_def checked_sub_def)
  then show ?thesis using eff_drop [OF e(1) np] by simp
qed

lemma commit_effect: "req_effect r (fst (req_commit r t))"
  unfolding req_commit_def
  by (auto simp: state_preds intro: eff_same eff_state split: sum.splits)

lemma issue_effect: "req_effect r (fst (req_issue r t))"
  unfolding req_issue_def
  by (auto simp: state_preds Let_def intro: eff_same eff_state split: sum.splits)

lemma claim_terminal_effect: "req_effect r (fst (req_claim_terminal r rid cause))"
  unfolding req_claim_terminal_def
  by (auto simp: state_preds Let_def intro!: eff_same eff_state split: sum.splits entry_state.splits)

lemma claim_cancel_fst:
  "fst (req_claim_cancel r selector exclude) = r \<or>
   (\<exists>rid. fst (req_claim_cancel r selector exclude) = fst (req_claim_terminal r rid TcCancelled))"
  unfolding req_claim_cancel_def
  by (auto split: cancel_selector.splits sum.splits option.splits prod.splits) (metis fst_conv)+

lemma finish_terminal_effect: "req_effect r (fst (req_finish_terminal r permit result flags))"
  unfolding req_finish_terminal_def
  by (auto simp: state_preds intro: eff_same eff_state split: sum.splits)

lemma publish_effect: "req_effect r (fst (req_publish r rid))"
  unfolding req_publish_def
  by (auto intro: eff_same eff_publish split: sum.splits entry_state.splits)

lemma commit_publication_effect:
  assumes "free_list_ok r"
  shows "req_effect r (fst (req_commit_publication r p))"
  unfolding req_commit_publication_def
  by (auto simp: cleared_fields [OF assms] intro: eff_same eff_commit split: sum.splits)

lemma rollback_publication_effect: "req_effect r (fst (req_rollback_publication r p))"
  unfolding req_rollback_publication_def
  by (auto intro: eff_same eff_unpublish split: sum.splits)

lemma published_le_credits:
  assumes "credits_ok r"
  shows "unat (rr_cq_tail r - rr_cq_head r) \<le> rr_terminal_credits r"
    and "req_published_count r = Inr (rr_cq_tail r - rr_cq_head r)"
  using assms by (auto simp: credits_ok_def published_entries_def req_published_count_def Let_def word_le_nat_alt)

lemma consume_effect:
  assumes "credits_ok r" and "h - rr_cq_head r \<le> rr_cq_tail r - rr_cq_head r"
  shows "req_refund_credits (r\<lparr>rr_cq_head := h\<rparr>) (unat (h - rr_cq_head r)) =
    (r\<lparr>rr_cq_head := h, rr_terminal_credits := rr_terminal_credits r - unat (h - rr_cq_head r)\<rparr>, Inr ())"
  using published_le_credits(1) [OF assms(1)] assms(2)
  by (auto simp: req_refund_credits_def checked_sub_def word_le_nat_alt)

lemma observe_effect:
  assumes "credits_ok r"
  shows "req_effect r (fst (req_observe_completion_head r h))"
  unfolding req_observe_completion_head_def
  by (auto simp: published_le_credits(2) [OF assms] consume_effect [OF assms] Let_def not_less
      intro: eff_same eff_consume)

lemma discard_published_effect:
  assumes "credits_ok r"
  shows "req_effect r (fst (req_discard_published r))"
  using consume_effect [OF assms, of "rr_cq_tail r"] eff_consume [of "rr_cq_tail r" r]
  by (auto simp: req_discard_published_def published_le_credits(2) [OF assms] intro: eff_same)

lemma begin_close_effect: "req_effect r (fst (req_begin_close r))"
  by (auto simp: req_begin_close_def Let_def intro: eff_same eff_closing)

lemma begin_draining_effect: "req_effect r (fst (req_begin_draining r))"
  by (auto simp: req_begin_draining_def Let_def intro: eff_same eff_draining)

lemma finish_close_effect: "req_effect r (fst (req_finish_close r))"
  by (auto simp: req_finish_close_def intro: eff_same eff_closed split: request_lifecycle.splits)

lemma step_effect:
  assumes "req_ok r" and "req_step r r'"
  shows "req_effect r r'"
  using assms(2)
proof cases
  case (step_claim_cancel selector exclude)
  then show ?thesis
    using claim_cancel_fst [of r selector exclude] claim_terminal_effect by (auto intro: eff_same)
next
  case (step_discard_completion rid)
  then show ?thesis
    using drop_effect [OF assms(1)] by (auto simp: req_discard_completion_def intro: eff_same)
qed (use req_okD(1,2) [OF assms(1)] drop_effect [OF assms(1)] in
  \<open>auto simp: req_rollback_def intro: reserve_effect commit_effect issue_effect claim_terminal_effect
    finish_terminal_effect publish_effect commit_publication_effect rollback_publication_effect
    observe_effect discard_published_effect begin_close_effect begin_draining_effect finish_close_effect\<close>)

section \<open>Every effect keeps the invariant\<close>

text \<open>Each part of the invariant reads only some fields.\<close>

lemma ok_field_updates [simp]:
  "free_list_ok (r\<lparr>rr_publication_in_flight := x\<rparr>) = free_list_ok r"
  "free_list_ok (r\<lparr>rr_terminal_credits := c\<rparr>) = free_list_ok r"
  "free_list_ok (r\<lparr>rr_cq_tail := t\<rparr>) = free_list_ok r"
  "free_list_ok (r\<lparr>rr_cq_head := t\<rparr>) = free_list_ok r"
  "free_list_ok (r\<lparr>rr_lifecycle := l\<rparr>) = free_list_ok r"
  "credits_ok (r\<lparr>rr_publication_in_flight := x\<rparr>) = credits_ok r"
  "credits_ok (r\<lparr>rr_lifecycle := l\<rparr>) = credits_ok r"
  "entries_ok (r\<lparr>rr_publication_in_flight := x\<rparr>) = entries_ok r"
  "entries_ok (r\<lparr>rr_terminal_credits := c\<rparr>) = entries_ok r"
  "entries_ok (r\<lparr>rr_cq_tail := t\<rparr>) = entries_ok r"
  "entries_ok (r\<lparr>rr_cq_head := t\<rparr>) = entries_ok r"
  "entries_ok (r\<lparr>rr_lifecycle := l\<rparr>) = entries_ok r"
  "geometry_ok (r\<lparr>rr_publication_in_flight := x\<rparr>) = geometry_ok r"
  "geometry_ok (r\<lparr>rr_terminal_credits := c\<rparr>) = geometry_ok r"
  "geometry_ok (r\<lparr>rr_cq_tail := t\<rparr>) = geometry_ok r"
  "geometry_ok (r\<lparr>rr_cq_head := t\<rparr>) = geometry_ok r"
  "geometry_ok (r\<lparr>rr_lifecycle := l\<rparr>) = geometry_ok r"
  "lifecycle_ok (r\<lparr>rr_publication_in_flight := x\<rparr>) = lifecycle_ok r"
  "lifecycle_ok (r\<lparr>rr_cq_tail := t\<rparr>) = lifecycle_ok r"
  "lifecycle_ok (r\<lparr>rr_cq_head := t\<rparr>) = lifecycle_ok r"
  by (simp_all add: free_list_ok_def credits_ok_def entries_ok_def geometry_ok_def lifecycle_ok_def
      live_requests_def published_entries_def)

lemma ok_entry_updates [simp]:
  "req_entry (r\<lparr>rr_publication_in_flight := x\<rparr>) = req_entry r"
  "req_entry (r\<lparr>rr_terminal_credits := c\<rparr>) = req_entry r"
  "req_entry (r\<lparr>rr_cq_tail := t\<rparr>) = req_entry r"
  "req_entry (r\<lparr>rr_cq_head := t\<rparr>) = req_entry r"
  "req_entry (r\<lparr>rr_lifecycle := l\<rparr>) = req_entry r"
  by (simp_all add: req_entry_def fun_eq_iff)

lemma ok_flight_updates [simp]:
  "flight_ok (r\<lparr>rr_terminal_credits := c\<rparr>) = flight_ok r"
  "flight_ok (r\<lparr>rr_cq_tail := t\<rparr>) = flight_ok r"
  "flight_ok (r\<lparr>rr_cq_head := t\<rparr>) = flight_ok r"
  "flight_ok (r\<lparr>rr_lifecycle := l\<rparr>) = flight_ok r"
  by (simp_all add: flight_ok_def)

lemma lifecycle_ok_refund [simp]:
  "lifecycle_ok r \<Longrightarrow> lifecycle_ok (r\<lparr>rr_terminal_credits := rr_terminal_credits r - n\<rparr>)"
  by (simp add: lifecycle_ok_def)

lemma flight_entry:
  "flight_ok r \<Longrightarrow> rr_publication_in_flight r = Some q \<Longrightarrow> \<exists>e. req_entry r q = Inr e \<and> publishing (re_state e)"
  unfolding flight_ok_def by blast

lemma flight_slot:
  "flight_ok r \<Longrightarrow> i < length (rr_slots r) \<Longrightarrow> rqs_entry (rr_slots r ! i) = Some e \<Longrightarrow> publishing (re_state e) \<Longrightarrow>
   \<exists>q. rr_publication_in_flight r = Some q \<and> ri_slot q = i"
  unfolding flight_ok_def by blast

lemma flight_okI:
  "(\<And>q. rr_publication_in_flight r = Some q \<Longrightarrow> \<exists>e. req_entry r q = Inr e \<and> publishing (re_state e)) \<Longrightarrow>
   (\<And>i e. i < length (rr_slots r) \<Longrightarrow> rqs_entry (rr_slots r ! i) = Some e \<Longrightarrow> publishing (re_state e) \<Longrightarrow>
      \<exists>q. rr_publication_in_flight r = Some q \<and> ri_slot q = i) \<Longrightarrow> flight_ok r"
  unfolding flight_ok_def by blast

lemma eff_reserve_ok:
  fixes r e i n
  defines "r' \<equiv> r\<lparr>rr_terminal_credits := Suc (rr_terminal_credits r), rr_next_sequence := n,
      rr_free_slots := butlast (rr_free_slots r),
      rr_slots := (rr_slots r)[i := (rr_slots r ! i)\<lparr>rqs_entry := Some e\<rparr>]\<rparr>"
  assumes ok: "req_ok r" and life: "rr_lifecycle r = RlOpen"
    and room: "rr_terminal_credits r < unat (rr_cq_entries r)"
    and free: "rr_free_slots r \<noteq> []" "i = last (rr_free_slots r)" and e: "re_state e = EsReserved"
  shows "req_ok r'"
proof (rule req_okI)
  note parts = req_okD [OF ok]
  note last = free_list_last [OF parts(1) free(1), folded free(2)]
  let ?s = "(rr_slots r ! i)\<lparr>rqs_entry := Some e\<rparr>"
  have nl: "\<not> live_slot (rr_slots r ! i)" "live_slot ?s" using last(2) by (simp_all add: live_slot_def)
  have fl: "rr_free_slots r = butlast (rr_free_slots r) @ [i]" using free by simp
  then have d: "distinct (butlast (rr_free_slots r) @ [i])" using parts(1) by (simp add: free_list_ok_def)
  then have sb: "set (butlast (rr_free_slots r)) = set (rr_free_slots r) - {i}"
    by (subst (2) fl) auto
  have "\<forall>s \<in> set (rr_slots r'). live_slot s \<longrightarrow> rqs_generation s \<noteq> None"
    using parts(1) last(3) by (auto simp: r'_def free_list_ok_def dest!: set_list_update_cases)
  then show "free_list_ok r'"
    using parts(1) last(1) nl d unfolding free_list_ok_def r'_def
    by (auto simp: nth_list_update sb)
  show "credits_ok r'"
    using length_filter_update [OF last(1), of live_slot ?s] nl parts(2) room
    by (simp add: credits_ok_def live_requests_def published_entries_def r'_def)
  show "entries_ok r'"
    using parts(4) e by (auto simp: entries_ok_def r'_def completion_ok_def dest!: set_list_update_cases)
  show "lifecycle_ok r'" using life by (simp add: lifecycle_ok_def r'_def)
  show "geometry_ok r'" using parts(6) by (simp add: geometry_ok_def r'_def)
  have old: "req_entry r' q = req_entry r q" if "ri_slot q \<noteq> i" for q
    using that by (simp add: req_entry_def r'_def vec_get_def)
  show "flight_ok r'"
  proof (rule flight_okI)
    fix q assume "rr_publication_in_flight r' = Some q"
    then obtain e' where "req_entry r q = Inr e'" "publishing (re_state e')"
      using flight_entry [OF parts(3)] by (auto simp: r'_def)
    moreover from this(1) last(2) have "ri_slot q \<noteq> i" by (auto simp: req_entry_Inr_iff)
    ultimately show "\<exists>e. req_entry r' q = Inr e \<and> publishing (re_state e)" using old by auto
  next
    fix j e' assume j: "j < length (rr_slots r')" "rqs_entry (rr_slots r' ! j) = Some e'" "publishing (re_state e')"
    then have "j \<noteq> i" using e by (auto simp: r'_def publishing_def)
    with j show "\<exists>q. rr_publication_in_flight r' = Some q \<and> ri_slot q = j"
      using flight_slot [OF parts(3), of j e'] by (simp add: r'_def)
  qed
qed

lemma eff_publish_ok:
  assumes ok: "req_ok r" and e: "req_entry r rid = Inr e" "re_state e = EsCompletionPending c"
    and fl: "rr_publication_in_flight r = None" and nd: "rr_lifecycle r \<noteq> RlDraining"
  shows "req_ok ((req_set_state r rid (EsPublishing c))\<lparr>rr_publication_in_flight := Some rid\<rparr>)"
proof -
  note parts = req_okD [OF ok]
  have c: "completion_ok (e\<lparr>re_state := EsPublishing c\<rparr>)"
    using completion_ok_entry [OF parts(4) e(1)] e(2) by (simp add: completion_ok_def)
  have l: "lifecycle_ok (req_set_state r rid (EsPublishing c))"
    using not_pending_active(2) [OF parts(5) e(1)] nd by (simp add: lifecycle_ok_def)
  have f: "flight_ok ((req_set_state r rid (EsPublishing c))\<lparr>rr_publication_in_flight := Some rid\<rparr>)"
    using parts(3) fl set_state_entry(1) [OF e(1)] unfolding flight_ok_def
    by (auto simp: publishing_def set_state_nth [OF e(1)] split: if_splits)
  show ?thesis
    using parts l f c e(1)
    by (intro req_okI) (simp_all add: set_state_free_list set_state_credits set_state_entries set_state_geometry)
qed

lemma eff_unpublish_ok:
  assumes ok: "req_ok r" and e: "req_entry r rid = Inr e" "re_state e = EsPublishing c"
    and fl: "rr_publication_in_flight r = Some rid"
  shows "req_ok ((req_set_state r rid (EsCompletionPending c))\<lparr>rr_publication_in_flight := None\<rparr>)"
proof -
  note parts = req_okD [OF ok]
  have c: "completion_ok (e\<lparr>re_state := EsCompletionPending c\<rparr>)"
    using completion_ok_entry [OF parts(4) e(1)] e(2) by (simp add: completion_ok_def)
  have l: "lifecycle_ok (req_set_state r rid (EsCompletionPending c))"
    using e(2) by (intro set_state_lifecycle [OF e(1) parts(5)]) (simp add: completion_pending_def)
  have f: "flight_ok ((req_set_state r rid (EsCompletionPending c))\<lparr>rr_publication_in_flight := None\<rparr>)"
    using parts(3) fl unfolding flight_ok_def
    by (auto simp: publishing_def set_state_nth [OF e(1)] split: if_splits)
  show ?thesis
    using parts l f c e(1)
    by (intro req_okI) (simp_all add: set_state_free_list set_state_credits set_state_entries set_state_geometry)
qed

lemma tail_advance:
  assumes "geometry_ok r" and "published_entries r < unat (rr_cq_entries r)"
  shows "published_entries (r\<lparr>rr_cq_tail := rr_cq_tail r + 1\<rparr>) = Suc (published_entries r)"
proof -
  let ?w = "rr_cq_tail r - rr_cq_head r"
  have eq: "rr_cq_tail r + 1 - rr_cq_head r = ?w + 1" by (simp add: algebra_simps)
  have "unat ?w + unat (1 :: u32) < 2 ^ LENGTH(32)"
    using assms(2) unsigned_less [of "rr_cq_entries r", where ?'a = nat]
    by (simp add: published_entries_def)
  then have "unat (?w + 1) = unat ?w + unat (1 :: u32)" by (rule unat_add_lem [THEN iffD1])
  then show ?thesis by (simp add: published_entries_def eq)
qed

lemma eff_commit_ok:
  assumes ok: "req_ok r" and e: "req_entry r rid = Inr e" and fl: "rr_publication_in_flight r = Some rid"
  shows "req_ok ((req_cleared r rid)\<lparr>rr_cq_tail := rr_cq_tail r + 1, rr_publication_in_flight := None\<rparr>)"
proof -
  note parts = req_okD [OF ok]
  note f = cleared_fields [OF parts(1) e]
  note live = cleared_live [OF parts(1) e]
  have "published_entries r < unat (rr_cq_entries r)" using parts(2) live by (simp add: credits_ok_def)
  then have p: "unat (rr_cq_tail r + 1 - rr_cq_head r) = Suc (published_entries r)"
    using tail_advance [OF parts(6)] by (simp add: published_entries_def)
  have cr: "credits_ok ((req_cleared r rid)\<lparr>rr_cq_tail := rr_cq_tail r + 1, rr_publication_in_flight := None\<rparr>)"
    using parts(2) live p by (simp add: credits_ok_def published_entries_def live_requests_def f)
  have fo: "flight_ok ((req_cleared r rid)\<lparr>rr_publication_in_flight := None\<rparr>)"
  proof (rule flight_okI)
    fix i e' assume i: "i < length (rr_slots ((req_cleared r rid)\<lparr>rr_publication_in_flight := None\<rparr>))"
      "rqs_entry (rr_slots ((req_cleared r rid)\<lparr>rr_publication_in_flight := None\<rparr>) ! i) = Some e'"
      "publishing (re_state e')"
    then have "i \<noteq> ri_slot rid" by (auto simp: f)
    with i have False using flight_slot [OF parts(3), of i e'] fl by (auto simp: f)
    then show "\<exists>q. rr_publication_in_flight ((req_cleared r rid)\<lparr>rr_publication_in_flight := None\<rparr>) = Some q \<and>
      ri_slot q = i" by simp
  qed simp
  show ?thesis
    using parts cr fo e
    by (intro req_okI)
      (simp_all add: cleared_free_list cleared_entries cleared_lifecycle cleared_geometry flight_ok_def)
qed

lemma eff_drop_ok:
  assumes ok: "req_ok r" and e: "req_entry r rid = Inr e" "\<not> publishing (re_state e)"
  shows "req_ok ((req_cleared r rid)\<lparr>rr_terminal_credits := rr_terminal_credits r - 1\<rparr>)"
proof -
  note parts = req_okD [OF ok]
  note f = cleared_fields [OF parts(1) e(1)]
  have cr: "credits_ok ((req_cleared r rid)\<lparr>rr_terminal_credits := rr_terminal_credits r - 1\<rparr>)"
    using parts(2) cleared_live [OF parts(1) e(1)]
    by (simp add: credits_ok_def published_entries_def live_requests_def f)
  have "lifecycle_ok ((req_cleared r rid)\<lparr>rr_terminal_credits := rr_terminal_credits r - 1\<rparr>)"
    using lifecycle_ok_refund [OF cleared_lifecycle [OF parts(1) e(1) parts(5)], of 1] by (simp add: f)
  then show ?thesis
    using parts cr e by (intro req_okI)
      (simp_all add: cleared_free_list cleared_entries cleared_geometry cleared_flight)
qed

lemma eff_consume_ok:
  assumes ok: "req_ok r" and h: "h - rr_cq_head r \<le> rr_cq_tail r - rr_cq_head r"
  shows "req_ok (r\<lparr>rr_cq_head := h, rr_terminal_credits := rr_terminal_credits r - unat (h - rr_cq_head r)\<rparr>)"
proof -
  note parts = req_okD [OF ok]
  have "rr_cq_tail r - h = (rr_cq_tail r - rr_cq_head r) - (h - rr_cq_head r)" by simp
  then have "unat (rr_cq_tail r - h) + unat (h - rr_cq_head r) = unat (rr_cq_tail r - rr_cq_head r)"
    using h by (simp only: unat_sub) (simp add: word_le_nat_alt)
  then have "credits_ok (r\<lparr>rr_cq_head := h,
      rr_terminal_credits := rr_terminal_credits r - unat (h - rr_cq_head r)\<rparr>)"
    using parts(2) by (auto simp: credits_ok_def published_entries_def live_requests_def)
  moreover have "lifecycle_ok (r\<lparr>rr_cq_head := h,
      rr_terminal_credits := rr_terminal_credits r - unat (h - rr_cq_head r)\<rparr>)"
    using parts(5) by (simp add: lifecycle_ok_def)
  ultimately show ?thesis using parts by (intro req_okI) simp_all
qed

lemma effect_ok: "req_effect r r' \<Longrightarrow> req_ok r \<Longrightarrow> req_ok r'"
proof (induction rule: req_effect.induct)
  case (eff_state r rid e st)
  then show ?case by (intro set_state_ok)
next
  case (eff_drop r rid e)
  then show ?case by (intro eff_drop_ok)
next
  case (eff_closing r)
  then show ?case using req_okD [of r] by (intro req_okI) (simp_all add: lifecycle_ok_def)
next
  case (eff_draining r)
  then show ?case using req_okD [of r] by (intro req_okI) (simp_all add: lifecycle_ok_def)
next
  case (eff_closed r)
  then show ?case using req_okD [of r] by (intro req_okI) (simp_all add: lifecycle_ok_def)
qed (auto intro: eff_reserve_ok eff_publish_ok eff_unpublish_ok eff_commit_ok eff_consume_ok)

lemma req_step_ok: "req_ok r \<Longrightarrow> req_step r r' \<Longrightarrow> req_ok r'"
  using step_effect effect_ok by blast

lemma req_steps_ok: "req_step\<^sup>*\<^sup>* r r' \<Longrightarrow> req_ok r \<Longrightarrow> req_ok r'"
  by (induction rule: rtranclp_induct) (auto intro: req_step_ok)

section \<open>Claims as a generation domain\<close>

definition claim_open :: "request_registry \<Rightarrow> request_id \<Rightarrow> bool" where
  "claim_open r rid \<longleftrightarrow> (\<exists>e. req_entry r rid = Inr e \<and> \<not> terminal_claimed (re_state e))"

text \<open>The generation the next request in slot \<open>i\<close> will carry; past the last one there is none.\<close>

definition slot_next_generation :: "nat \<Rightarrow> request_registry \<Rightarrow> nat" where
  "slot_next_generation i r =
     (if i < length (rr_slots r) then
        case rqs_generation (rr_slots r ! i) of
          None \<Rightarrow> Suc u64_max
        | Some g \<Rightarrow> if live_slot (rr_slots r ! i) then Suc g else g
      else 0)"

definition generations_ok :: "request_registry \<Rightarrow> bool" where
  "generations_ok r \<longleftrightarrow> (\<forall>i g. i < length (rr_slots r) \<longrightarrow> rqs_generation (rr_slots r ! i) = Some g \<longrightarrow> g \<le> u64_max)"

text \<open>What one effect does to one slot: nothing, a state change, a new request, or a clear.\<close>

definition slot_change :: "request_slot \<Rightarrow> request_slot \<Rightarrow> bool" where
  "slot_change s t \<longleftrightarrow> t = s
     \<or> (\<exists>e st. rqs_entry s = Some e \<and> t = s\<lparr>rqs_entry := Some (e\<lparr>re_state := st\<rparr>)\<rparr> \<and>
          (terminal_claimed (re_state e) \<longrightarrow> terminal_claimed st))
     \<or> (\<exists>e. rqs_entry s = None \<and> t = s\<lparr>rqs_entry := Some e\<rparr>)
     \<or> (\<exists>g. rqs_entry s \<noteq> None \<and> rqs_generation s = Some g \<and>
          t = \<lparr>rqs_generation = checked_add u64_max g 1, rqs_entry = None\<rparr>)"

lemma effect_frame:
  assumes "req_effect r r'" and "req_ok r"
  shows "rr_ring r' = rr_ring r" and "length (rr_slots r') = length (rr_slots r)"
  using assms by (induction rule: req_effect.induct) (auto simp: cleared_fields dest: req_okD(1))

lemma effect_slot:
  assumes "req_effect r r'" and "req_ok r" and "i < length (rr_slots r)"
  shows "slot_change (rr_slots r ! i) (rr_slots r' ! i)"
  using assms
proof (induction rule: req_effect.induct)
  case (eff_reserve r j e n)
  then show ?case
    using free_list_last(2) [OF req_okD(1)]
    by (cases "i = j") (auto simp: slot_change_def)
next
  case (eff_state r rid e st)
  then show ?case
    using req_entry_slot [OF eff_state.hyps(1)]
    by (cases "i = ri_slot rid") (auto simp: slot_change_def set_state_slots)
next
  case (eff_publish r rid e c)
  then show ?case
    using req_entry_slot [OF eff_publish.hyps(1)]
    by (cases "i = ri_slot rid") (auto simp: slot_change_def set_state_slots terminal_claimed_def)
next
  case (eff_unpublish r rid e c)
  then show ?case
    using req_entry_slot [OF eff_unpublish.hyps(1)]
    by (cases "i = ri_slot rid") (auto simp: slot_change_def set_state_slots terminal_claimed_def)
next
  case (eff_commit r rid e)
  then show ?case
    using req_entry_slot [OF eff_commit.hyps(1)] req_okD(1) [of r]
    by (cases "i = ri_slot rid") (auto simp: slot_change_def cleared_fields)
next
  case (eff_drop r rid e)
  then show ?case
    using req_entry_slot [OF eff_drop.hyps(1)] req_okD(1) [of r]
    by (cases "i = ri_slot rid") (auto simp: slot_change_def cleared_fields)
qed (simp_all add: slot_change_def)

lemma slot_change_generation:
  assumes "slot_change s t" and "rqs_generation s = Some g"
  shows "rqs_generation t = Some g \<and> (live_slot s \<longrightarrow> live_slot t) \<or>
    live_slot s \<and> \<not> live_slot t \<and> rqs_generation t = checked_add u64_max g 1"
  using assms by (auto simp: slot_change_def live_slot_def)

lemma slot_change_none: "slot_change s t \<Longrightarrow> rqs_generation s = None \<Longrightarrow> rqs_generation t = None"
  by (auto simp: slot_change_def)

lemma effect_generations:
  assumes "req_effect r r'" and "req_ok r" and "generations_ok r"
  shows "generations_ok r'"
  unfolding generations_ok_def
proof (intro allI impI)
  fix i g assume i: "i < length (rr_slots r')" and g: "rqs_generation (rr_slots r' ! i) = Some g"
  have i': "i < length (rr_slots r)" using i effect_frame(2) [OF assms(1,2)] by simp
  note ch = effect_slot [OF assms(1,2) i']
  obtain h where h: "rqs_generation (rr_slots r ! i) = Some h" using slot_change_none [OF ch] g by fastforce
  have "h \<le> u64_max" using assms(3) i' h by (auto simp: generations_ok_def)
  then show "g \<le> u64_max" using slot_change_generation [OF ch h] g by (auto simp: checked_add_def split: if_splits)
qed

lemma effect_next_generation:
  assumes "req_effect r r'" and "req_ok r" and "generations_ok r"
  shows "slot_next_generation i r \<le> slot_next_generation i r'"
proof (cases "i < length (rr_slots r)")
  case True
  note ch = effect_slot [OF assms(1,2) True]
  show ?thesis
  proof (cases "rqs_generation (rr_slots r ! i)")
    case None
    then show ?thesis
      using slot_change_none [OF ch] True effect_frame(2) [OF assms(1,2)] by (simp add: slot_next_generation_def)
  next
    case (Some g)
    moreover have "g \<le> u64_max" using assms(3) True Some by (auto simp: generations_ok_def)
    ultimately show ?thesis
      using slot_change_generation [OF ch Some] True effect_frame(2) [OF assms(1,2)]
      by (auto simp: slot_next_generation_def checked_add_def)
  qed
next
  case False
  then show ?thesis by (simp add: slot_next_generation_def)
qed

lemma claim_open_slot:
  "claim_open r rid \<longleftrightarrow> ri_ring rid = rr_ring r \<and> ri_slot rid < length (rr_slots r) \<and>
     rqs_generation (rr_slots r ! ri_slot rid) = Some (ri_generation rid) \<and>
     (\<exists>e. rqs_entry (rr_slots r ! ri_slot rid) = Some e \<and> \<not> terminal_claimed (re_state e))"
  by (auto simp: claim_open_def req_entry_Inr_iff)

lemma effect_claim_fresh:
  assumes "req_effect r r'" and "req_ok r" and "claim_open r' rid"
  shows "claim_open r rid \<or> slot_next_generation (ri_slot rid) r \<le> ri_generation rid"
proof -
  note frame = effect_frame [OF assms(1,2)]
  have i: "ri_slot rid < length (rr_slots r)" using assms(3) frame by (simp add: claim_open_slot)
  show ?thesis
    using effect_slot [OF assms(1,2) i] assms(3) i frame
    unfolding slot_change_def claim_open_slot
    by (auto simp: slot_next_generation_def live_slot_def)
qed

text \<open>The requests of one slot: a claim that is open once and then taken never opens again.\<close>

interpretation claims: generation_domain "\<lambda>r. req_ok r \<and> generations_ok r" req_step
    "\<lambda>r rid. ri_slot rid = i \<and> claim_open r rid" ri_generation "slot_next_generation i" for i
proof unfold_locales
  fix s t assume "req_ok s \<and> generations_ok s" "req_step s t"
  then show "req_ok t \<and> generations_ok t" using step_effect effect_ok effect_generations by blast
next
  fix s k assume "req_ok s \<and> generations_ok s" "ri_slot k = i \<and> claim_open s k"
  then show "ri_generation k < slot_next_generation i s"
    by (auto simp: claim_open_slot slot_next_generation_def live_slot_def)
next
  fix s t assume "req_ok s \<and> generations_ok s" "req_step s t"
  then show "slot_next_generation i s \<le> slot_next_generation i t"
    using step_effect effect_next_generation by blast
next
  fix s t k assume "req_ok s \<and> generations_ok s" "req_step s t" "ri_slot k = i \<and> claim_open t k"
  then show "(ri_slot k = i \<and> claim_open s k) \<or> slot_next_generation i s \<le> ri_generation k"
    using step_effect effect_claim_fresh by blast
qed

end
