(* ===== verification/Uring_Request_Props.thy ===== *)
theory Uring_Request_Props
  imports Uring_Request_Inv
begin

unbundle bit_operations_syntax

text \<open>
  What the request registry promises from its creation on: accepted requests cannot lose their
  completion for want of queue space, a request has one terminal outcome, and cancellation by
  user data takes the oldest cancellable request.
\<close>

section \<open>Initial state\<close>

lemma req_new_ok:
  assumes "req_new alloc_ok ring cap cq = Inr r"
  shows "req_ok r" and "generations_ok r"
proof -
  have r: "rr_slots r = replicate cap \<lparr>rqs_generation = Some 1, rqs_entry = None\<rparr>"
    "rr_free_slots r = rev [0..<cap]" "rr_lifecycle r = RlOpen" "rr_cq_entries r = cq"
    "rr_cq_head r = rr_cq_tail r" "rr_terminal_credits r = 0" "rr_publication_in_flight r = None"
    "rr_capacity r = cap"
    and cq: "0 < unat cq" "unat cq \<le> 2 ^ 16" "next_power_from 1 (unat cq) = unat cq"
    using assms
    by (auto simp: req_new_def is_power_of_two_u32_def ioring_max_cq_entries_def unat_gt_0 split: if_splits)
  obtain j where j: "unat cq = 2 ^ j" using next_power_of_two_spec [OF cq(1,2)] cq(3) by auto
  then have "j \<le> 16" using cq(2) power_le_imp_le_exp [of "2 :: nat" j 16] by simp
  with j show "req_ok r"
    by (auto simp: req_ok_def free_list_ok_def credits_ok_def flight_ok_def entries_ok_def lifecycle_ok_def
        geometry_ok_def r live_slot_def live_requests_def published_entries_def)
  show "generations_ok r" by (simp add: generations_ok_def r u64_max_def)
qed

lemma reachable_ok:
  assumes "req_new alloc_ok ring cap cq = Inr r0" and "req_step\<^sup>*\<^sup>* r0 r"
  shows "req_ok r" and "generations_ok r"
  using claims.inv_steps [OF assms(2)] req_new_ok [OF assms(1)] by blast+

lemma effect_cq_entries: "req_effect r r' \<Longrightarrow> req_ok r \<Longrightarrow> rr_cq_entries r' = rr_cq_entries r"
  by (induction rule: req_effect.induct) (auto simp: cleared_fields dest: req_okD(1))

lemma reachable_cq_entries:
  assumes "req_new alloc_ok ring cap cq = Inr r0" and "req_step\<^sup>*\<^sup>* r0 r"
  shows "rr_cq_entries r = cq"
  using assms(2)
proof (induction rule: rtranclp_induct)
  case base
  show ?case using assms(1) by (auto simp: req_new_def split: if_splits)
next
  case (step s t)
  have "req_ok s" by (rule reachable_ok [OF assms(1) step.hyps(1)])
  then show ?case using step effect_cq_entries step_effect by metis
qed

section \<open>Queue indexes\<close>

lemma ring_mask:
  assumes "unat n = 2 ^ k" and "k \<le> 16"
  shows "c AND (n - 1) = take_bit k (c :: u32)"
proof -
  have "of_nat (unat n) = n" by simp
  then have "n = 2 ^ k" unfolding assms(1) by simp
  then show ?thesis by (simp add: take_bit_eq_mask mask_eq_exp_minus_1)
qed

lemma queue_slots_apart:
  assumes "k \<le> 16" and "take_bit k a = take_bit k (b :: u32)" and "unat (a - b) < 2 ^ k"
  shows "a = b"
proof -
  have "take_bit k (uint a) = take_bit k (uint b)"
    using arg_cong [OF assms(2), of uint] by (simp only: unsigned_take_bit_eq)
  then have "uint a mod 2 ^ k = uint b mod 2 ^ k" by (simp add: take_bit_eq_mod)
  then have "2 ^ k dvd uint a - uint b" by (rule mod_eq_dvd_iff [THEN iffD1])
  moreover have "(2 :: int) ^ k dvd 2 ^ 32" using assms(1) by (intro le_imp_power_dvd) simp
  ultimately have "2 ^ k dvd (uint a - uint b) mod 2 ^ 32" by (simp add: dvd_mod)
  then have "2 ^ k dvd uint (a - b)" by (simp add: uint_word_ariths)
  moreover have "uint (a - b) < 2 ^ k" using assms(3) by (metis of_nat_less_numeral_power_cancel_iff uint_nat)
  ultimately have "uint (a - b) = 0" by (metis uint_ge_0 zdvd_not_zless order_le_less)
  then show ?thesis by (simp add: uint_0_iff)
qed

section \<open>Publication\<close>

lemma publish_pending:
  assumes ok: "req_ok r" and e: "req_entry r rid = Inr e" "re_state e = EsCompletionPending c"
    and fl: "rr_publication_in_flight r = None" and nd: "rr_lifecycle r \<noteq> RlDraining"
  shows "req_publish r rid =
    ((req_set_state r rid (EsPublishing c))\<lparr>rr_publication_in_flight := Some rid\<rparr>,
     Inr \<lparr>pb_id = rid, pb_completion = c, pb_slot = rr_cq_tail r AND (rr_cq_entries r - 1),
          pb_new_tail = rr_cq_tail r + 1\<rparr>)"
    and "published_entries r < unat (rr_cq_entries r)"
proof -
  note parts = req_okD [OF ok]
  show room: "published_entries r < unat (rr_cq_entries r)"
    using parts(2) cleared_live [OF parts(1) e(1)] by (simp add: credits_ok_def)
  show "req_publish r rid =
    ((req_set_state r rid (EsPublishing c))\<lparr>rr_publication_in_flight := Some rid\<rparr>,
     Inr \<lparr>pb_id = rid, pb_completion = c, pb_slot = rr_cq_tail r AND (rr_cq_entries r - 1),
          pb_new_tail = rr_cq_tail r + 1\<rparr>)"
    using e fl nd not_pending_active(2) [OF parts(5) e(1)] room
    by (simp add: req_publish_def published_le_credits(2) [OF parts(2)] published_entries_def word_le_nat_alt)
qed

lemma commit_published:
  assumes ok: "req_ok r" and e: "req_entry r rid = Inr e" "re_state e = EsPublishing c"
    and fl: "rr_publication_in_flight r = Some rid"
    and p: "pb_id p = rid" "pb_completion p = c" "pb_slot p = rr_cq_tail r AND (rr_cq_entries r - 1)"
      "pb_new_tail p = rr_cq_tail r + 1"
  shows "req_commit_publication r p =
    ((req_cleared r rid)\<lparr>rr_cq_tail := rr_cq_tail r + 1, rr_publication_in_flight := None\<rparr>, Inr ())"
  using e fl p cleared_fields [OF req_okD(1) [OF ok] e(1)] by (simp add: req_commit_publication_def)

lemma cleared_unknown:
  assumes "free_list_ok r" and "req_entry r rid = Inr e"
  shows "req_entry (req_cleared r rid) rid = Inl UrUnknownRequest"
  using req_entry_slot(1) [OF assms(2)] by (simp add: req_entry_def vec_get_def cleared_fields [OF assms])

lemma unread_slot_apart:
  assumes "geometry_ok r" and "published_entries r < unat (rr_cq_entries r)"
    and "h - rr_cq_head r < rr_cq_tail r - rr_cq_head r"
  shows "h AND (rr_cq_entries r - 1) \<noteq> rr_cq_tail r AND (rr_cq_entries r - 1)"
proof
  assume eq: "h AND (rr_cq_entries r - 1) = rr_cq_tail r AND (rr_cq_entries r - 1)"
  obtain k where k: "k \<le> 16" "unat (rr_cq_entries r) = 2 ^ k" using assms(1) by (auto simp: geometry_ok_def)
  have "rr_cq_tail r - h = (rr_cq_tail r - rr_cq_head r) - (h - rr_cq_head r)" by simp
  then have "rr_cq_tail r - h \<le> rr_cq_tail r - rr_cq_head r"
    using assms(3) by (metis less_imp_le word_sub_le)
  then have "unat (rr_cq_tail r - h) < 2 ^ k"
    using assms(2) k(2) by (simp add: published_entries_def word_le_nat_alt)
  then have "rr_cq_tail r = h"
    using queue_slots_apart [OF k(1)] eq by (simp add: ring_mask [OF k(2,1)])
  then show False using assms(3) by simp
qed

text \<open>
  C40. A request that was accepted never loses its completion for want of queue space. In every
  reachable registry the terminal credits are the live requests plus the unread queue entries and do
  not exceed the queue. Whenever a completion is pending, no other publication is in flight and the
  ring is not being drained, \<open>publish\<close> succeeds, hands out the completion with the user data the
  request was reserved with and a queue slot that holds no unread entry, and \<open>commit_publication\<close>
  of it succeeds, adds one unread entry and retires the request.
\<close>

theorem uring_completion_guaranteed:
  assumes "req_new alloc_ok ring cap cq = Inr r0" and "req_step\<^sup>*\<^sup>* r0 r"
  shows "rr_terminal_credits r = live_requests r + published_entries r \<and>
    rr_terminal_credits r \<le> unat cq \<and>
    (\<forall>rid e c. req_entry r rid = Inr e \<and> re_state e = EsCompletionPending c \<and>
       rr_publication_in_flight r = None \<and> rr_lifecycle r \<noteq> RlDraining \<longrightarrow>
       cp_user_data c = rd_user_data (re_descriptor e) \<and>
       (\<exists>r1 p r2. req_publish r rid = (r1, Inr p) \<and> pb_completion p = c \<and>
          pb_slot p = rr_cq_tail r AND (cq - 1) \<and>
          (\<forall>h. h - rr_cq_head r < rr_cq_tail r - rr_cq_head r \<longrightarrow> h AND (cq - 1) \<noteq> pb_slot p) \<and>
          req_commit_publication r1 p = (r2, Inr ()) \<and>
          published_entries r2 = Suc (published_entries r) \<and>
          req_entry r2 rid = Inl UrUnknownRequest))"
proof (intro conjI allI impI)
  have ok: "req_ok r" by (rule reachable_ok [OF assms])
  note parts = req_okD [OF ok] and cq = reachable_cq_entries [OF assms]
  show "rr_terminal_credits r = live_requests r + published_entries r" "rr_terminal_credits r \<le> unat cq"
    using parts(2) cq by (simp_all add: credits_ok_def)
  fix rid e c
  assume "req_entry r rid = Inr e \<and> re_state e = EsCompletionPending c \<and>
     rr_publication_in_flight r = None \<and> rr_lifecycle r \<noteq> RlDraining"
  then have h: "req_entry r rid = Inr e" "re_state e = EsCompletionPending c"
     "rr_publication_in_flight r = None" "rr_lifecycle r \<noteq> RlDraining" by auto
  show "cp_user_data c = rd_user_data (re_descriptor e)"
    using completion_ok_entry [OF parts(4) h(1)] h(2) by (simp add: completion_ok_def)
  note pub = publish_pending [OF ok h]
  let ?r1 = "(req_set_state r rid (EsPublishing c))\<lparr>rr_publication_in_flight := Some rid\<rparr>"
  have ok1: "req_ok ?r1" by (rule eff_publish_ok [OF ok h])
  have e1: "req_entry ?r1 rid = Inr (e\<lparr>re_state := EsPublishing c\<rparr>)" using set_state_entry(1) [OF h(1)] by simp
  let ?r2 = "(req_cleared ?r1 rid)\<lparr>rr_cq_tail := rr_cq_tail r + 1, rr_publication_in_flight := None\<rparr>"
  note f1 = cleared_fields [OF req_okD(1) [OF ok1] e1]
  have com: "req_commit_publication ?r1 \<lparr>pb_id = rid, pb_completion = c,
      pb_slot = rr_cq_tail r AND (rr_cq_entries r - 1), pb_new_tail = rr_cq_tail r + 1\<rparr> = (?r2, Inr ())"
    using commit_published [OF ok1 e1] by simp
  have "published_entries ?r2 = Suc (published_entries r)"
    using tail_advance [OF parts(6) pub(2)] by (simp add: published_entries_def f1)
  moreover have "req_entry ?r2 rid = Inl UrUnknownRequest"
    using cleared_unknown [OF req_okD(1) [OF ok1] e1] by simp
  ultimately show "\<exists>r1 p r2. req_publish r rid = (r1, Inr p) \<and> pb_completion p = c \<and>
      pb_slot p = rr_cq_tail r AND (cq - 1) \<and>
      (\<forall>h. h - rr_cq_head r < rr_cq_tail r - rr_cq_head r \<longrightarrow> h AND (cq - 1) \<noteq> pb_slot p) \<and>
      req_commit_publication r1 p = (r2, Inr ()) \<and>
      published_entries r2 = Suc (published_entries r) \<and> req_entry r2 rid = Inl UrUnknownRequest"
    using pub(1) com unread_slot_apart [OF parts(6) pub(2)] cq by simp
qed

section \<open>One terminal outcome\<close>

lemma claim_terminal_Inr:
  assumes "req_claim_terminal r rid cause = (r', Inr p)"
  shows "claim_open r rid" and "tp_id p = rid" and "r' = req_set_state r rid (EsTerminalClaimed cause)"
  using assms unfolding req_claim_terminal_def claim_open_def
  by (auto simp: Let_def terminal_claimed_def split: sum.splits entry_state.splits if_splits)

lemma claim_cancel_Inr:
  assumes "req_claim_cancel r sel excl = (r', Inr p)"
  shows "req_claim_terminal r (tp_id p) TcCancelled = (r', Inr p)"
  using assms claim_terminal_Inr(2) unfolding req_claim_cancel_def
  by (auto split: cancel_selector.splits sum.splits option.splits prod.splits if_splits)

lemma claimed_not_open:
  assumes "req_claim_terminal r rid cause = (r', Inr p)"
  shows "\<not> claim_open r' rid"
proof -
  obtain e where e: "req_entry r rid = Inr e" using claim_terminal_Inr(1) [OF assms] by (auto simp: claim_open_def)
  show ?thesis
    using set_state_entry(1) [OF e] claim_terminal_Inr(3) [OF assms]
    by (simp add: claim_open_def terminal_claimed_def)
qed

text \<open>
  A request has one terminal outcome. Once a terminal transition of a request has been claimed, by
  completion or by cancellation, no sequence of registry operations, including reuse of its slot by
  later requests, makes another claim on that request succeed.
\<close>

theorem uring_single_terminal:
  assumes "req_new alloc_ok ring cap cq = Inr r0" and "req_step\<^sup>*\<^sup>* r0 r"
    and "req_claim_terminal r rid cause = (r1, Inr permit)" and "req_step\<^sup>*\<^sup>* r1 r2"
  shows "(\<exists>err. snd (req_claim_terminal r2 rid cause') = Inl err) \<and>
    (\<forall>selector exclude p. snd (req_claim_cancel r2 selector exclude) = Inr p \<longrightarrow> tp_id p \<noteq> rid)"
proof -
  have inv: "req_ok r \<and> generations_ok r" using reachable_ok [OF assms(1,2)] by simp
  have st: "req_step r r1" using step_claim_terminal [of r rid cause] assms(3) by simp
  have "claim_open r rid" by (rule claim_terminal_Inr(1) [OF assms(3)])
  then have "ri_generation rid < slot_next_generation (ri_slot rid) r1"
    using claims.issued [OF inv, where i = "ri_slot rid" and k = rid]
      claims.next_mono [OF inv st, where i = "ri_slot rid"] by simp
  then have never: "\<not> claim_open r2 rid"
    using claims.stale_forever [OF assms(4) claims.inv_step [OF inv st], where i = "ri_slot rid" and k = rid]
      claimed_not_open [OF assms(3)] by simp
  have no: "\<nexists>q r'. req_claim_terminal r2 rid c = (r', Inr q)" for c
    using claim_terminal_Inr(1) never by blast
  have "snd (req_claim_terminal r2 rid cause') \<noteq> Inr q" for q
    using no [of cause'] by (metis prod.collapse)
  then have "\<exists>err. snd (req_claim_terminal r2 rid cause') = Inl err"
    by (cases "snd (req_claim_terminal r2 rid cause')") auto
  moreover have "tp_id p \<noteq> rid" if "snd (req_claim_cancel r2 selector exclude) = Inr p" for selector exclude p
    using that no [of TcCancelled] claim_cancel_Inr by (metis prod.collapse)
  ultimately show ?thesis by blast
qed

section \<open>Cancellation by user data\<close>

text \<open>The requests a cancellation may take among the slots numbered from \<open>i\<close>, with their sequence.\<close>

definition cancellable ::
  "nat \<Rightarrow> cancel_selector \<Rightarrow> request_id option \<Rightarrow> nat \<Rightarrow> request_slot list \<Rightarrow> (nat \<times> request_id) set" where
  "cancellable ring sel excl i slots =
     {(q, rid). \<exists>j e g. j < length slots \<and> rqs_entry (slots ! j) = Some e \<and> rqs_generation (slots ! j) = Some g \<and>
        rid = \<lparr>ri_ring = ring, ri_slot = i + j, ri_generation = g\<rparr> \<and> Some rid \<noteq> excl \<and>
        selector_matches sel (re_descriptor e) \<and> cancel_candidate (re_state e) \<and> q = re_sequence e}"

lemma cancellable_Nil [simp]: "cancellable ring sel excl i [] = {}"
  by (simp add: cancellable_def)

lemma cancellable_Cons:
  "cancellable ring sel excl i (s # rest) = cancellable ring sel excl (Suc i) rest \<union>
     {(q, rid). \<exists>e g. rqs_entry s = Some e \<and> rqs_generation s = Some g \<and>
        rid = \<lparr>ri_ring = ring, ri_slot = i, ri_generation = g\<rparr> \<and> Some rid \<noteq> excl \<and>
        selector_matches sel (re_descriptor e) \<and> cancel_candidate (re_state e) \<and> q = re_sequence e}"
  (is "?l = ?r1 \<union> ?r2")
proof (intro subset_antisym subsetI)
  fix x assume "x \<in> ?l"
  then obtain j e g where j: "j < Suc (length rest)" "rqs_entry ((s # rest) ! j) = Some e"
    "rqs_generation ((s # rest) ! j) = Some g" "snd x = \<lparr>ri_ring = ring, ri_slot = i + j, ri_generation = g\<rparr>"
    "Some (snd x) \<noteq> excl" "selector_matches sel (re_descriptor e)" "cancel_candidate (re_state e)"
    "fst x = re_sequence e"
    by (auto simp: cancellable_def)
  then show "x \<in> ?r1 \<union> ?r2"
    by (cases j; cases x) (auto simp: cancellable_def intro!: exI [of _ "j - 1"])
next
  fix x assume "x \<in> ?r1 \<union> ?r2"
  then show "x \<in> ?l"
  proof
    assume "x \<in> ?r1"
    then obtain j where "j < length rest" "x \<in> cancellable ring sel excl (Suc i) rest"
      "\<exists>e g. rqs_entry (rest ! j) = Some e \<and> rqs_generation (rest ! j) = Some g \<and>
        snd x = \<lparr>ri_ring = ring, ri_slot = Suc i + j, ri_generation = g\<rparr> \<and> Some (snd x) \<noteq> excl \<and>
        selector_matches sel (re_descriptor e) \<and> cancel_candidate (re_state e) \<and> fst x = re_sequence e"
      by (auto simp: cancellable_def)
    then show ?thesis by (cases x) (auto simp: cancellable_def intro!: exI [of _ "Suc j"])
  qed (auto simp: cancellable_def)
qed

lemma cancel_scan_spec:
  assumes "\<forall>s \<in> set slots. rqs_entry s \<noteq> None \<longrightarrow> rqs_generation s \<noteq> None"
  shows "\<exists>c. cancel_scan ring sel excl i slots cand = Inr c \<and>
    (case c of
       None \<Rightarrow> cand = None \<and> cancellable ring sel excl i slots = {}
     | Some x \<Rightarrow> (cand = Some x \<or> x \<in> cancellable ring sel excl i slots) \<and>
         (\<forall>y \<in> cancellable ring sel excl i slots \<union> set_option cand. fst x \<le> fst y))"
  using assms
proof (induction slots arbitrary: i cand)
  case Nil
  then show ?case by (cases cand) auto
next
  case (Cons s rest)
  show ?case
  proof (cases "rqs_entry s")
    case None
    then have set: "cancellable ring sel excl i (s # rest) = cancellable ring sel excl (Suc i) rest"
      unfolding cancellable_Cons by auto
    have scan: "cancel_scan ring sel excl i (s # rest) cand = cancel_scan ring sel excl (Suc i) rest cand"
      using None by simp
    show ?thesis unfolding set scan using Cons.prems by (intro Cons.IH) simp
  next
    case (Some e)
    then obtain g where g: "rqs_generation s = Some g" using Cons.prems by auto
    let ?id = "\<lparr>ri_ring = ring, ri_slot = i, ri_generation = g\<rparr>"
    let ?m = "Some ?id \<noteq> excl \<and> selector_matches sel (re_descriptor e) \<and> cancel_candidate (re_state e)"
    define old where "old = (case cand of None \<Rightarrow> True | Some (q, _) \<Rightarrow> re_sequence e < q)"
    define nc where "nc = (if ?m \<and> old then Some (re_sequence e, ?id) else cand)"
    have scan: "cancel_scan ring sel excl i (s # rest) cand = cancel_scan ring sel excl (Suc i) rest nc"
      using Some g by (simp add: Let_def nc_def old_def)
    have set: "cancellable ring sel excl i (s # rest) =
        cancellable ring sel excl (Suc i) rest \<union> (if ?m then {(re_sequence e, ?id)} else {})"
      using Some g by (auto simp: cancellable_Cons)
    have none: "nc = None \<Longrightarrow> cand = None \<and> \<not> ?m" and
      src: "\<And>x. nc = Some x \<Longrightarrow> cand = Some x \<or> (?m \<and> x = (re_sequence e, ?id))" and
      le: "\<And>x y. nc = Some x \<Longrightarrow> y \<in> set_option cand \<union> (if ?m then {(re_sequence e, ?id)} else {}) \<Longrightarrow> fst x \<le> fst y"
      by (auto simp: nc_def old_def split: if_splits option.splits)
    obtain c where c: "cancel_scan ring sel excl (Suc i) rest nc = Inr c"
      "case c of None \<Rightarrow> nc = None \<and> cancellable ring sel excl (Suc i) rest = {}
       | Some x \<Rightarrow> (nc = Some x \<or> x \<in> cancellable ring sel excl (Suc i) rest) \<and>
           (\<forall>y \<in> cancellable ring sel excl (Suc i) rest \<union> set_option nc. fst x \<le> fst y)"
      using Cons.IH [of "Suc i" nc] Cons.prems by auto
    show ?thesis
    proof (cases c)
      case None
      then show ?thesis using c scan set none by auto
    next
      case Some': (Some x)
      have lower: "fst x \<le> fst y" if "y \<in> set_option cand \<union> (if ?m then {(re_sequence e, ?id)} else {})" for y
      proof (cases nc)
        case None
        then show ?thesis using that none by auto
      next
        case (Some z)
        then have "fst x \<le> fst z" using c(2) Some' by auto
        then show ?thesis using le [OF Some that] by simp
      qed
      have "cand = Some x \<or> x \<in> cancellable ring sel excl i (s # rest)"
        using c(2) Some' src [of x] unfolding set by auto
      moreover have "\<forall>y \<in> cancellable ring sel excl i (s # rest) \<union> set_option cand. fst x \<le> fst y"
      proof
        fix y assume "y \<in> cancellable ring sel excl i (s # rest) \<union> set_option cand"
        then consider "y \<in> cancellable ring sel excl (Suc i) rest"
          | "y \<in> set_option cand \<union> (if ?m then {(re_sequence e, ?id)} else {})"
          unfolding set by blast
        then show "fst x \<le> fst y" using c(2) Some' lower [of y] by cases simp_all
      qed
      ultimately show ?thesis using c(1) Some' scan by auto
    qed
  qed
qed

lemma cancellable_entries:
  "(q, rid) \<in> cancellable (rr_ring r) sel excl 0 (rr_slots r) \<longleftrightarrow>
   (\<exists>e. req_entry r rid = Inr e \<and> Some rid \<noteq> excl \<and> selector_matches sel (re_descriptor e) \<and>
      cancel_candidate (re_state e) \<and> q = re_sequence e)"
  by (cases rid) (auto simp: cancellable_def req_entry_Inr_iff)

lemma claim_candidate:
  assumes "req_entry r rid = Inr e" and "cancel_candidate (re_state e)"
  shows "req_claim_terminal r rid TcCancelled = (req_set_state r rid (EsTerminalClaimed TcCancelled),
    Inr \<lparr>tp_id = rid, tp_descriptor = re_descriptor e, tp_cause = TcCancelled\<rparr>)"
  using assms by (auto simp: req_claim_terminal_def cancel_candidate_def Let_def)

text \<open>
  Cancellation by user data takes the oldest cancellable request. In every reachable registry
  \<open>claim_cancel\<close> with a user data selector claims a request with that user data, other than the
  excluded one, that is prepared or issued cancellable, and no such request has an older sequence;
  when there is none it reports that the target was not found and changes nothing.
\<close>

theorem uring_cancel_oldest:
  assumes "req_new alloc_ok ring cap cq = Inr r0" and "req_step\<^sup>*\<^sup>* r0 r"
  shows "case req_claim_cancel r (SelUserData u) excl of
     (r', Inr p) \<Rightarrow> (\<exists>e. req_entry r (tp_id p) = Inr e \<and> Some (tp_id p) \<noteq> excl \<and>
         rd_user_data (re_descriptor e) = u \<and> cancel_candidate (re_state e) \<and>
         r' = req_set_state r (tp_id p) (EsTerminalClaimed TcCancelled) \<and>
         (\<forall>rid e'. req_entry r rid = Inr e' \<and> Some rid \<noteq> excl \<and> rd_user_data (re_descriptor e') = u \<and>
            cancel_candidate (re_state e') \<longrightarrow> re_sequence e \<le> re_sequence e'))
   | (r', Inl err) \<Rightarrow> err = UrCancellationTargetNotFound \<and> r' = r \<and>
       (\<forall>rid e'. req_entry r rid = Inr e' \<and> Some rid \<noteq> excl \<and> rd_user_data (re_descriptor e') = u \<longrightarrow>
          \<not> cancel_candidate (re_state e'))"
proof -
  have gens: "\<forall>s \<in> set (rr_slots r). rqs_entry s \<noteq> None \<longrightarrow> rqs_generation s \<noteq> None"
    using req_okD(1) [OF reachable_ok(1) [OF assms]] by (auto simp: free_list_ok_def live_slot_def)
  obtain c where c: "cancel_scan (rr_ring r) (SelUserData u) excl 0 (rr_slots r) None = Inr c"
    "case c of None \<Rightarrow> cancellable (rr_ring r) (SelUserData u) excl 0 (rr_slots r) = {}
     | Some x \<Rightarrow> x \<in> cancellable (rr_ring r) (SelUserData u) excl 0 (rr_slots r) \<and>
         (\<forall>y \<in> cancellable (rr_ring r) (SelUserData u) excl 0 (rr_slots r). fst x \<le> fst y)"
    using cancel_scan_spec [OF gens, of "rr_ring r" "SelUserData u" excl 0 None] by (auto split: option.splits)
  show ?thesis
  proof (cases c)
    case None
    then have "(q, rid) \<notin> cancellable (rr_ring r) (SelUserData u) excl 0 (rr_slots r)" for q rid
      using c(2) by simp
    then show ?thesis using None c(1) unfolding cancellable_entries by (auto simp: req_claim_cancel_def)
  next
    case (Some x)
    obtain q rid where x: "x = (q, rid)" by (cases x)
    obtain e where e: "req_entry r rid = Inr e" "Some rid \<noteq> excl" "rd_user_data (re_descriptor e) = u"
      "cancel_candidate (re_state e)" "q = re_sequence e"
      using c(2) Some x cancellable_entries [of q rid r "SelUserData u" excl] by auto
    have least: "re_sequence e \<le> re_sequence e'" if "req_entry r rid' = Inr e' \<and> Some rid' \<noteq> excl \<and>
        rd_user_data (re_descriptor e') = u \<and> cancel_candidate (re_state e')" for rid' e'
    proof -
      have "(re_sequence e', rid') \<in> cancellable (rr_ring r) (SelUserData u) excl 0 (rr_slots r)"
        using that by (simp add: cancellable_entries)
      moreover have "\<forall>y \<in> cancellable (rr_ring r) (SelUserData u) excl 0 (rr_slots r). fst x \<le> fst y"
        using c(2) Some by simp
      ultimately have "fst x \<le> fst (re_sequence e', rid')" by (rule bspec [rotated])
      then show ?thesis by (simp add: x e(5))
    qed
    have "req_claim_cancel r (SelUserData u) excl = (req_set_state r rid (EsTerminalClaimed TcCancelled),
        Inr \<lparr>tp_id = rid, tp_descriptor = re_descriptor e, tp_cause = TcCancelled\<rparr>)"
      using c(1) Some x claim_candidate [OF e(1,4)] by (simp add: req_claim_cancel_def)
    then show ?thesis using e least by auto
  qed
qed

section \<open>A concrete ring\<close>

text \<open>Two request slots, four queue entries; one poll request is reserved, accepted, cancelled, finished.\<close>

definition ex_ring :: request_registry where
  "ex_ring = \<lparr>rr_ring = 7, rr_capacity = 2,
     rr_slots = [\<lparr>rqs_generation = Some 1, rqs_entry = None\<rparr>, \<lparr>rqs_generation = Some 1, rqs_entry = None\<rparr>],
     rr_free_slots = [1, 0], rr_next_sequence = Some 1, rr_lifecycle = RlOpen, rr_cq_entries = 4, rr_cq_head = 0, rr_cq_tail = 0,
     rr_terminal_credits = 0, rr_publication_in_flight = None\<rparr>"

definition ex_poll :: request_descriptor where
  "ex_poll = \<lparr>rd_user_data = 42, rd_operation = OpPollAdd\<rparr>"

definition ex_uring_request :: request_token where
  "ex_uring_request = \<lparr>rt_id = \<lparr>ri_ring = 7, ri_slot = 0, ri_generation = 1\<rparr>, rt_descriptor = ex_poll\<rparr>"

definition ex_permit :: terminal_permit where
  "ex_permit = \<lparr>tp_id = rt_id ex_uring_request, tp_descriptor = ex_poll, tp_cause = TcCancelled\<rparr>"

definition ex_reserved :: request_registry where
  "ex_reserved = fst (req_reserve ex_ring ex_poll)"

definition ex_prepared :: request_registry where
  "ex_prepared = fst (req_commit ex_reserved ex_uring_request)"

definition ex_claimed :: request_registry where
  "ex_claimed = fst (req_claim_terminal ex_prepared (rt_id ex_uring_request) TcCancelled)"

definition ex_pending :: request_registry where
  "ex_pending = fst (req_finish_terminal ex_claimed ex_permit 0 0)"

lemma ex_ring_new: "req_new (\<lambda>_. True) 7 2 4 = Inr ex_ring"
proof -
  have "is_power_of_two_u32 4" by (simp add: is_power_of_two_u32_def next_power_from.simps)
  moreover have "replicate 2 s = [s, s]" for s :: request_slot by (simp add: numeral_2_eq_2)
  moreover have "[0..<2] = [0, 1 :: nat]" by (simp add: numeral_2_eq_2)
  ultimately show ?thesis
    by (simp add: req_new_def ex_ring_def ioring_max_entries_def ioring_max_cq_entries_def)
qed

lemma ex_prepared_eq:
  "ex_prepared = ex_ring\<lparr>rr_slots := [\<lparr>rqs_generation = Some 1, rqs_entry = Some \<lparr>re_descriptor = ex_poll,
       re_sequence = 1, re_state = EsPrepared\<rparr>\<rparr>, \<lparr>rqs_generation = Some 1, rqs_entry = None\<rparr>],
     rr_free_slots := [1], rr_next_sequence := Some 2, rr_terminal_credits := 1\<rparr>"
  by (simp add: ex_prepared_def ex_reserved_def ex_ring_def ex_uring_request_def req_reserve_def req_commit_def
      req_entry_def req_set_state_def vec_get_def checked_add_def u32_max_def u64_max_def Let_def)

lemma ex_claim:
  "req_claim_terminal ex_prepared (rt_id ex_uring_request) TcCancelled = (ex_claimed, Inr ex_permit)"
  by (simp add: ex_claimed_def ex_prepared_eq ex_ring_def ex_uring_request_def ex_permit_def req_claim_terminal_def
      req_entry_def vec_get_def Let_def)

lemma ex_pending_entry:
  "req_entry ex_pending (rt_id ex_uring_request) = Inr \<lparr>re_descriptor = ex_poll, re_sequence = 1,
     re_state = EsCompletionPending \<lparr>cp_user_data = 42, cp_result = 0, cp_flags = 0\<rparr>\<rparr>"
  "rr_publication_in_flight ex_pending = None" "rr_lifecycle ex_pending = RlOpen"
  by (simp_all add: ex_pending_def ex_claimed_def ex_prepared_eq ex_ring_def ex_uring_request_def ex_permit_def
      ex_poll_def req_claim_terminal_def req_finish_terminal_def req_set_state_def req_entry_def vec_get_def Let_def)

lemma ex_steps:
  "req_step\<^sup>*\<^sup>* ex_ring ex_prepared" "req_step\<^sup>*\<^sup>* ex_prepared ex_pending" "req_step\<^sup>*\<^sup>* ex_claimed ex_pending"
proof -
  have a: "req_step ex_ring ex_reserved" "req_step ex_reserved ex_prepared"
    unfolding ex_reserved_def ex_prepared_def by (rule step_reserve, rule step_commit)
  have b: "req_step ex_prepared ex_claimed" "req_step ex_claimed ex_pending"
    unfolding ex_claimed_def ex_pending_def by (rule step_claim_terminal, rule step_finish_terminal)
  show "req_step\<^sup>*\<^sup>* ex_ring ex_prepared" "req_step\<^sup>*\<^sup>* ex_prepared ex_pending" "req_step\<^sup>*\<^sup>* ex_claimed ex_pending"
    using a b by (auto intro: converse_rtranclp_into_rtranclp)
qed

theorem uring_completion_guaranteed_witness:
  "\<exists>r1 p r2. req_publish ex_pending (rt_id ex_uring_request) = (r1, Inr p) \<and>
     pb_completion p = \<lparr>cp_user_data = 42, cp_result = 0, cp_flags = 0\<rparr> \<and>
     req_commit_publication r1 p = (r2, Inr ()) \<and> published_entries r2 = Suc (published_entries ex_pending)"
proof -
  have "req_step\<^sup>*\<^sup>* ex_ring ex_pending" using ex_steps(1,2) by simp
  then show ?thesis
    using uring_completion_guaranteed [OF ex_ring_new, of ex_pending] ex_pending_entry by fastforce
qed

theorem uring_single_terminal_witness:
  "\<exists>err. snd (req_claim_terminal ex_pending (rt_id ex_uring_request) TcCompleted) = Inl err"
  using uring_single_terminal [OF ex_ring_new ex_steps(1) ex_claim ex_steps(3), of TcCompleted] by blast

theorem uring_cancel_oldest_witness:
  "case req_claim_cancel ex_prepared (SelUserData 42) None of
     (r', Inr p) \<Rightarrow> tp_id p = rt_id ex_uring_request \<and> (\<exists>e. req_entry ex_prepared (tp_id p) = Inr e \<and>
       rd_user_data (re_descriptor e) = 42 \<and> cancel_candidate (re_state e))
   | (r', Inl err) \<Rightarrow> False"
proof -
  have "req_claim_cancel ex_prepared (SelUserData 42) None = (ex_claimed, Inr ex_permit)"
    using ex_claim
    by (simp add: req_claim_cancel_def ex_prepared_eq ex_ring_def ex_poll_def ex_uring_request_def cancel_candidate_def Let_def)
  then show ?thesis
    using uring_cancel_oldest [OF ex_ring_new ex_steps(1), where u = 42 and excl = None] by (auto simp: ex_permit_def)
qed

end
