(* ===== verification/Uring_Lease.thy ===== *)
theory Uring_Lease
  imports Uring_Setup "HOL-Library.Multiset"
begin

text \<open>
  The contract the registered-file and registered-buffer tables of the \<open>io_uring\<close> crate share. A
  lease is an owned token that pins the resource it was acquired for until it is released. The
  run of a table carries the multiset of leases that are outstanding: a lease enters it when it is
  acquired and leaves it when it is released, which its type enforces because it cannot be
  copied. The locale proves once that outstanding leases stay valid and that the counters of the table
  count them.
\<close>

datatype table_lifecycle = TlBuilding | TlPublished | TlRetiring | TlClosed

record resource_token =
  tk_ring :: nat
  tk_table :: nat
  tk_slot :: nat
  tk_generation :: nat

record table_progress =
  tg_lifecycle :: table_lifecycle
  tg_capacity :: nat
  tg_installed :: nat
  tg_leases :: nat
  tg_lease_capacity :: nat

definition progress_empty :: "table_progress \<Rightarrow> bool" where
  "progress_empty p \<longleftrightarrow> tg_installed p = 0 \<and> tg_leases p = 0"

datatype 'l lease_event = Acquired 'l | Released 'l | Internal

inductive lease_run ::
  "('s \<Rightarrow> 'l lease_event \<Rightarrow> 's \<Rightarrow> bool) \<Rightarrow> 's \<Rightarrow> 's \<Rightarrow> 'l multiset \<Rightarrow> bool"
  for step s0 where
  run_start: "lease_run step s0 s0 {#}"
| run_acquire: "lease_run step s0 s L \<Longrightarrow> step s (Acquired l) t \<Longrightarrow> lease_run step s0 t (add_mset l L)"
| run_release: "lease_run step s0 s (add_mset l L) \<Longrightarrow> step s (Released l) t \<Longrightarrow> lease_run step s0 t L"
| run_internal: "lease_run step s0 s L \<Longrightarrow> step s Internal t \<Longrightarrow> lease_run step s0 t L"

definition leases_of_slot :: "('l \<Rightarrow> nat) \<Rightarrow> 'l multiset \<Rightarrow> nat \<Rightarrow> nat" where
  "leases_of_slot slot_of L i = size (filter_mset (\<lambda>l. slot_of l = i) L)"

lemma leases_of_slot_add:
  "leases_of_slot slot_of (add_mset l L) = (leases_of_slot slot_of L)(slot_of l := Suc (leases_of_slot slot_of L (slot_of l)))"
  by (auto simp: leases_of_slot_def fun_eq_iff)

lemma leases_of_slot_pos: "l \<in># L \<Longrightarrow> 0 < leases_of_slot slot_of L (slot_of l)"
  by (auto simp: leases_of_slot_def size_eq_0_iff_empty gr0_conv_Suc dest!: multi_member_split)

locale lease_table =
  fixes inv :: "'s \<Rightarrow> bool"
    and step :: "'s \<Rightarrow> 'l lease_event \<Rightarrow> 's \<Rightarrow> bool"
    and pinned :: "'s \<Rightarrow> 'l \<Rightarrow> bool"
    and slot_of :: "'l \<Rightarrow> nat"
    and slot_leases :: "'s \<Rightarrow> nat \<Rightarrow> nat"
    and total :: "'s \<Rightarrow> nat"
  assumes inv_step: "inv s \<Longrightarrow> step s ev t \<Longrightarrow> inv t"
    and acquire_law: "inv s \<Longrightarrow> step s (Acquired l) t \<Longrightarrow> pinned t l \<and>
      (\<forall>k. pinned s k \<longrightarrow> pinned t k) \<and>
      slot_leases t = (slot_leases s)(slot_of l := Suc (slot_leases s (slot_of l))) \<and> total t = Suc (total s)"
    and release_law: "inv s \<Longrightarrow> pinned s l \<Longrightarrow> step s (Released l) t \<Longrightarrow>
      slot_leases s = (slot_leases t)(slot_of l := Suc (slot_leases t (slot_of l))) \<and> total s = Suc (total t) \<and>
      (\<forall>k. pinned s k \<and> 0 < slot_leases t (slot_of k) \<longrightarrow> pinned t k)"
    and internal_law: "inv s \<Longrightarrow> step s Internal t \<Longrightarrow> slot_leases t = slot_leases s \<and> total t = total s \<and>
      (\<forall>k. pinned s k \<and> 0 < slot_leases s (slot_of k) \<longrightarrow> pinned t k)"
    and can_release: "inv s \<Longrightarrow> pinned s l \<Longrightarrow> 0 < slot_leases s (slot_of l) \<Longrightarrow> 0 < total s \<Longrightarrow>
      \<exists>t. step s (Released l) t"
begin

lemma leases_pinned:
  assumes "lease_run step s0 s L" and "inv s0" and "slot_leases s0 = (\<lambda>_. 0)" and "total s0 = 0"
  shows "inv s \<and> (\<forall>l \<in># L. pinned s l) \<and> slot_leases s = leases_of_slot slot_of L \<and> total s = size L"
  using assms(1)
proof induction
  case run_start
  then show ?case using assms(2,3,4) by (auto simp: leases_of_slot_def fun_eq_iff)
next
  case (run_acquire s L l t)
  then show ?case
    using acquire_law [of s l t] inv_step [of s _ t] by (auto simp: leases_of_slot_add)
next
  case (run_release s l L t)
  then have p: "pinned s l" by simp
  note law = release_law [OF _ p run_release.hyps(2)]
  have eq: "slot_leases t = leases_of_slot slot_of L"
  proof
    fix i
    have "slot_leases s i = ((slot_leases t)(slot_of l := Suc (slot_leases t (slot_of l)))) i"
      using law run_release.IH by metis
    moreover have "slot_leases s i = leases_of_slot slot_of (add_mset l L) i" using run_release.IH by simp
    ultimately show "slot_leases t i = leases_of_slot slot_of L i"
      by (auto simp: leases_of_slot_add split: if_splits)
  qed
  have "pinned t k" if "k \<in># L" for k
    using law run_release.IH that eq leases_of_slot_pos [OF that, of slot_of] by auto
  then show ?case
    using run_release eq law inv_step [of s _ t] by auto
next
  case (run_internal s L t)
  then show ?case
    using internal_law [of s t] inv_step [of s _ t] leases_of_slot_pos [of _ L slot_of] by auto
qed

lemma lease_releasable:
  assumes "lease_run step s0 s L" and "inv s0" and "slot_leases s0 = (\<lambda>_. 0)" and "total s0 = 0" and "l \<in># L"
  shows "\<exists>t. step s (Released l) t"
proof -
  have *: "inv s" "pinned s l" "slot_leases s = leases_of_slot slot_of L" "total s = size L"
    using leases_pinned [OF assms(1-4)] assms(5) by auto
  moreover have "L \<noteq> {#}" using assms(5) by auto
  ultimately show ?thesis
    using leases_of_slot_pos [OF assms(5), of slot_of] by (intro can_release) (auto simp: nonempty_has_size)
qed

end

end
