(* ===== verification/Uring_Files.thy ===== *)
theory Uring_Files
  imports Uring_Lease
begin

text \<open>
  The registered-file table, \<^verbatim>\<open>io-uring/src/resource.rs\<close>. The owner of a slot is an \<open>Arc\<close> of an
  adapter type and stays a type parameter; only its identity matters here.
\<close>

record 'o file_slot =
  fs_generation :: "nat option"
  fs_owner :: "'o option"
  fs_leases :: nat

record 'o file_table =
  rf_ring :: nat
  rf_id :: nat
  rf_lifecycle :: table_lifecycle
  rf_slots :: "'o file_slot list"
  rf_retire_cursor :: nat
  rf_lease_capacity :: nat
  rf_leases :: nat

record 'o file_lease =
  fl_token :: resource_token
  fl_owner :: 'o

datatype 'o file_release = FileActive | FileRetired resource_token 'o

definition file_table_id_new :: "nat \<Rightarrow> uring_error + nat" where
  "file_table_id_new raw = (if raw = 0 then Inl UrInvalidIdentity else Inr raw)"

definition rf_new ::
  "bool \<Rightarrow> nat \<Rightarrow> nat \<Rightarrow> nat \<Rightarrow> nat \<Rightarrow> uring_error + 'o file_table" where
  "rf_new alloc_ok ring tid capacity lease_capacity =
     (if capacity = 0 \<or> capacity > ioring_max_fixed_files then Inl UrInvalidFileTableCapacity
      else if lease_capacity = 0 \<or> lease_capacity > ioring_max_cq_entries then Inl UrInvalidFileLeaseCapacity
      else if \<not> alloc_ok then Inl UrAllocationFailed
      else Inr \<lparr>rf_ring = ring, rf_id = tid, rf_lifecycle = TlBuilding,
        rf_slots = replicate capacity \<lparr>fs_generation = Some 1, fs_owner = None, fs_leases = 0\<rparr>,
        rf_retire_cursor = 0, rf_lease_capacity = lease_capacity, rf_leases = 0\<rparr>)"

definition rf_slot :: "'o file_table \<Rightarrow> nat \<Rightarrow> uring_error + 'o file_slot" where
  "rf_slot t i = ok_or UrInvalidFileSlot (vec_get (rf_slots t) i)"

text \<open>A write through the slot reference of \<open>slot_mut\<close>.\<close>

definition rf_put :: "'o file_table \<Rightarrow> nat \<Rightarrow> 'o file_slot \<Rightarrow> 'o file_table" where
  "rf_put t i s = t\<lparr>rf_slots := (rf_slots t)[i := s]\<rparr>"

definition rf_advance_generation :: "'o file_slot \<Rightarrow> nat \<Rightarrow> 'o file_slot" where
  "rf_advance_generation s g = s\<lparr>fs_generation := checked_add u64_max g 1\<rparr>"

definition rf_validate_token :: "'o file_table \<Rightarrow> resource_token \<Rightarrow> uring_error + unit" where
  "rf_validate_token t tok =
     (if tk_ring tok \<noteq> rf_ring t \<or> tk_table tok \<noteq> rf_id t then Inl UrUnknownFileLease
      else and_then (rf_slot t (tk_slot tok)) (\<lambda>s.
        if fs_generation s \<noteq> Some (tk_generation tok) \<or> fs_owner s = None then Inl UrUnknownFileLease
        else Inr ()))"

definition rf_progress :: "'o file_table \<Rightarrow> uring_error + table_progress" where
  "rf_progress t =
     (let installed = length (filter (\<lambda>s. fs_owner s \<noteq> None) (rf_slots t))
      in if installed > u32_max \<or> length (rf_slots t) > u32_max then Inl UrOverflow
         else Inr \<lparr>tg_lifecycle = rf_lifecycle t, tg_capacity = length (rf_slots t),
                   tg_installed = installed, tg_leases = rf_leases t,
                   tg_lease_capacity = rf_lease_capacity t\<rparr>)"

definition rf_install ::
  "'o file_table \<Rightarrow> nat \<Rightarrow> 'o \<Rightarrow> ('o file_table, uring_error \<times> 'o, resource_token) outcome" where
  "rf_install t slot owner =
     (if rf_lifecycle t \<noteq> TlBuilding then
        (t, Inl (case rf_lifecycle t of TlRetiring \<Rightarrow> UrClosing | TlClosed \<Rightarrow> UrClosed | _ \<Rightarrow> UrBusy, owner))
      else case rf_slot t slot of
        Inl e \<Rightarrow> (t, Inl (e, owner))
      | Inr s \<Rightarrow>
        if fs_owner s \<noteq> None then (t, Inl (UrFileSlotOccupied, owner))
        else case fs_generation s of
          None \<Rightarrow> (t, Inl (UrGenerationExhausted, owner))
        | Some g \<Rightarrow> (rf_put t slot (s\<lparr>fs_owner := Some owner\<rparr>),
            Inr \<lparr>tk_ring = rf_ring t, tk_table = rf_id t, tk_slot = slot, tk_generation = g\<rparr>))"

definition rf_publish :: "'o file_table \<Rightarrow> ('o file_table, uring_error, table_progress) outcome" where
  "rf_publish t =
     (case rf_lifecycle t of
        TlBuilding \<Rightarrow> let t1 = t\<lparr>rf_lifecycle := TlPublished\<rparr> in (t1, rf_progress t1)
      | TlPublished \<Rightarrow> (t, rf_progress t)
      | TlRetiring \<Rightarrow> (t, Inl UrClosing)
      | TlClosed \<Rightarrow> (t, Inl UrClosed))"

definition rf_unpublished_error :: "table_lifecycle \<Rightarrow> uring_error" where
  "rf_unpublished_error l =
     (case l of TlRetiring \<Rightarrow> UrClosing | TlClosed \<Rightarrow> UrClosed | _ \<Rightarrow> UrFileTableNotPublished)"

definition rf_token :: "'o file_table \<Rightarrow> nat \<Rightarrow> uring_error + resource_token" where
  "rf_token t slot =
     (if rf_lifecycle t \<noteq> TlPublished then Inl (rf_unpublished_error (rf_lifecycle t))
      else and_then (rf_slot t slot) (\<lambda>s.
        if fs_owner s = None then Inl UrFileSlotEmpty
        else and_then (ok_or UrGenerationExhausted (fs_generation s)) (\<lambda>g.
          Inr \<lparr>tk_ring = rf_ring t, tk_table = rf_id t, tk_slot = slot, tk_generation = g\<rparr>)))"

definition rf_acquire_token ::
  "'o file_table \<Rightarrow> resource_token \<Rightarrow> ('o file_table, uring_error, 'o file_lease) outcome" where
  "rf_acquire_token t tok =
     (if rf_lifecycle t \<noteq> TlPublished then (t, Inl (rf_unpublished_error (rf_lifecycle t)))
      else case rf_validate_token t tok of
        Inl e \<Rightarrow> (t, Inl e)
      | Inr _ \<Rightarrow>
        if rf_leases t \<ge> rf_lease_capacity t then (t, Inl UrFileLeaseCapacityExceeded)
        else case rf_slot t (tk_slot tok) of
          Inl e \<Rightarrow> (t, Inl e)
        | Inr s \<Rightarrow>
          if fs_generation s \<noteq> Some (tk_generation tok) then (t, Inl UrUnknownFileLease)
          else case fs_owner s of
            None \<Rightarrow> (t, Inl UrFileSlotEmpty)
          | Some owner \<Rightarrow>
            case checked_add u32_max (fs_leases s) 1 of
              None \<Rightarrow> (t, Inl UrOverflow)
            | Some n \<Rightarrow>
              let t1 = rf_put t (tk_slot tok) (s\<lparr>fs_leases := n\<rparr>) in
              case checked_add u32_max (rf_leases t1) 1 of
                None \<Rightarrow> (t1, Inl UrOverflow)
              | Some m \<Rightarrow> (t1\<lparr>rf_leases := m\<rparr>, Inr \<lparr>fl_token = tok, fl_owner = owner\<rparr>))"

definition rf_acquire ::
  "'o file_table \<Rightarrow> nat \<Rightarrow> ('o file_table, uring_error, 'o file_lease) outcome" where
  "rf_acquire t slot =
     (case rf_token t slot of Inl e \<Rightarrow> (t, Inl e) | Inr tok \<Rightarrow> rf_acquire_token t tok)"

definition rf_begin_retire :: "'o file_table \<Rightarrow> ('o file_table, uring_error, table_progress) outcome" where
  "rf_begin_retire t =
     (let t1 = (if rf_lifecycle t = TlBuilding \<or> rf_lifecycle t = TlPublished
                then t\<lparr>rf_lifecycle := TlRetiring, rf_retire_cursor := 0\<rparr> else t)
      in (t1, rf_progress t1))"

definition rf_retire ::
  "'o file_table \<Rightarrow> resource_token \<Rightarrow> ('o file_table, uring_error, resource_token \<times> 'o) outcome" where
  "rf_retire t tok =
     (if rf_lifecycle t \<noteq> TlRetiring then (t, Inl UrInvalidLifecycleTransition)
      else case rf_validate_token t tok of
        Inl e \<Rightarrow> (t, Inl e)
      | Inr _ \<Rightarrow>
        case rf_slot t (tk_slot tok) of
          Inl e \<Rightarrow> (t, Inl e)
        | Inr s \<Rightarrow>
          if fs_leases s \<noteq> 0 then (t, Inl UrBusy)
          else case fs_owner s of
            None \<Rightarrow> (t, Inl UrFileSlotEmpty)
          | Some owner \<Rightarrow>
            (rf_put t (tk_slot tok) (rf_advance_generation (s\<lparr>fs_owner := None\<rparr>) (tk_generation tok)),
             Inr (tok, owner)))"

text \<open>The loop of \<open>next_retirable\<close> over the slots from the cursor on: the new cursor and the result.\<close>

fun rf_scan_retirable ::
  "nat \<Rightarrow> 'o file_slot list \<Rightarrow> nat \<times> (uring_error + (nat \<times> nat) option)" where
  "rf_scan_retirable cursor [] = (cursor, Inr None)"
| "rf_scan_retirable cursor (s # rest) =
     (if fs_owner s \<noteq> None \<and> fs_leases s = 0
      then (Suc cursor, and_then (ok_or UrGenerationExhausted (fs_generation s)) (\<lambda>g. Inr (Some (cursor, g))))
      else rf_scan_retirable (Suc cursor) rest)"

definition rf_next_retirable ::
  "'o file_table \<Rightarrow> ('o file_table, uring_error, resource_token option) outcome" where
  "rf_next_retirable t =
     (if rf_lifecycle t \<noteq> TlRetiring then (t, Inl UrInvalidLifecycleTransition)
      else case rf_scan_retirable (rf_retire_cursor t) (drop (rf_retire_cursor t) (rf_slots t)) of
        (cursor, found) \<Rightarrow> (t\<lparr>rf_retire_cursor := cursor\<rparr>,
          and_then found (\<lambda>f. Inr (map_option (\<lambda>(slot, g).
            \<lparr>tk_ring = rf_ring t, tk_table = rf_id t, tk_slot = slot, tk_generation = g\<rparr>) f))))"

definition rf_release ::
  "'o file_table \<Rightarrow> 'o file_lease \<Rightarrow> ('o file_table, uring_error \<times> 'o file_lease, 'o file_release) outcome" where
  "rf_release t lease =
     (let tok = fl_token lease in
      case rf_validate_token t tok of
        Inl e \<Rightarrow> (t, Inl (e, lease))
      | Inr _ \<Rightarrow>
        if rf_leases t = 0 then (t, Inl (UrUnknownFileLease, lease))
        else case rf_slot t (tk_slot tok) of
          Inl e \<Rightarrow> (t, Inl (e, lease))
        | Inr s \<Rightarrow>
          if fs_leases s = 0 then (t, Inl (UrUnknownFileLease, lease))
          else if rf_lifecycle t = TlRetiring \<and> fs_leases s = 1 then
            (case fs_owner s of
               Some owner \<Rightarrow>
                 ((rf_put t (tk_slot tok) (rf_advance_generation (s\<lparr>fs_owner := None, fs_leases := 0\<rparr>)
                     (tk_generation tok)))\<lparr>rf_leases := rf_leases t - 1\<rparr>,
                  Inr (FileRetired tok owner))
             | None \<Rightarrow> (t, Inl (UrFileSlotEmpty, lease)))
          else ((rf_put t (tk_slot tok) (s\<lparr>fs_leases := fs_leases s - 1\<rparr>))\<lparr>rf_leases := rf_leases t - 1\<rparr>,
                Inr FileActive))"

definition rf_finish_retire :: "'o file_table \<Rightarrow> ('o file_table, uring_error, unit) outcome" where
  "rf_finish_retire t =
     (if rf_lifecycle t = TlClosed then (t, Inr ())
      else if rf_lifecycle t \<noteq> TlRetiring then (t, Inl UrInvalidLifecycleTransition)
      else case rf_progress t of
        Inl e \<Rightarrow> (t, Inl e)
      | Inr p \<Rightarrow> if \<not> progress_empty p then (t, Inl UrBusy)
                else (t\<lparr>rf_lifecycle := TlClosed\<rparr>, Inr ()))"

section \<open>Steps and invariant\<close>

inductive rf_step :: "'o file_table \<Rightarrow> 'o file_lease lease_event \<Rightarrow> 'o file_table \<Rightarrow> bool" where
  rf_step_acquire: "rf_acquire_token t tok = (t', Inr l) \<Longrightarrow> rf_step t (Acquired l) t'"
| rf_step_acquire_error: "rf_acquire_token t tok = (t', Inl e) \<Longrightarrow> rf_step t Internal t'"
| rf_step_release: "rf_release t l = (t', Inr x) \<Longrightarrow> rf_step t (Released l) t'"
| rf_step_release_error: "rf_release t l = (t', Inl e) \<Longrightarrow> rf_step t Internal t'"
| rf_step_install: "rf_step t Internal (fst (rf_install t slot owner))"
| rf_step_publish: "rf_step t Internal (fst (rf_publish t))"
| rf_step_begin_retire: "rf_step t Internal (fst (rf_begin_retire t))"
| rf_step_retire: "rf_step t Internal (fst (rf_retire t tok))"
| rf_step_next_retirable: "rf_step t Internal (fst (rf_next_retirable t))"
| rf_step_finish_retire: "rf_step t Internal (fst (rf_finish_retire t))"

inductive_cases rf_step_releasedE: "rf_step t (Released l) t'"

definition rf_ok :: "'o file_table \<Rightarrow> bool" where
  "rf_ok t \<longleftrightarrow> rf_leases t \<le> rf_lease_capacity t \<and> rf_lease_capacity t \<le> ioring_max_cq_entries \<and>
     (rf_lifecycle t = TlClosed \<longrightarrow> rf_leases t = 0 \<and> (\<forall>s \<in> set (rf_slots t). fs_owner s = None))"

definition rf_pinned :: "'o file_table \<Rightarrow> 'o file_lease \<Rightarrow> bool" where
  "rf_pinned t l \<longleftrightarrow> rf_validate_token t (fl_token l) = Inr () \<and>
     fs_owner (rf_slots t ! tk_slot (fl_token l)) = Some (fl_owner l)"

definition rf_slot_leases :: "'o file_table \<Rightarrow> nat \<Rightarrow> nat" where
  "rf_slot_leases t i = (if i < length (rf_slots t) then fs_leases (rf_slots t ! i) else 0)"

lemma rf_slot_Inr_iff [simp]: "rf_slot t i = Inr s \<longleftrightarrow> i < length (rf_slots t) \<and> s = rf_slots t ! i"
  by (auto simp: rf_slot_def vec_get_iffs)

lemma rf_put_fields [simp]:
  "rf_ring (rf_put t i s) = rf_ring t" "rf_id (rf_put t i s) = rf_id t"
  "rf_lifecycle (rf_put t i s) = rf_lifecycle t" "rf_leases (rf_put t i s) = rf_leases t"
  "rf_lease_capacity (rf_put t i s) = rf_lease_capacity t"
  "rf_slots (rf_put t i s) = (rf_slots t)[i := s]"
  by (simp_all add: rf_put_def)

lemma rf_validate_iff:
  "rf_validate_token t tok = Inr () \<longleftrightarrow> tk_ring tok = rf_ring t \<and> tk_table tok = rf_id t \<and>
     tk_slot tok < length (rf_slots t) \<and> fs_generation (rf_slots t ! tk_slot tok) = Some (tk_generation tok) \<and>
     fs_owner (rf_slots t ! tk_slot tok) \<noteq> None"
  by (auto simp: rf_validate_token_def)

lemma rf_pinned_iff:
  "rf_pinned t l \<longleftrightarrow> tk_ring (fl_token l) = rf_ring t \<and> tk_table (fl_token l) = rf_id t \<and>
     tk_slot (fl_token l) < length (rf_slots t) \<and>
     fs_generation (rf_slots t ! tk_slot (fl_token l)) = Some (tk_generation (fl_token l)) \<and>
     fs_owner (rf_slots t ! tk_slot (fl_token l)) = Some (fl_owner l)"
  by (auto simp: rf_pinned_def rf_validate_iff)

text \<open>What the fallible operations do when they succeed, and that they otherwise change nothing.\<close>

lemma rf_acquire_Inr:
  assumes "rf_acquire_token t tok = (t', Inr l)"
  shows "rf_lifecycle t = TlPublished" and "rf_leases t < rf_lease_capacity t" and "rf_pinned t l"
    and "t' = (rf_put t (tk_slot (fl_token l)) ((rf_slots t ! tk_slot (fl_token l))
        \<lparr>fs_leases := Suc (fs_leases (rf_slots t ! tk_slot (fl_token l)))\<rparr>))\<lparr>rf_leases := Suc (rf_leases t)\<rparr>"
  using assms unfolding rf_acquire_token_def rf_pinned_def
  by (auto simp: checked_iffs Let_def split: if_splits sum.splits option.splits)

lemma rf_acquire_Inl:
  assumes "rf_ok t" and "rf_acquire_token t tok = (t', Inl e)"
  shows "t' = t"
proof -
  have "checked_add u32_max (rf_leases t) 1 = Some (Suc (rf_leases t))"
    using assms(1) by (simp add: rf_ok_def checked_add_def u32_max_def ioring_max_cq_entries_def)
  then show ?thesis
    using assms(2) unfolding rf_acquire_token_def
    by (auto simp: Let_def split: if_splits sum.splits option.splits)
qed

lemma rf_release_Inr:
  assumes "rf_release t l = (t', Inr x)"
  shows "0 < rf_leases t" and "rf_validate_token t (fl_token l) = Inr ()"
    and "0 < fs_leases (rf_slots t ! tk_slot (fl_token l))"
    and "\<exists>s. t' = (rf_put t (tk_slot (fl_token l)) s)\<lparr>rf_leases := rf_leases t - 1\<rparr> \<and>
      fs_leases s = fs_leases (rf_slots t ! tk_slot (fl_token l)) - 1 \<and>
      (0 < fs_leases s \<longrightarrow> fs_generation s = fs_generation (rf_slots t ! tk_slot (fl_token l)) \<and>
         fs_owner s = fs_owner (rf_slots t ! tk_slot (fl_token l)))"
  using assms unfolding rf_release_def
  by (auto simp: Let_def rf_advance_generation_def split: if_splits sum.splits option.splits)

lemma rf_release_Inl: "rf_release t l = (t', Inl e) \<Longrightarrow> t' = t"
  unfolding rf_release_def by (auto simp: Let_def split: if_splits sum.splits option.splits)

lemma rf_release_pinned:
  assumes "rf_pinned t l" and "0 < rf_leases t" and "0 < fs_leases (rf_slots t ! tk_slot (fl_token l))"
  shows "\<exists>t' x. rf_release t l = (t', Inr x)"
  using assms unfolding rf_pinned_iff
  by (auto simp: rf_release_def rf_validate_token_def rf_slot_def vec_get_def Let_def)

lemma rf_install_fst:
  "fst (rf_install t slot owner) = t \<or> (rf_lifecycle t = TlBuilding \<and> slot < length (rf_slots t) \<and>
     fs_owner (rf_slots t ! slot) = None \<and>
     fst (rf_install t slot owner) = rf_put t slot ((rf_slots t ! slot)\<lparr>fs_owner := Some owner\<rparr>))"
  unfolding rf_install_def by (auto split: sum.splits option.splits)

lemma rf_retire_fst:
  "fst (rf_retire t tok) = t \<or> (rf_lifecycle t = TlRetiring \<and> tk_slot tok < length (rf_slots t) \<and>
     fs_leases (rf_slots t ! tk_slot tok) = 0 \<and>
     fst (rf_retire t tok) = rf_put t (tk_slot tok)
       (rf_advance_generation ((rf_slots t ! tk_slot tok)\<lparr>fs_owner := None\<rparr>) (tk_generation tok)))"
  unfolding rf_retire_def by (auto split: sum.splits option.splits)

text \<open>Operations that change the lifecycle or the cursor only.\<close>

definition rf_same :: "'o file_table \<Rightarrow> 'o file_table \<Rightarrow> bool" where
  "rf_same t t' \<longleftrightarrow> rf_ring t' = rf_ring t \<and> rf_id t' = rf_id t \<and> rf_slots t' = rf_slots t \<and>
     rf_leases t' = rf_leases t \<and> rf_lease_capacity t' = rf_lease_capacity t \<and>
     (rf_lifecycle t' = TlClosed \<longrightarrow> rf_lifecycle t = TlClosed \<or>
        rf_leases t = 0 \<and> (\<forall>s \<in> set (rf_slots t). fs_owner s = None))"

lemma rf_same_ops:
  "rf_same t t" "rf_same t (fst (rf_publish t))" "rf_same t (fst (rf_begin_retire t))"
  "rf_same t (fst (rf_next_retirable t))" "rf_same t (fst (rf_finish_retire t))"
  by (auto simp: rf_same_def rf_publish_def rf_begin_retire_def rf_next_retirable_def rf_finish_retire_def
      rf_progress_def progress_empty_def Let_def filter_empty_conv
      split: table_lifecycle.splits prod.splits sum.splits if_splits)

text \<open>Every internal step keeps the counters, and keeps each slot that has leases.\<close>

lemma rf_internal:
  assumes "rf_ok t" and "rf_step t Internal t'"
  shows "rf_same t t' \<or> (\<exists>i s. i < length (rf_slots t) \<and> t' = rf_put t i s \<and> fs_leases s = fs_leases (rf_slots t ! i) \<and>
    rf_lifecycle t \<noteq> TlClosed \<and> (fs_owner (rf_slots t ! i) = None \<or> fs_leases s = 0))"
  using assms(2)
proof cases
  case (rf_step_acquire_error tok e)
  then show ?thesis using rf_acquire_Inl [OF assms(1)] rf_same_ops(1) by blast
next
  case (rf_step_release_error l e)
  then show ?thesis using rf_release_Inl rf_same_ops(1) by blast
next
  case (rf_step_install slot owner)
  then show ?thesis
    using rf_install_fst [of t slot owner] rf_same_ops(1) [of t]
    by (auto intro!: exI [of _ slot] exI [of _ "(rf_slots t ! slot)\<lparr>fs_owner := Some owner\<rparr>"])
next
  case (rf_step_retire tok)
  then show ?thesis
    using rf_retire_fst [of t tok] rf_same_ops(1) [of t]
    by (auto intro!: exI [of _ "tk_slot tok"] exI [of _ "rf_advance_generation
      ((rf_slots t ! tk_slot tok)\<lparr>fs_owner := None\<rparr>) (tk_generation tok)"] simp: rf_advance_generation_def)
qed (simp_all add: rf_same_ops)

lemma rf_step_ok:
  assumes "rf_ok t" and "rf_step t ev t'"
  shows "rf_ok t' \<and> rf_lease_capacity t' = rf_lease_capacity t"
proof (cases ev)
  case (Acquired l)
  then obtain tok where "rf_acquire_token t tok = (t', Inr l)" using assms(2) by (auto elim: rf_step.cases)
  from rf_acquire_Inr [OF this] assms(1) show ?thesis by (simp add: rf_ok_def)
next
  case (Released l)
  then obtain x where "rf_release t l = (t', Inr x)" using assms(2) by (auto elim: rf_step.cases)
  from rf_release_Inr [OF this] assms(1) show ?thesis by (auto simp: rf_ok_def)
next
  case Internal
  show ?thesis
    using rf_internal [OF assms(1) assms(2) [unfolded Internal]] assms(1) by (auto simp: rf_ok_def rf_same_def)
qed

interpretation files: lease_table rf_ok rf_step rf_pinned "\<lambda>l. tk_slot (fl_token l)" rf_slot_leases rf_leases
proof unfold_locales
  fix s t :: "'o file_table" and ev
  assume "rf_ok s" "rf_step s ev t"
  then show "rf_ok t" by (blast dest: rf_step_ok)
next
  fix s t :: "'o file_table" and l
  assume "rf_ok s" "rf_step s (Acquired l) t"
  then obtain tok where "rf_acquire_token s tok = (t, Inr l)" by (auto elim: rf_step.cases)
  note a = rf_acquire_Inr [OF this]
  then show "rf_pinned t l \<and> (\<forall>k. rf_pinned s k \<longrightarrow> rf_pinned t k) \<and>
      rf_slot_leases t = (rf_slot_leases s)(tk_slot (fl_token l) := Suc (rf_slot_leases s (tk_slot (fl_token l)))) \<and>
      rf_leases t = Suc (rf_leases s)"
    by (auto simp: rf_pinned_iff rf_slot_leases_def nth_list_update fun_eq_iff)
next
  fix s t :: "'o file_table" and l
  assume "rf_ok s" and p: "rf_pinned s l" and "rf_step s (Released l) t"
  then obtain x where "rf_release s l = (t, Inr x)" by (auto elim: rf_step.cases)
  note r = rf_release_Inr [OF this]
  have len: "tk_slot (fl_token l) < length (rf_slots s)" using p by (simp add: rf_pinned_iff)
  from r(4) r(1,3) len show "rf_slot_leases s =
      (rf_slot_leases t)(tk_slot (fl_token l) := Suc (rf_slot_leases t (tk_slot (fl_token l)))) \<and>
      rf_leases s = Suc (rf_leases t) \<and>
      (\<forall>k. rf_pinned s k \<and> 0 < rf_slot_leases t (tk_slot (fl_token k)) \<longrightarrow> rf_pinned t k)"
    by (auto simp: rf_pinned_iff rf_slot_leases_def nth_list_update fun_eq_iff)
next
  fix s t :: "'o file_table"
  assume "rf_ok s" "rf_step s Internal t"
  from rf_internal [OF this]
  show "rf_slot_leases t = rf_slot_leases s \<and> rf_leases t = rf_leases s \<and>
      (\<forall>k. rf_pinned s k \<and> 0 < rf_slot_leases s (tk_slot (fl_token k)) \<longrightarrow> rf_pinned t k)"
    by (auto simp: rf_same_def rf_pinned_iff rf_slot_leases_def nth_list_update fun_eq_iff)
next
  fix s :: "'o file_table" and l
  assume "rf_ok s" "rf_pinned s l" "0 < rf_slot_leases s (tk_slot (fl_token l))" "0 < rf_leases s"
  then have "\<exists>t x. rf_release s l = (t, Inr x)"
    by (intro rf_release_pinned) (auto simp: rf_slot_leases_def split: if_splits)
  then show "\<exists>t. rf_step s (Released l) t" by (auto intro: rf_step_release)
qed

lemma rf_new_ok:
  assumes "rf_new alloc_ok ring tid capacity lease_capacity = Inr t"
  shows "rf_ok t" and "rf_slot_leases t = (\<lambda>_. 0)" and "rf_leases t = 0" and "rf_lease_capacity t = lease_capacity"
  using assms by (auto simp: rf_new_def rf_ok_def rf_slot_leases_def split: if_splits)

lemma rf_run_capacity:
  "lease_run rf_step t0 t L \<Longrightarrow> rf_ok t0 \<Longrightarrow> rf_ok t \<and> rf_lease_capacity t = rf_lease_capacity t0"
  by (induction rule: lease_run.induct) (auto dest: rf_step_ok)

text \<open>
  A registered file cannot be unregistered under a request that uses it. Along every run of
  a file table from its creation, each outstanding lease still validates, its slot still holds the owner
  the lease was given, and its release succeeds; the table counts exactly the outstanding leases, within
  its lease capacity; and a table that has closed has no outstanding lease and no installed file.
\<close>

theorem registered_file_pinned:
  assumes "rf_new alloc_ok ring tid capacity lease_capacity = Inr t0" and "lease_run rf_step t0 t L"
  shows "(\<forall>l \<in># L. rf_validate_token t (fl_token l) = Inr () \<and>
      fs_owner (rf_slots t ! tk_slot (fl_token l)) = Some (fl_owner l) \<and>
      (\<exists>t' x. rf_release t l = (t', Inr x))) \<and>
    rf_leases t = size L \<and> size L \<le> lease_capacity \<and>
    (rf_lifecycle t = TlClosed \<longrightarrow> L = {#} \<and> (\<forall>s \<in> set (rf_slots t). fs_owner s = None))"
proof -
  note new = rf_new_ok [OF assms(1)]
  note run = files.leases_pinned [OF assms(2) new(1-3)]
  have cap: "rf_ok t" "rf_lease_capacity t = lease_capacity" using rf_run_capacity [OF assms(2) new(1)] new(4) by auto
  have "\<exists>t' x. rf_release t l = (t', Inr x)" if "l \<in># L" for l
    using files.lease_releasable [OF assms(2) new(1-3) that] by (auto elim: rf_step_releasedE)
  then show ?thesis using run cap by (auto simp: rf_pinned_def rf_ok_def)
qed

text \<open>One installed file, published and leased once.\<close>

definition ex_files :: "nat file_table" where
  "ex_files = \<lparr>rf_ring = 7, rf_id = 1, rf_lifecycle = TlBuilding,
     rf_slots = [\<lparr>fs_generation = Some 1, fs_owner = None, fs_leases = 0\<rparr>],
     rf_retire_cursor = 0, rf_lease_capacity = 4, rf_leases = 0\<rparr>"

definition ex_files_leased :: "nat file_table" where
  "ex_files_leased = \<lparr>rf_ring = 7, rf_id = 1, rf_lifecycle = TlPublished,
     rf_slots = [\<lparr>fs_generation = Some 1, fs_owner = Some 99, fs_leases = 1\<rparr>],
     rf_retire_cursor = 0, rf_lease_capacity = 4, rf_leases = 1\<rparr>"

definition ex_file_lease :: "nat file_lease" where
  "ex_file_lease = \<lparr>fl_token = \<lparr>tk_ring = 7, tk_table = 1, tk_slot = 0, tk_generation = 1\<rparr>, fl_owner = 99\<rparr>"

lemma ex_files_run: "lease_run rf_step ex_files ex_files_leased {#ex_file_lease#}"
proof -
  let ?i = "fst (rf_install ex_files 0 99)"
  let ?p = "fst (rf_publish ?i)"
  have "rf_acquire_token ?p (fl_token ex_file_lease) = (ex_files_leased, Inr ex_file_lease)"
    by (simp add: ex_files_def ex_files_leased_def ex_file_lease_def rf_install_def rf_publish_def rf_slot_def
        vec_get_def rf_put_def rf_acquire_token_def rf_validate_token_def checked_add_def u32_max_def Let_def)
  then have "rf_step ?p (Acquired ex_file_lease) ex_files_leased" by (rule rf_step_acquire)
  moreover have "lease_run rf_step ex_files ?i {#}"
    by (rule run_internal [where s = ex_files]) (rule run_start, rule rf_step_install)
  then have "lease_run rf_step ex_files ?p {#}"
    by (rule run_internal) (rule rf_step_publish)
  ultimately show ?thesis using run_acquire by fastforce
qed

theorem registered_file_pinned_witness:
  "\<exists>t' x. rf_release ex_files_leased ex_file_lease = (t', Inr x)"
proof -
  have "rf_new True 7 1 1 4 = Inr ex_files"
    by (simp add: rf_new_def ex_files_def ioring_max_fixed_files_def ioring_max_cq_entries_def)
  from registered_file_pinned [OF this ex_files_run] show ?thesis by simp
qed

end
