(* ===== verification/Uring_Buffers.thy ===== *)
theory Uring_Buffers
  imports Uring_Lease
begin

text \<open>
  The registered-buffer table, \<^verbatim>\<open>io-uring/src/buffer.rs\<close>: like the file table, with the address range
  each slot registers and the range each lease was checked against. Addresses and lengths are \<open>nat\<close>
  under the checked 64-bit addition of the source.
\<close>

record buffer_range =
  br_address :: nat
  br_length :: nat

definition buffer_range_new :: "nat \<Rightarrow> nat \<Rightarrow> uring_error + buffer_range" where
  "buffer_range_new address len =
     (if checked_add u64_max address len = None then Inl UrInvalidBufferRange
      else Inr \<lparr>br_address = address, br_length = len\<rparr>)"

definition buffer_range_end :: "buffer_range \<Rightarrow> nat" where
  "buffer_range_end r = br_address r + br_length r"

record 'o buffer_slot =
  bs_generation :: "nat option"
  bs_address :: nat
  bs_length :: nat
  bs_owner :: "'o option"
  bs_leases :: nat

record 'o buffer_table =
  bt_ring :: nat
  bt_id :: nat
  bt_lifecycle :: table_lifecycle
  bt_slots :: "'o buffer_slot list"
  bt_retire_cursor :: nat
  bt_lease_capacity :: nat
  bt_leases :: nat

record 'o buffer_lease =
  bl_token :: resource_token
  bl_range :: buffer_range
  bl_owner :: 'o

datatype 'o buffer_release = BufferActive | BufferRetired resource_token 'o

definition buffer_table_id_new :: "nat \<Rightarrow> uring_error + nat" where
  "buffer_table_id_new raw = (if raw = 0 then Inl UrInvalidIdentity else Inr raw)"

definition bt_new ::
  "bool \<Rightarrow> nat \<Rightarrow> nat \<Rightarrow> nat \<Rightarrow> nat \<Rightarrow> uring_error + 'o buffer_table" where
  "bt_new alloc_ok ring tid capacity lease_capacity =
     (if capacity = 0 \<or> capacity > ioring_max_registered_buffers then Inl UrInvalidBufferTableCapacity
      else if lease_capacity = 0 \<or> lease_capacity > ioring_max_cq_entries then Inl UrInvalidBufferLeaseCapacity
      else if \<not> alloc_ok then Inl UrAllocationFailed
      else Inr \<lparr>bt_ring = ring, bt_id = tid, bt_lifecycle = TlBuilding,
        bt_slots = replicate capacity \<lparr>bs_generation = Some 1, bs_address = 0, bs_length = 0, bs_owner = None,
          bs_leases = 0\<rparr>,
        bt_retire_cursor = 0, bt_lease_capacity = lease_capacity, bt_leases = 0\<rparr>)"

definition bt_slot :: "'o buffer_table \<Rightarrow> nat \<Rightarrow> uring_error + 'o buffer_slot" where
  "bt_slot t i = ok_or UrInvalidBufferSlot (vec_get (bt_slots t) i)"

text \<open>A write through the slot reference of \<open>slot_mut\<close>.\<close>

definition bt_put :: "'o buffer_table \<Rightarrow> nat \<Rightarrow> 'o buffer_slot \<Rightarrow> 'o buffer_table" where
  "bt_put t i s = t\<lparr>bt_slots := (bt_slots t)[i := s]\<rparr>"

definition bt_advance_generation :: "'o buffer_slot \<Rightarrow> nat \<Rightarrow> 'o buffer_slot" where
  "bt_advance_generation s g = s\<lparr>bs_generation := checked_add u64_max g 1\<rparr>"

definition bt_validate_token :: "'o buffer_table \<Rightarrow> resource_token \<Rightarrow> uring_error + unit" where
  "bt_validate_token t tok =
     (if tk_ring tok \<noteq> bt_ring t \<or> tk_table tok \<noteq> bt_id t then Inl UrUnknownBufferLease
      else and_then (bt_slot t (tk_slot tok)) (\<lambda>s.
        if bs_generation s \<noteq> Some (tk_generation tok) \<or> bs_owner s = None then Inl UrUnknownBufferLease
        else Inr ()))"

definition bt_progress :: "'o buffer_table \<Rightarrow> uring_error + table_progress" where
  "bt_progress t =
     (let installed = length (filter (\<lambda>s. bs_owner s \<noteq> None) (bt_slots t))
      in if installed > u32_max \<or> length (bt_slots t) > u32_max then Inl UrOverflow
         else Inr \<lparr>tg_lifecycle = bt_lifecycle t, tg_capacity = length (bt_slots t),
                   tg_installed = installed, tg_leases = bt_leases t,
                   tg_lease_capacity = bt_lease_capacity t\<rparr>)"

definition bt_install ::
  "'o buffer_table \<Rightarrow> nat \<Rightarrow> nat \<Rightarrow> nat \<Rightarrow> 'o \<Rightarrow>
   ('o buffer_table, uring_error \<times> 'o, resource_token) outcome" where
  "bt_install t slot address len owner =
     (if checked_add u64_max address len = None \<or> len = 0 then (t, Inl (UrInvalidBufferRange, owner))
      else if bt_lifecycle t \<noteq> TlBuilding then
        (t, Inl (case bt_lifecycle t of TlRetiring \<Rightarrow> UrClosing | TlClosed \<Rightarrow> UrClosed | _ \<Rightarrow> UrBusy, owner))
      else case bt_slot t slot of
        Inl e \<Rightarrow> (t, Inl (e, owner))
      | Inr s \<Rightarrow>
        if bs_owner s \<noteq> None then (t, Inl (UrBufferSlotOccupied, owner))
        else case bs_generation s of
          None \<Rightarrow> (t, Inl (UrGenerationExhausted, owner))
        | Some g \<Rightarrow> (bt_put t slot (s\<lparr>bs_address := address, bs_length := len, bs_owner := Some owner\<rparr>),
            Inr \<lparr>tk_ring = bt_ring t, tk_table = bt_id t, tk_slot = slot, tk_generation = g\<rparr>))"

definition bt_publish :: "'o buffer_table \<Rightarrow> ('o buffer_table, uring_error, table_progress) outcome" where
  "bt_publish t =
     (case bt_lifecycle t of
        TlBuilding \<Rightarrow> let t1 = t\<lparr>bt_lifecycle := TlPublished\<rparr> in (t1, bt_progress t1)
      | TlPublished \<Rightarrow> (t, bt_progress t)
      | TlRetiring \<Rightarrow> (t, Inl UrClosing)
      | TlClosed \<Rightarrow> (t, Inl UrClosed))"

definition bt_unpublished_error :: "table_lifecycle \<Rightarrow> uring_error" where
  "bt_unpublished_error l =
     (case l of TlRetiring \<Rightarrow> UrClosing | TlClosed \<Rightarrow> UrClosed | _ \<Rightarrow> UrBufferTableNotPublished)"

definition bt_token :: "'o buffer_table \<Rightarrow> nat \<Rightarrow> uring_error + resource_token" where
  "bt_token t slot =
     (if bt_lifecycle t \<noteq> TlPublished then Inl (bt_unpublished_error (bt_lifecycle t))
      else and_then (bt_slot t slot) (\<lambda>s.
        if bs_owner s = None then Inl UrBufferSlotEmpty
        else and_then (ok_or UrGenerationExhausted (bs_generation s)) (\<lambda>g.
          Inr \<lparr>tk_ring = bt_ring t, tk_table = bt_id t, tk_slot = slot, tk_generation = g\<rparr>)))"

definition bt_acquire_token ::
  "'o buffer_table \<Rightarrow> resource_token \<Rightarrow> nat \<Rightarrow> nat \<Rightarrow>
   ('o buffer_table, uring_error, 'o buffer_lease) outcome" where
  "bt_acquire_token t tok address len =
     (if bt_lifecycle t \<noteq> TlPublished then (t, Inl (bt_unpublished_error (bt_lifecycle t)))
      else case bt_validate_token t tok of
        Inl e \<Rightarrow> (t, Inl e)
      | Inr _ \<Rightarrow>
        case buffer_range_new address len of
          Inl e \<Rightarrow> (t, Inl e)
        | Inr area \<Rightarrow>
          if bt_leases t \<ge> bt_lease_capacity t then (t, Inl UrBufferLeaseCapacityExceeded)
          else case bt_slot t (tk_slot tok) of
            Inl e \<Rightarrow> (t, Inl e)
          | Inr s \<Rightarrow>
            if bs_generation s \<noteq> Some (tk_generation tok) then (t, Inl UrUnknownBufferLease)
            else case checked_add u64_max (bs_address s) (bs_length s) of
              None \<Rightarrow> (t, Inl UrInvalidBufferRange)
            | Some registered_end \<Rightarrow>
              if address < bs_address s \<or> buffer_range_end area > registered_end
              then (t, Inl UrInvalidBufferRange)
              else case bs_owner s of
                None \<Rightarrow> (t, Inl UrBufferSlotEmpty)
              | Some owner \<Rightarrow>
                case checked_add u32_max (bs_leases s) 1 of
                  None \<Rightarrow> (t, Inl UrOverflow)
                | Some n \<Rightarrow>
                  let t1 = bt_put t (tk_slot tok) (s\<lparr>bs_leases := n\<rparr>) in
                  case checked_add u32_max (bt_leases t1) 1 of
                    None \<Rightarrow> (t1, Inl UrOverflow)
                  | Some m \<Rightarrow> (t1\<lparr>bt_leases := m\<rparr>,
                      Inr \<lparr>bl_token = tok, bl_range = area, bl_owner = owner\<rparr>))"

definition bt_acquire ::
  "'o buffer_table \<Rightarrow> nat \<Rightarrow> nat \<Rightarrow> nat \<Rightarrow> ('o buffer_table, uring_error, 'o buffer_lease) outcome" where
  "bt_acquire t slot address len =
     (case bt_token t slot of Inl e \<Rightarrow> (t, Inl e) | Inr tok \<Rightarrow> bt_acquire_token t tok address len)"

definition bt_begin_retire :: "'o buffer_table \<Rightarrow> ('o buffer_table, uring_error, table_progress) outcome" where
  "bt_begin_retire t =
     (let t1 = (if bt_lifecycle t = TlBuilding \<or> bt_lifecycle t = TlPublished
                then t\<lparr>bt_lifecycle := TlRetiring, bt_retire_cursor := 0\<rparr> else t)
      in (t1, bt_progress t1))"

definition bt_retire ::
  "'o buffer_table \<Rightarrow> resource_token \<Rightarrow> ('o buffer_table, uring_error, resource_token \<times> 'o) outcome" where
  "bt_retire t tok =
     (if bt_lifecycle t \<noteq> TlRetiring then (t, Inl UrInvalidLifecycleTransition)
      else case bt_validate_token t tok of
        Inl e \<Rightarrow> (t, Inl e)
      | Inr _ \<Rightarrow>
        case bt_slot t (tk_slot tok) of
          Inl e \<Rightarrow> (t, Inl e)
        | Inr s \<Rightarrow>
          if bs_leases s \<noteq> 0 then (t, Inl UrBusy)
          else case bs_owner s of
            None \<Rightarrow> (t, Inl UrBufferSlotEmpty)
          | Some owner \<Rightarrow>
            (bt_put t (tk_slot tok) (bt_advance_generation (s\<lparr>bs_owner := None\<rparr>) (tk_generation tok)),
             Inr (tok, owner)))"

text \<open>The loop of \<open>next_retirable\<close> over the slots from the cursor on: the new cursor and the result.\<close>

fun bt_scan_retirable ::
  "nat \<Rightarrow> 'o buffer_slot list \<Rightarrow> nat \<times> (uring_error + (nat \<times> nat) option)" where
  "bt_scan_retirable cursor [] = (cursor, Inr None)"
| "bt_scan_retirable cursor (s # rest) =
     (if bs_owner s \<noteq> None \<and> bs_leases s = 0
      then (Suc cursor, and_then (ok_or UrGenerationExhausted (bs_generation s)) (\<lambda>g. Inr (Some (cursor, g))))
      else bt_scan_retirable (Suc cursor) rest)"

definition bt_next_retirable ::
  "'o buffer_table \<Rightarrow> ('o buffer_table, uring_error, resource_token option) outcome" where
  "bt_next_retirable t =
     (if bt_lifecycle t \<noteq> TlRetiring then (t, Inl UrInvalidLifecycleTransition)
      else case bt_scan_retirable (bt_retire_cursor t) (drop (bt_retire_cursor t) (bt_slots t)) of
        (cursor, found) \<Rightarrow> (t\<lparr>bt_retire_cursor := cursor\<rparr>,
          and_then found (\<lambda>f. Inr (map_option (\<lambda>(slot, g).
            \<lparr>tk_ring = bt_ring t, tk_table = bt_id t, tk_slot = slot, tk_generation = g\<rparr>) f))))"

definition bt_release ::
  "'o buffer_table \<Rightarrow> 'o buffer_lease \<Rightarrow>
   ('o buffer_table, uring_error \<times> 'o buffer_lease, 'o buffer_release) outcome" where
  "bt_release t lease =
     (let tok = bl_token lease in
      case bt_validate_token t tok of
        Inl e \<Rightarrow> (t, Inl (e, lease))
      | Inr _ \<Rightarrow>
        if bt_leases t = 0 then (t, Inl (UrUnknownBufferLease, lease))
        else case bt_slot t (tk_slot tok) of
          Inl e \<Rightarrow> (t, Inl (e, lease))
        | Inr s \<Rightarrow>
          if bs_leases s = 0 then (t, Inl (UrUnknownBufferLease, lease))
          else if bt_lifecycle t = TlRetiring \<and> bs_leases s = 1 then
            (case bs_owner s of
               Some owner \<Rightarrow>
                 ((bt_put t (tk_slot tok) (bt_advance_generation (s\<lparr>bs_owner := None, bs_leases := 0\<rparr>)
                     (tk_generation tok)))\<lparr>bt_leases := bt_leases t - 1\<rparr>,
                  Inr (BufferRetired tok owner))
             | None \<Rightarrow> (t, Inl (UrBufferSlotEmpty, lease)))
          else ((bt_put t (tk_slot tok) (s\<lparr>bs_leases := bs_leases s - 1\<rparr>))\<lparr>bt_leases := bt_leases t - 1\<rparr>,
                Inr BufferActive))"

definition bt_finish_retire :: "'o buffer_table \<Rightarrow> ('o buffer_table, uring_error, unit) outcome" where
  "bt_finish_retire t =
     (if bt_lifecycle t = TlClosed then (t, Inr ())
      else if bt_lifecycle t \<noteq> TlRetiring then (t, Inl UrInvalidLifecycleTransition)
      else case bt_progress t of
        Inl e \<Rightarrow> (t, Inl e)
      | Inr p \<Rightarrow> if \<not> progress_empty p then (t, Inl UrBusy)
                else (t\<lparr>bt_lifecycle := TlClosed\<rparr>, Inr ()))"

section \<open>Steps and invariant\<close>

inductive bt_step :: "'o buffer_table \<Rightarrow> 'o buffer_lease lease_event \<Rightarrow> 'o buffer_table \<Rightarrow> bool" where
  bt_step_acquire: "bt_acquire_token t tok address len = (t', Inr l) \<Longrightarrow> bt_step t (Acquired l) t'"
| bt_step_acquire_error: "bt_acquire_token t tok address len = (t', Inl e) \<Longrightarrow> bt_step t Internal t'"
| bt_step_release: "bt_release t l = (t', Inr x) \<Longrightarrow> bt_step t (Released l) t'"
| bt_step_release_error: "bt_release t l = (t', Inl e) \<Longrightarrow> bt_step t Internal t'"
| bt_step_install: "bt_step t Internal (fst (bt_install t slot address len owner))"
| bt_step_publish: "bt_step t Internal (fst (bt_publish t))"
| bt_step_begin_retire: "bt_step t Internal (fst (bt_begin_retire t))"
| bt_step_retire: "bt_step t Internal (fst (bt_retire t tok))"
| bt_step_next_retirable: "bt_step t Internal (fst (bt_next_retirable t))"
| bt_step_finish_retire: "bt_step t Internal (fst (bt_finish_retire t))"

inductive_cases bt_step_releasedE: "bt_step t (Released l) t'"

definition bt_ok :: "'o buffer_table \<Rightarrow> bool" where
  "bt_ok t \<longleftrightarrow> bt_leases t \<le> bt_lease_capacity t \<and> bt_lease_capacity t \<le> ioring_max_cq_entries \<and>
     (bt_lifecycle t = TlClosed \<longrightarrow> bt_leases t = 0 \<and> (\<forall>s \<in> set (bt_slots t). bs_owner s = None))"

text \<open>The range of a lease lies inside the range its slot registers.\<close>

definition bt_covers :: "'o buffer_slot \<Rightarrow> buffer_range \<Rightarrow> bool" where
  "bt_covers s r \<longleftrightarrow> bs_address s \<le> br_address r \<and> buffer_range_end r \<le> bs_address s + bs_length s"

definition bt_pinned :: "'o buffer_table \<Rightarrow> 'o buffer_lease \<Rightarrow> bool" where
  "bt_pinned t l \<longleftrightarrow> bt_validate_token t (bl_token l) = Inr () \<and>
     bs_owner (bt_slots t ! tk_slot (bl_token l)) = Some (bl_owner l) \<and>
     bt_covers (bt_slots t ! tk_slot (bl_token l)) (bl_range l)"

definition bt_slot_leases :: "'o buffer_table \<Rightarrow> nat \<Rightarrow> nat" where
  "bt_slot_leases t i = (if i < length (bt_slots t) then bs_leases (bt_slots t ! i) else 0)"

lemma bt_slot_Inr_iff [simp]: "bt_slot t i = Inr s \<longleftrightarrow> i < length (bt_slots t) \<and> s = bt_slots t ! i"
  by (auto simp: bt_slot_def vec_get_iffs)

lemma bt_put_fields [simp]:
  "bt_ring (bt_put t i s) = bt_ring t" "bt_id (bt_put t i s) = bt_id t"
  "bt_lifecycle (bt_put t i s) = bt_lifecycle t" "bt_leases (bt_put t i s) = bt_leases t"
  "bt_lease_capacity (bt_put t i s) = bt_lease_capacity t"
  "bt_slots (bt_put t i s) = (bt_slots t)[i := s]"
  by (simp_all add: bt_put_def)

lemma bt_validate_iff:
  "bt_validate_token t tok = Inr () \<longleftrightarrow> tk_ring tok = bt_ring t \<and> tk_table tok = bt_id t \<and>
     tk_slot tok < length (bt_slots t) \<and> bs_generation (bt_slots t ! tk_slot tok) = Some (tk_generation tok) \<and>
     bs_owner (bt_slots t ! tk_slot tok) \<noteq> None"
  by (auto simp: bt_validate_token_def)

lemma bt_pinned_iff:
  "bt_pinned t l \<longleftrightarrow> tk_ring (bl_token l) = bt_ring t \<and> tk_table (bl_token l) = bt_id t \<and>
     tk_slot (bl_token l) < length (bt_slots t) \<and>
     bs_generation (bt_slots t ! tk_slot (bl_token l)) = Some (tk_generation (bl_token l)) \<and>
     bs_owner (bt_slots t ! tk_slot (bl_token l)) = Some (bl_owner l) \<and>
     bt_covers (bt_slots t ! tk_slot (bl_token l)) (bl_range l)"
  by (auto simp: bt_pinned_def bt_validate_iff)

text \<open>What the fallible operations do when they succeed, and that they otherwise change nothing.\<close>

lemma bt_acquire_Inr:
  assumes "bt_acquire_token t tok address len = (t', Inr l)"
  shows "bt_lifecycle t = TlPublished" and "bt_leases t < bt_lease_capacity t" and "bt_pinned t l"
    and "t' = (bt_put t (tk_slot (bl_token l)) ((bt_slots t ! tk_slot (bl_token l))
        \<lparr>bs_leases := Suc (bs_leases (bt_slots t ! tk_slot (bl_token l)))\<rparr>))\<lparr>bt_leases := Suc (bt_leases t)\<rparr>"
  using assms unfolding bt_acquire_token_def bt_pinned_def
  by (auto simp: checked_iffs Let_def bt_covers_def buffer_range_new_def split: if_splits sum.splits option.splits)

lemma bt_acquire_Inl:
  assumes "bt_ok t" and "bt_acquire_token t tok address len = (t', Inl e)"
  shows "t' = t"
proof -
  have "checked_add u32_max (bt_leases t) 1 = Some (Suc (bt_leases t))"
    using assms(1) by (simp add: bt_ok_def checked_add_def u32_max_def ioring_max_cq_entries_def)
  then show ?thesis
    using assms(2) unfolding bt_acquire_token_def
    by (auto simp: Let_def split: if_splits sum.splits option.splits)
qed

lemma bt_release_Inr:
  assumes "bt_release t l = (t', Inr x)"
  shows "0 < bt_leases t" and "bt_validate_token t (bl_token l) = Inr ()"
    and "0 < bs_leases (bt_slots t ! tk_slot (bl_token l))"
    and "\<exists>s. t' = (bt_put t (tk_slot (bl_token l)) s)\<lparr>bt_leases := bt_leases t - 1\<rparr> \<and>
      bs_leases s = bs_leases (bt_slots t ! tk_slot (bl_token l)) - 1 \<and>
      (0 < bs_leases s \<longrightarrow> bs_generation s = bs_generation (bt_slots t ! tk_slot (bl_token l)) \<and>
         bs_owner s = bs_owner (bt_slots t ! tk_slot (bl_token l))) \<and>
      bs_address s = bs_address (bt_slots t ! tk_slot (bl_token l)) \<and>
      bs_length s = bs_length (bt_slots t ! tk_slot (bl_token l))"
  using assms unfolding bt_release_def
  by (auto simp: Let_def bt_advance_generation_def split: if_splits sum.splits option.splits)

lemma bt_release_Inl: "bt_release t l = (t', Inl e) \<Longrightarrow> t' = t"
  unfolding bt_release_def by (auto simp: Let_def split: if_splits sum.splits option.splits)

lemma bt_release_pinned:
  assumes "bt_pinned t l" and "0 < bt_leases t" and "0 < bs_leases (bt_slots t ! tk_slot (bl_token l))"
  shows "\<exists>t' x. bt_release t l = (t', Inr x)"
  using assms unfolding bt_pinned_iff
  by (auto simp: bt_release_def bt_validate_token_def bt_slot_def vec_get_def Let_def)

lemma bt_install_fst:
  "fst (bt_install t slot address len owner) = t \<or> (bt_lifecycle t = TlBuilding \<and> slot < length (bt_slots t) \<and>
     bs_owner (bt_slots t ! slot) = None \<and>
     fst (bt_install t slot address len owner) = bt_put t slot ((bt_slots t ! slot)\<lparr>bs_address := address, bs_length := len, bs_owner := Some owner\<rparr>))"
  unfolding bt_install_def by (auto split: sum.splits option.splits)

lemma bt_retire_fst:
  "fst (bt_retire t tok) = t \<or> (bt_lifecycle t = TlRetiring \<and> tk_slot tok < length (bt_slots t) \<and>
     bs_leases (bt_slots t ! tk_slot tok) = 0 \<and>
     fst (bt_retire t tok) = bt_put t (tk_slot tok)
       (bt_advance_generation ((bt_slots t ! tk_slot tok)\<lparr>bs_owner := None\<rparr>) (tk_generation tok)))"
  unfolding bt_retire_def by (auto split: sum.splits option.splits)

text \<open>Operations that change the lifecycle or the cursor only.\<close>

definition bt_same :: "'o buffer_table \<Rightarrow> 'o buffer_table \<Rightarrow> bool" where
  "bt_same t t' \<longleftrightarrow> bt_ring t' = bt_ring t \<and> bt_id t' = bt_id t \<and> bt_slots t' = bt_slots t \<and>
     bt_leases t' = bt_leases t \<and> bt_lease_capacity t' = bt_lease_capacity t \<and>
     (bt_lifecycle t' = TlClosed \<longrightarrow> bt_lifecycle t = TlClosed \<or>
        bt_leases t = 0 \<and> (\<forall>s \<in> set (bt_slots t). bs_owner s = None))"

lemma bt_same_ops:
  "bt_same t t" "bt_same t (fst (bt_publish t))" "bt_same t (fst (bt_begin_retire t))"
  "bt_same t (fst (bt_next_retirable t))" "bt_same t (fst (bt_finish_retire t))"
  by (auto simp: bt_same_def bt_publish_def bt_begin_retire_def bt_next_retirable_def bt_finish_retire_def
      bt_progress_def progress_empty_def Let_def filter_empty_conv
      split: table_lifecycle.splits prod.splits sum.splits if_splits)

text \<open>Every internal step keeps the counters, and keeps each slot that has leases.\<close>

lemma bt_internal:
  assumes "bt_ok t" and "bt_step t Internal t'"
  shows "bt_same t t' \<or> (\<exists>i s. i < length (bt_slots t) \<and> t' = bt_put t i s \<and> bs_leases s = bs_leases (bt_slots t ! i) \<and>
    bt_lifecycle t \<noteq> TlClosed \<and> (bs_owner (bt_slots t ! i) = None \<or> bs_leases s = 0))"
  using assms(2)
proof cases
  case (bt_step_acquire_error tok address len e)
  then show ?thesis using bt_acquire_Inl [OF assms(1)] bt_same_ops(1) by blast
next
  case (bt_step_release_error l e)
  then show ?thesis using bt_release_Inl bt_same_ops(1) by blast
next
  case (bt_step_install slot address len owner)
  then show ?thesis
    using bt_install_fst [of t slot address len owner] bt_same_ops(1) [of t]
    by (auto intro!: exI [of _ slot] exI [of _ "(bt_slots t ! slot)\<lparr>bs_address := address, bs_length := len, bs_owner := Some owner\<rparr>"])
next
  case (bt_step_retire tok)
  then show ?thesis
    using bt_retire_fst [of t tok] bt_same_ops(1) [of t]
    by (auto intro!: exI [of _ "tk_slot tok"] exI [of _ "bt_advance_generation
      ((bt_slots t ! tk_slot tok)\<lparr>bs_owner := None\<rparr>) (tk_generation tok)"] simp: bt_advance_generation_def)
qed (simp_all add: bt_same_ops)

lemma bt_step_ok:
  assumes "bt_ok t" and "bt_step t ev t'"
  shows "bt_ok t' \<and> bt_lease_capacity t' = bt_lease_capacity t"
proof (cases ev)
  case (Acquired l)
  then obtain tok address len where "bt_acquire_token t tok address len = (t', Inr l)" using assms(2) by (auto elim: bt_step.cases)
  from bt_acquire_Inr [OF this] assms(1) show ?thesis by (simp add: bt_ok_def)
next
  case (Released l)
  then obtain x where "bt_release t l = (t', Inr x)" using assms(2) by (auto elim: bt_step.cases)
  from bt_release_Inr [OF this] assms(1) show ?thesis by (auto simp: bt_ok_def)
next
  case Internal
  show ?thesis
    using bt_internal [OF assms(1) assms(2) [unfolded Internal]] assms(1) by (auto simp: bt_ok_def bt_same_def)
qed

interpretation buffers: lease_table bt_ok bt_step bt_pinned "\<lambda>l. tk_slot (bl_token l)" bt_slot_leases bt_leases
proof unfold_locales
  fix s t :: "'o buffer_table" and ev
  assume "bt_ok s" "bt_step s ev t"
  then show "bt_ok t" by (blast dest: bt_step_ok)
next
  fix s t :: "'o buffer_table" and l
  assume "bt_ok s" "bt_step s (Acquired l) t"
  then obtain tok address len where "bt_acquire_token s tok address len = (t, Inr l)" by (auto elim: bt_step.cases)
  note a = bt_acquire_Inr [OF this]
  then show "bt_pinned t l \<and> (\<forall>k. bt_pinned s k \<longrightarrow> bt_pinned t k) \<and>
      bt_slot_leases t = (bt_slot_leases s)(tk_slot (bl_token l) := Suc (bt_slot_leases s (tk_slot (bl_token l)))) \<and>
      bt_leases t = Suc (bt_leases s)"
    by (auto simp: bt_pinned_iff bt_covers_def bt_slot_leases_def nth_list_update fun_eq_iff)
next
  fix s t :: "'o buffer_table" and l
  assume "bt_ok s" and p: "bt_pinned s l" and "bt_step s (Released l) t"
  then obtain x where "bt_release s l = (t, Inr x)" by (auto elim: bt_step.cases)
  note r = bt_release_Inr [OF this]
  have len: "tk_slot (bl_token l) < length (bt_slots s)" using p by (simp add: bt_pinned_iff)
  from r(4) r(1,3) len show "bt_slot_leases s =
      (bt_slot_leases t)(tk_slot (bl_token l) := Suc (bt_slot_leases t (tk_slot (bl_token l)))) \<and>
      bt_leases s = Suc (bt_leases t) \<and>
      (\<forall>k. bt_pinned s k \<and> 0 < bt_slot_leases t (tk_slot (bl_token k)) \<longrightarrow> bt_pinned t k)"
    by (auto simp: bt_pinned_iff bt_covers_def bt_slot_leases_def nth_list_update fun_eq_iff)
next
  fix s t :: "'o buffer_table"
  assume "bt_ok s" "bt_step s Internal t"
  from bt_internal [OF this]
  show "bt_slot_leases t = bt_slot_leases s \<and> bt_leases t = bt_leases s \<and>
      (\<forall>k. bt_pinned s k \<and> 0 < bt_slot_leases s (tk_slot (bl_token k)) \<longrightarrow> bt_pinned t k)"
    by (auto simp: bt_same_def bt_pinned_iff bt_covers_def bt_slot_leases_def nth_list_update fun_eq_iff)
next
  fix s :: "'o buffer_table" and l
  assume "bt_ok s" "bt_pinned s l" "0 < bt_slot_leases s (tk_slot (bl_token l))" "0 < bt_leases s"
  then have "\<exists>t x. bt_release s l = (t, Inr x)"
    by (intro bt_release_pinned) (auto simp: bt_slot_leases_def split: if_splits)
  then show "\<exists>t. bt_step s (Released l) t" by (auto intro: bt_step_release)
qed

lemma bt_new_ok:
  assumes "bt_new alloc_ok ring tid capacity lease_capacity = Inr t"
  shows "bt_ok t" and "bt_slot_leases t = (\<lambda>_. 0)" and "bt_leases t = 0" and "bt_lease_capacity t = lease_capacity"
  using assms by (auto simp: bt_new_def bt_ok_def bt_slot_leases_def split: if_splits)

lemma bt_run_capacity:
  "lease_run bt_step t0 t L \<Longrightarrow> bt_ok t0 \<Longrightarrow> bt_ok t \<and> bt_lease_capacity t = bt_lease_capacity t0"
  by (induction rule: lease_run.induct) (auto dest: bt_step_ok)

text \<open>
  A registered buffer stays in place under every lease. Along every run of a buffer table from its
  creation, each outstanding lease still validates, its slot still holds the owner the lease was
  given, the leased range lies inside the range that slot registers, and its release succeeds; the table
  counts exactly the outstanding leases, within its lease capacity; and a closed table has no
  outstanding lease and no installed buffer.
\<close>

theorem registered_buffer_pinned:
  assumes "bt_new alloc_ok ring tid capacity lease_capacity = Inr t0" and "lease_run bt_step t0 t L"
  shows "(\<forall>l \<in># L. bt_validate_token t (bl_token l) = Inr () \<and>
      bs_owner (bt_slots t ! tk_slot (bl_token l)) = Some (bl_owner l) \<and>
      bs_address (bt_slots t ! tk_slot (bl_token l)) \<le> br_address (bl_range l) \<and>
      buffer_range_end (bl_range l) \<le>
        bs_address (bt_slots t ! tk_slot (bl_token l)) + bs_length (bt_slots t ! tk_slot (bl_token l)) \<and>
      (\<exists>t' x. bt_release t l = (t', Inr x))) \<and>
    bt_leases t = size L \<and> size L \<le> lease_capacity \<and>
    (bt_lifecycle t = TlClosed \<longrightarrow> L = {#} \<and> (\<forall>s \<in> set (bt_slots t). bs_owner s = None))"
proof -
  note new = bt_new_ok [OF assms(1)]
  note run = buffers.leases_pinned [OF assms(2) new(1-3)]
  have cap: "bt_ok t" "bt_lease_capacity t = lease_capacity" using bt_run_capacity [OF assms(2) new(1)] new(4) by auto
  have "\<exists>t' x. bt_release t l = (t', Inr x)" if "l \<in># L" for l
    using buffers.lease_releasable [OF assms(2) new(1-3) that] by (auto elim: bt_step_releasedE)
  then show ?thesis using run cap by (auto simp: bt_pinned_def bt_covers_def bt_ok_def)
qed

text \<open>One installed buffer, published, and a sub-range of it leased once.\<close>

definition ex_buffers :: "nat buffer_table" where
  "ex_buffers = \<lparr>bt_ring = 7, bt_id = 1, bt_lifecycle = TlBuilding,
     bt_slots = [\<lparr>bs_generation = Some 1, bs_address = 0, bs_length = 0, bs_owner = None, bs_leases = 0\<rparr>],
     bt_retire_cursor = 0, bt_lease_capacity = 4, bt_leases = 0\<rparr>"

definition ex_buffers_leased :: "nat buffer_table" where
  "ex_buffers_leased = \<lparr>bt_ring = 7, bt_id = 1, bt_lifecycle = TlPublished,
     bt_slots = [\<lparr>bs_generation = Some 1, bs_address = 4096, bs_length = 100, bs_owner = Some 99, bs_leases = 1\<rparr>],
     bt_retire_cursor = 0, bt_lease_capacity = 4, bt_leases = 1\<rparr>"

definition ex_buffer_lease :: "nat buffer_lease" where
  "ex_buffer_lease = \<lparr>bl_token = \<lparr>tk_ring = 7, tk_table = 1, tk_slot = 0, tk_generation = 1\<rparr>,
     bl_range = \<lparr>br_address = 4100, br_length = 50\<rparr>, bl_owner = 99\<rparr>"

lemma ex_buffers_run: "lease_run bt_step ex_buffers ex_buffers_leased {#ex_buffer_lease#}"
proof -
  let ?i = "fst (bt_install ex_buffers 0 4096 100 99)"
  let ?p = "fst (bt_publish ?i)"
  have "bt_acquire_token ?p (bl_token ex_buffer_lease) 4100 50 = (ex_buffers_leased, Inr ex_buffer_lease)"
    by (simp add: ex_buffers_def ex_buffers_leased_def ex_buffer_lease_def bt_install_def bt_publish_def bt_slot_def
        vec_get_def bt_put_def bt_acquire_token_def bt_validate_token_def checked_add_def u32_max_def u64_max_def
        buffer_range_new_def buffer_range_end_def Let_def)
  then have "bt_step ?p (Acquired ex_buffer_lease) ex_buffers_leased" by (rule bt_step_acquire)
  moreover have "lease_run bt_step ex_buffers ?i {#}"
    by (rule run_internal [where s = ex_buffers]) (rule run_start, rule bt_step_install)
  then have "lease_run bt_step ex_buffers ?p {#}"
    by (rule run_internal) (rule bt_step_publish)
  ultimately show ?thesis using run_acquire by fastforce
qed

theorem registered_buffer_pinned_witness:
  "buffer_range_end (bl_range ex_buffer_lease) \<le> 4196 \<and>
   (\<exists>t' x. bt_release ex_buffers_leased ex_buffer_lease = (t', Inr x))"
proof -
  have "bt_new True 7 1 1 4 = Inr ex_buffers"
    by (simp add: bt_new_def ex_buffers_def ioring_max_registered_buffers_def ioring_max_cq_entries_def)
  from registered_buffer_pinned [OF this ex_buffers_run] show ?thesis
    by (simp add: ex_buffers_leased_def ex_buffer_lease_def)
qed

end
