(* ===== verification/Spec2Isabelle.thy ===== *)
theory Spec2Isabelle
  imports Fd_Table_Props Epoll_Props Epoll_Graph_Props Watch_Subscription Seccomp_State_Props
    Mm_Range_Props Pin_Registry_Props Pin_Budget_Props Cred_Transition_Props Cred_Ns_Props
    Uring_Sqe Uring_Request_Props Uring_Files Uring_Buffers
begin

text \<open>
  A verification library for the Linux ABI support crates of the workspace.

  \<^bold>\<open>The program.\<close> The workspace is a set of allocation-aware, lock-free-of-its-own policy crates
  that a kernel embeds: each crate owns the state and the decisions behind one part of the
  Linux ABI and leaves page tables, files, locks and user memory to its consumer. A consumer
  snapshots its own facts, calls an operation on \<open>&mut self\<close>, and acts on the answer. The parts
  interact through tokens (a table issues a token with a generation, and later operations
  present it), through charges (an operation reserves credit in a bounded account and a
  destructor or a release returns it) and through two-phase protocols (reserve or prepare, then
  publish, commit or cancel). These patterns are the interfaces of the library:

  \<^item> \<open>Generation_Domain\<close> states the token contract as the locale \<open>generation_domain\<close> and proves
    once that a stale token stays stale. It is interpreted on the descriptor table (\<open>slots\<close>),
    the epoll interest table (\<open>interests\<close>), the epoll graph (\<open>gnodes\<close>, \<open>gedges\<close>), the pin
    registry (\<open>pins\<close>) and the open claims of an \<open>io_uring\<close> request registry (\<open>claims\<close>).
  \<^item> \<open>Bounded_Account\<close> models the compare-and-exchange retry loop with interference and states
    the credit contract as the locale \<open>bounded_account\<close>; it is interpreted on watch accounts
    (\<open>watch\<close>) and filter budgets (\<open>filter_mem\<close>).
  \<^item> \<open>Ready_Queue\<close> states the contract of a bounded first-in first-out queue and discharges it for
    the ring buffer of the epoll core (\<open>rq\<close>).
  \<^item> \<open>Uring_Lease\<close> states the contract of a table whose leases pin their slots as the locale
    \<open>lease_table\<close>; it is interpreted on the registered files (\<open>files\<close>) and the registered
    buffers (\<open>buffers\<close>) of a ring.

  \<^bold>\<open>Conventions.\<close> A struct is a record, an enum a datatype, one definition per function. An
  operation that can fail on \<open>&mut self\<close> returns the state together with a sum, so that what it
  leaves behind on an error is part of the model. Unsigned integers used as counters, sizes and
  addresses are \<open>nat\<close> with the checked and saturating operations of \<open>Abi_Prelude\<close> carrying the
  width; flag words, masks, descriptor numbers and counters that wrap are words. The allocator's
  answer is an argument wherever the source allocates fallibly. Reference-counted cells that are
  shared and mutated are entries of an explicit heap; an \<open>Arc\<close> that is compared by address is the
  pair of an address and its value. Code of other packages (the \<open>axcbpf\<close> mechanism crate, native
  executors, registration back ends) appears as function arguments, the UAPI constants as the
  parameter record \<open>linux_uapi\<close> and the namespace trait as the record \<open>namespace_view\<close>. The target is
  64-bit and little-endian: \<open>native_bytes\<close> is the byte image of such a target.

  \<^bold>\<open>Theories.\<close> \<open>Abi_Prelude\<close> holds the integer bounds, the checked arithmetic, the result
  combinators and the lemmas on slot vectors that all components share.
  \<^item> \<open>Fd_Types\<close>, \<open>Fd_Table\<close> model \<^verbatim>\<open>fd/src/types.rs\<close>, \<^verbatim>\<open>ofd.rs\<close> and \<^verbatim>\<open>table.rs\<close>. \<open>Fd_Table_Safety\<close>
    proves the slot invariant for every operation and the token contract; \<open>Fd_Table_Props\<close> the
    behaviour of reservation, publication, closing, duplication, exec and fork.
  \<^item> \<open>Epoll_Core\<close> models \<^verbatim>\<open>fd/src/epoll.rs\<close> over \<open>Ready_Queue\<close>. \<open>Epoll_Safety\<close> proves that an
    interest is queued exactly when it is enabled, ready and not in delivery; \<open>Epoll_Props\<close> that
    the ring never overflows, and what notification and delivery do.
  \<^item> \<open>Epoll_Graph\<close> models \<^verbatim>\<open>fd/src/graph.rs\<close>. \<open>Walk_Relation\<close> and \<open>Epoll_Graph_Walks\<close> show that the
    budgeted walks are exact and that a budget of three full walks suffices;
    \<open>Epoll_Graph_Props\<close> that the topology stays acyclic, shallow and narrow and that every verdict
    on a new interest is the right one.
  \<^item> \<open>Watch_Subscription\<close> models \<^verbatim>\<open>fd/src/subscription.rs\<close>: charging is linearizable, and over the
    life of a subscription credits and sources are conserved. \<open>try_charge\<close> is one uncontended
    attempt; the loop with its competitors is \<open>try_atomic_update\<close>.
  \<^item> \<open>Seccomp_Filter\<close> and \<open>Seccomp_Filter_Props\<close> model \<^verbatim>\<open>seccomp/src/uapi.rs\<close>, \<^verbatim>\<open>action.rs\<close> and
    \<^verbatim>\<open>bpf.rs\<close>; \<open>Seccomp_Chain\<close> models \<^verbatim>\<open>budget.rs\<close>, \<^verbatim>\<open>chain.rs\<close> and \<^verbatim>\<open>state.rs\<close>. \<open>Seccomp_Chain_Props\<close>
    proves what a chain decides, its cost bound and exact memory accounting under reference
    counting; \<open>Seccomp_State_Props\<close> that confinement is never relaxed.
  \<^item> \<open>Mm_Range\<close> and \<open>Mm_Plan\<close> model \<^verbatim>\<open>mm/src/range.rs\<close>, \<^verbatim>\<open>identity.rs\<close>, \<^verbatim>\<open>error.rs\<close>, \<^verbatim>\<open>mapping.rs\<close> and
    \<^verbatim>\<open>plan.rs\<close>; \<open>Mm_Range_Props\<close> proves the planners exact.
  \<^item> \<open>Pin_Registry\<close> models the pin budget and the pin registry of \<^verbatim>\<open>mm/src/pin.rs\<close>.
    \<open>Pin_Registry_Safety\<close> proves the invariant for every call: unique tokens, usage equal to the
    live charges and within the quotas, exclusive writers. \<open>Pin_Revalidation\<close> collects the mapping
    segments a run accepted and shows that they tile the validated prefix of every live record,
    each of them current and permitting the access. \<open>Pin_Registry_Props\<close> states accounting,
    protection, tokens and teardown; \<open>Pin_Budget_Props\<close> that the budget refines a finite map.
  \<^item> \<open>Cred_Idmap\<close> models \<^verbatim>\<open>cred/src/idmap.rs\<close> and \<^verbatim>\<open>error.rs\<close>, \<open>Cred_Namespace\<close> \<^verbatim>\<open>namespace.rs\<close>,
    \<open>Cred_Credential\<close> \<^verbatim>\<open>credential.rs\<close> (group membership as set membership in the sorted list the source
    searches), \<open>Cred_Transition\<close> \<^verbatim>\<open>transition.rs\<close> and \<^verbatim>\<open>content_write.rs\<close>, \<open>Cred_Exec\<close> \<^verbatim>\<open>exec.rs\<close> and
    \<^verbatim>\<open>file_capability.rs\<close>. \<open>Cred_Idmap_Props\<close> proves the round trip and the composition of identity
    maps, \<open>Cred_Caps_Safety\<close> capability words as sets and what a validated transition promises,
    \<open>Cred_Exec_Props\<close> that exec guards every gain, \<open>Cred_Transition_Props\<close> that \<open>no_new_privs\<close>
    confines a task, \<open>Cred_Ns_Props\<close> that the walk over the namespace tree is exact.
  \<^item> \<open>Uring_Setup\<close> models \<^verbatim>\<open>io-uring/src/error.rs\<close>, \<^verbatim>\<open>setup.rs\<close>, \<^verbatim>\<open>enter.rs\<close> and \<^verbatim>\<open>registration.rs\<close> and shows
    that the areas of a ring do not overlap; \<open>Uring_Sqe\<close> models \<^verbatim>\<open>sqe.rs\<close> and shows that an entry is
    accepted under the descriptor it decodes to. \<open>Uring_Request\<close> models \<^verbatim>\<open>request.rs\<close>;
    \<open>Uring_Request_Inv\<close> proves its invariant for every operation, \<open>Uring_Request_Props\<close> that no
    accepted request loses its completion, that a request has one terminal outcome and that
    cancellation takes the oldest. \<open>Uring_Files\<close> and \<open>Uring_Buffers\<close> model \<^verbatim>\<open>resource.rs\<close> and
    \<^verbatim>\<open>buffer.rs\<close> and show that a leased resource stays in place.

  \<^bold>\<open>Bounds and fuel.\<close> The graph walks recurse under the step budget of the source, which is an
  argument and returned decremented, so the model has no fuel of its own; the theorem on the
  budget says when it is enough. The retry loop of the accounts recurses over the list of
  attempts it meets; a loop that has not finished within the list is \<open>None\<close>, and the theorem says
  that this happens only when every attempt failed. All other loops run over finite tables.

  \<^bold>\<open>Not modelled.\<close> The security contexts of \<^verbatim>\<open>cred\<close> (\<^verbatim>\<open>security.rs\<close>, \<^verbatim>\<open>mmap_security.rs\<close>,
  \<^verbatim>\<open>socket_security.rs\<close>, \<^verbatim>\<open>key_security.rs\<close>), which only read credentials; \<^verbatim>\<open>fault.rs\<close> and \<^verbatim>\<open>userfaultfd.rs\<close>
  of \<^verbatim>\<open>mm\<close>; and the crates \<^verbatim>\<open>vfs\<close>, \<^verbatim>\<open>packet\<close> and \<^verbatim>\<open>rseq\<close>, which share no state with the modelled ones. The
  crates \<^verbatim>\<open>process\<close>, \<^verbatim>\<open>signal\<close> and \<^verbatim>\<open>usercopy\<close> rest on locks, architecture state and raw user memory of
  other packages. Memory orderings of atomics are not modelled: an atomic operation is one step.
\<close>

end
